(* ===== verification/Hql_Prelude.thy ===== *)
theory Hql_Prelude
  imports Main "HOL-Library.Word"
begin

text \<open>
  The vocabulary every component shares: results with an error branch and a panic branch, state
  passing actions (a Rust function taking \<^verbatim>\<open>&mut\<close> state keeps what it wrote before it returned an
  error), checked machine arithmetic, slices of byte vectors and big-endian numbers.

  The model is that of a build with debug assertions and overflow checks: a failing
  \<^verbatim>\<open>debug_assert!\<close>, an overflowing \<^verbatim>\<open>+\<close> or \<^verbatim>\<open>-\<close>, an index out of range, an \<^verbatim>\<open>unwrap()\<close> of
  \<^verbatim>\<open>None\<close> and an explicit \<^verbatim>\<open>panic!\<close> all are \<open>Panic\<close>. Where a theorem shows that an operation does
  not panic, the release build, which only drops the checks, computes the same value.
  Values of the types \<^verbatim>\<open>u32\<close>, \<^verbatim>\<open>u64\<close> and \<^verbatim>\<open>usize\<close> are natural numbers, with the range checks
  written out in \<open>add_u32\<close>, \<open>add_u64\<close> and \<open>sub_u\<close>; bytes are 8-bit words.
\<close>

section \<open>Collections of facts\<close>

named_theorems act_simps \<open>evaluation of state passing actions\<close>
named_theorems slice_simps \<open>reading and overwriting slices\<close>
named_theorems codec_simps \<open>lengths and round trips of encodings\<close>

section \<open>Results\<close>

datatype ('e, 'a) res = Ok 'a | Err 'e | Panic string

fun rbind :: "('e, 'a) res \<Rightarrow> ('a \<Rightarrow> ('e, 'b) res) \<Rightarrow> ('e, 'b) res" where
  "rbind (Ok a) f = f a"
| "rbind (Err e) f = Err e"
| "rbind (Panic p) f = Panic p"

definition rassert :: "bool \<Rightarrow> ('e, unit) res" where
  "rassert b = (if b then Ok () else Panic ''assertion failed'')"

definition unwrap :: "'a option \<Rightarrow> ('e, 'a) res" where
  "unwrap x = (case x of Some a \<Rightarrow> Ok a | None \<Rightarrow> Panic ''unwrap on None'')"

lemma rassert_True [simp]: "rassert True = Ok ()"
  by (simp add: rassert_def)

lemma rassert_eq_Ok [simp]: "rassert b = Ok u \<longleftrightarrow> b"
  by (simp add: rassert_def)

lemma unwrap_Some [simp]: "unwrap (Some a) = Ok a"
  by (simp add: unwrap_def)

lemma unwrap_eq_Ok [simp]: "unwrap x = Ok a \<longleftrightarrow> x = Some a"
  by (simp add: unwrap_def split: option.split)

lemma rbind_eq_Ok: "rbind m f = Ok b \<longleftrightarrow> (\<exists>a. m = Ok a \<and> f a = Ok b)"
  by (cases m) auto

lemma rbind_assoc: "rbind (rbind m f) g = rbind m (\<lambda>a. rbind (f a) g)"
  by (cases m) auto

section \<open>Actions on a state\<close>

type_synonym ('s, 'e, 'a) act = "'s \<Rightarrow> ('e, 'a) res \<times> 's"

definition aret :: "'a \<Rightarrow> ('s, 'e, 'a) act" where
  "aret a = (\<lambda>s. (Ok a, s))"

definition athrow :: "'e \<Rightarrow> ('s, 'e, 'a) act" where
  "athrow e = (\<lambda>s. (Err e, s))"

definition apanic :: "string \<Rightarrow> ('s, 'e, 'a) act" where
  "apanic p = (\<lambda>s. (Panic p, s))"

definition alift :: "('e, 'a) res \<Rightarrow> ('s, 'e, 'a) act" where
  "alift r = (\<lambda>s. (r, s))"

definition aget :: "('s, 'e, 's) act" where
  "aget = (\<lambda>s. (Ok s, s))"

definition amod :: "('s \<Rightarrow> 's) \<Rightarrow> ('s, 'e, unit) act" where
  "amod f = (\<lambda>s. (Ok (), f s))"

definition abind :: "('s, 'e, 'a) act \<Rightarrow> ('a \<Rightarrow> ('s, 'e, 'b) act) \<Rightarrow> ('s, 'e, 'b) act" where
  "abind m f = (\<lambda>s. case m s of
     (Ok a, s') \<Rightarrow> f a s'
   | (Err e, s') \<Rightarrow> (Err e, s')
   | (Panic p, s') \<Rightarrow> (Panic p, s'))"

definition athen :: "('s, 'e, 'a) act \<Rightarrow> ('s, 'e, 'b) act \<Rightarrow> ('s, 'e, 'b) act" where
  "athen m n = abind m (\<lambda>_. n)"

definition aassert :: "('s \<Rightarrow> bool) \<Rightarrow> ('s, 'e, unit) act" where
  "aassert P = (\<lambda>s. (rassert (P s), s))"

lemma aret_apply [act_simps]: "aret a s = (Ok a, s)"
  by (simp add: aret_def)

lemma athrow_apply [act_simps]: "athrow e s = (Err e, s)"
  by (simp add: athrow_def)

lemma apanic_apply [act_simps]: "apanic p s = (Panic p, s)"
  by (simp add: apanic_def)

lemma alift_apply [act_simps]: "alift r s = (r, s)"
  by (simp add: alift_def)

lemma aget_apply [act_simps]: "aget s = (Ok s, s)"
  by (simp add: aget_def)

lemma amod_apply [act_simps]: "amod f s = (Ok (), f s)"
  by (simp add: amod_def)

lemma aassert_apply [act_simps]: "aassert P s = (rassert (P s), s)"
  by (simp add: aassert_def)

lemma abind_apply [act_simps]:
  "abind m f s = (case m s of
     (Ok a, s') \<Rightarrow> f a s'
   | (Err e, s') \<Rightarrow> (Err e, s')
   | (Panic p, s') \<Rightarrow> (Panic p, s'))"
  by (simp add: abind_def)

lemma athen_apply [act_simps]:
  "athen m n s = (case m s of
     (Ok a, s') \<Rightarrow> n s'
   | (Err e, s') \<Rightarrow> (Err e, s')
   | (Panic p, s') \<Rightarrow> (Panic p, s'))"
  by (simp add: athen_def abind_def)

lemma abind_OkD:
  assumes "abind m f s = (Ok b, s'')"
  obtains a s' where "m s = (Ok a, s')" and "f a s' = (Ok b, s'')"
  using assms by (auto simp: abind_def split: prod.splits res.splits)

lemma athen_OkD:
  assumes "athen m n s = (Ok b, s'')"
  obtains a s' where "m s = (Ok a, s')" and "n s' = (Ok b, s'')"
  using assms by (auto simp: athen_def elim: abind_OkD)

section \<open>Checked machine arithmetic\<close>

definition u32_max :: nat where "u32_max = 2 ^ 32 - 1"
definition u64_max :: nat where "u64_max = 2 ^ 64 - 1"

definition add_u32 :: "nat \<Rightarrow> nat \<Rightarrow> ('e, nat) res" where
  "add_u32 a b = (if a + b \<le> u32_max then Ok (a + b) else Panic ''attempt to add with overflow'')"

definition add_u64 :: "nat \<Rightarrow> nat \<Rightarrow> ('e, nat) res" where
  "add_u64 a b = (if a + b \<le> u64_max then Ok (a + b) else Panic ''attempt to add with overflow'')"

definition sub_u :: "nat \<Rightarrow> nat \<Rightarrow> ('e, nat) res" where
  "sub_u a b = (if b \<le> a then Ok (a - b) else Panic ''attempt to subtract with overflow'')"

lemma add_u32_Ok [simp]: "add_u32 a b = Ok c \<longleftrightarrow> c = a + b \<and> a + b \<le> u32_max"
  by (auto simp: add_u32_def)

lemma add_u64_Ok [simp]: "add_u64 a b = Ok c \<longleftrightarrow> c = a + b \<and> a + b \<le> u64_max"
  by (auto simp: add_u64_def)

lemma sub_u_Ok [simp]: "sub_u a b = Ok c \<longleftrightarrow> c = a - b \<and> b \<le> a"
  by (auto simp: sub_u_def)

lemma add_u32_eq: "a + b \<le> u32_max \<Longrightarrow> add_u32 a b = Ok (a + b)"
  by simp

lemma add_u64_eq: "a + b \<le> u64_max \<Longrightarrow> add_u64 a b = Ok (a + b)"
  by simp

lemma sub_u_eq: "b \<le> a \<Longrightarrow> sub_u a b = Ok (a - b)"
  by simp

lemma u32_max_less_u64_max: "u32_max < u64_max"
  by (simp add: u32_max_def u64_max_def)

section \<open>Byte vectors and slices\<close>

type_synonym byte = "8 word"
type_synonym bytes = "byte list"

definition slice :: "'a list \<Rightarrow> nat \<Rightarrow> nat \<Rightarrow> 'a list" where
  "slice xs a b = take (b - a) (drop a xs)"

text \<open>Reading \<^verbatim>\<open>&xs[a..b]\<close>: out of range is a panic.\<close>

definition slice_r :: "'a list \<Rightarrow> nat \<Rightarrow> nat \<Rightarrow> ('e, 'a list) res" where
  "slice_r xs a b =
     (if a \<le> b \<and> b \<le> length xs then Ok (slice xs a b) else Panic ''slice index out of range'')"

definition overwrite :: "'a list \<Rightarrow> nat \<Rightarrow> 'a list \<Rightarrow> 'a list" where
  "overwrite xs a ys = take a xs @ ys @ drop (a + length ys) xs"

lemma slice_alt: "slice xs a b = drop a (take b xs)"
  by (simp add: slice_def drop_take)

lemma length_slice [slice_simps]: "b \<le> length xs \<Longrightarrow> length (slice xs a b) = b - a"
  by (auto simp: slice_def)

lemma slice_r_eq [slice_simps]: "a \<le> b \<Longrightarrow> b \<le> length xs \<Longrightarrow> slice_r xs a b = Ok (slice xs a b)"
  by (simp add: slice_r_def)

lemma slice_r_OkD: "slice_r xs a b = Ok ys \<Longrightarrow> ys = slice xs a b \<and> a \<le> b \<and> b \<le> length xs"
  by (simp add: slice_r_def split: if_splits)

lemma length_overwrite [slice_simps]:
  "a + length ys \<le> length xs \<Longrightarrow> length (overwrite xs a ys) = length xs"
  by (simp add: overwrite_def)

lemma slice_append_left: "b \<le> length xs \<Longrightarrow> slice (xs @ ys) a b = slice xs a b"
  by (simp add: slice_def)

lemma slice_slice:
  assumes "b' \<le> b - a"
  shows "slice (slice xs a b) a' b' = slice xs (a + a') (a + b')"
  using assms by (simp add: slice_def drop_take min_def add.commute)

lemma slice_overwrite_same:
  "a + length ys \<le> length xs \<Longrightarrow> slice (overwrite xs a ys) a (a + length ys) = ys"
  by (simp add: slice_def overwrite_def)

lemma slice_overwrite_before:
  "b \<le> a \<Longrightarrow> a \<le> length xs \<Longrightarrow> slice (overwrite xs a ys) c b = slice xs c b"
  by (simp add: slice_alt overwrite_def min_def)

lemma slice_overwrite_after:
  assumes "a + length ys \<le> c" and "a \<le> length xs"
  shows "slice (overwrite xs a ys) c b = slice xs c b"
proof -
  have "drop c (take a xs @ ys @ drop (a + length ys) xs) = drop c xs"
    using assms by (simp add: min_def)
  then show ?thesis by (simp add: slice_def overwrite_def)
qed

lemma slice_overwrite_inside:
  assumes "a \<le> c" and "c \<le> d" and "d \<le> a + length ys" and "a + length ys \<le> length xs"
  shows "slice (overwrite xs a ys) c d = slice ys (c - a) (d - a)"
  using assms by (simp add: slice_def overwrite_def)

lemma slice_split:
  assumes "a \<le> b" and "b \<le> c"
  shows "slice xs a c = slice xs a b @ slice xs b c"
proof -
  have "c - a = (b - a) + (c - b)" using assms by simp
  then have "take (c - a) (drop a xs)
      = take (b - a) (drop a xs) @ take (c - b) (drop (b - a) (drop a xs))"
    by (simp only: take_add)
  also have "drop (b - a) (drop a xs) = drop b xs" using assms by simp
  finally show ?thesis by (simp add: slice_def)
qed

lemma overwrite_append_right:
  assumes "a + length ys \<le> length xs"
  shows "overwrite (overwrite xs a ys) (a + length ys) zs = overwrite xs a (ys @ zs)"
proof -
  have "take (a + length ys) (overwrite xs a ys) = take a xs @ ys"
    using assms by (simp add: overwrite_def)
  moreover have "drop (a + length ys + length zs) (overwrite xs a ys) = drop (a + length (ys @ zs)) xs"
    using assms by (simp add: overwrite_def add_ac)
  ultimately show ?thesis by (simp add: overwrite_def)
qed

lemma overwrite_append_left:
  assumes "a + length ys \<le> length xs"
  shows "overwrite (overwrite xs (a + length ys) zs) a ys = overwrite xs a (ys @ zs)"
proof -
  have "take a (overwrite xs (a + length ys) zs) = take a xs"
    using assms by (simp add: overwrite_def min_def)
  moreover have "drop (a + length ys) (overwrite xs (a + length ys) zs)
      = zs @ drop (a + length (ys @ zs)) xs"
    using assms by (simp add: overwrite_def add_ac)
  ultimately show ?thesis by (simp add: overwrite_def [of _ a])
qed

lemma slice_replicate: "b \<le> n \<Longrightarrow> slice (replicate n x) a b = replicate (b - a) x"
  by (simp add: slice_def min_def)

lemma overwrite_overwrite:
  "length ys = length zs \<Longrightarrow> a \<le> length xs \<Longrightarrow> overwrite (overwrite xs a ys) a zs = overwrite xs a zs"
  by (simp add: overwrite_def)

section \<open>Big-endian numbers\<close>

primrec be_bytes :: "nat \<Rightarrow> nat \<Rightarrow> bytes" where
  "be_bytes 0 n = []"
| "be_bytes (Suc k) n = word_of_nat (n div 256 ^ k) # be_bytes k n"

primrec be_nat :: "bytes \<Rightarrow> nat" where
  "be_nat [] = 0"
| "be_nat (b # bs) = unat b * 256 ^ length bs + be_nat bs"

lemma length_be_bytes [simp, codec_simps]: "length (be_bytes k n) = k"
  by (induction k) auto

lemma unat_byte_of_nat: "unat (word_of_nat n :: byte) = n mod 256"
  by (simp add: unat_of_nat)

lemma be_nat_be_bytes_mod: "be_nat (be_bytes k n) = n mod 256 ^ k"
proof (induction k)
  case 0
  then show ?case by simp
next
  case (Suc k)
  have "n mod 256 ^ Suc k = 256 ^ k * (n div 256 ^ k mod 256) + n mod 256 ^ k"
    using mod_mult2_eq [of n "256 ^ k" 256] by (simp add: mult.commute)
  with Suc show ?case by (simp add: unat_byte_of_nat mult.commute)
qed

lemma be_nat_be_bytes [codec_simps]: "n < 256 ^ k \<Longrightarrow> be_nat (be_bytes k n) = n"
  by (simp add: be_nat_be_bytes_mod)

lemma be_nat_less: "be_nat bs < 256 ^ length bs"
proof (induction bs)
  case Nil
  then show ?case by simp
next
  case (Cons b bs)
  have "unat b < 256" using unsigned_less [of b] by simp
  then have "unat b * 256 ^ length bs + 256 ^ length bs \<le> 256 * (256::nat) ^ length bs"
    by (metis Suc_leI add.commute mult_Suc mult_le_mono1)
  with Cons show ?case by (simp only: be_nat.simps length_Cons power_Suc)
qed

lemma be_bytes_add_high: "be_bytes k (a * 256 ^ k + n) = be_bytes k n"
proof (induction k arbitrary: a)
  case 0
  then show ?case by simp
next
  case (Suc k)
  have split: "a * 256 ^ Suc k + n = (a * 256) * 256 ^ k + n" by simp
  have "(a * 256 ^ Suc k + n) div 256 ^ k = a * 256 + n div 256 ^ k"
    unfolding split by (simp add: div_mult_self3)
  moreover have "(word_of_nat (a * 256 + n div 256 ^ k) :: byte) = word_of_nat (n div 256 ^ k)"
    by (simp only: word_unat_eq_iff unat_byte_of_nat) simp
  moreover have "be_bytes k (a * 256 ^ Suc k + n) = be_bytes k n"
    unfolding split by (rule Suc.IH)
  ultimately show ?case by simp
qed

lemma be_bytes_be_nat [codec_simps]: "length bs = k \<Longrightarrow> be_bytes k (be_nat bs) = bs"
proof (induction bs arbitrary: k)
  case Nil
  then show ?case by simp
next
  case (Cons b bs)
  then obtain m where m: "k = Suc m" "length bs = m" by (cases k) auto
  have "(unat b * 256 ^ m + be_nat bs) div 256 ^ m = unat b"
    using be_nat_less [of bs] m by simp
  moreover have "be_bytes m (unat b * 256 ^ m + be_nat bs) = bs"
    using Cons.IH [OF m(2)] by (simp add: be_bytes_add_high)
  ultimately show ?case using m by simp
qed

lemma be_nat_zeros: "be_nat (replicate n 0) = 0"
  by (induction n) auto

section \<open>Related lists\<close>

lemma list_all2_imp:
  assumes "list_all2 P xs ys" and "\<And>x y. x \<in> set xs \<Longrightarrow> y \<in> set ys \<Longrightarrow> P x y \<Longrightarrow> Q x y"
  shows "list_all2 Q xs ys"
  using assms by (induction rule: list_all2_induct) auto

lemma list_all2_obtain:
  assumes "list_all2 P xs ys" and "x \<in> set xs"
  obtains y where "y \<in> set ys" and "P x y"
  using assms by (metis in_set_conv_nth list_all2_conv_all_nth)

lemma list_all2_snoc: "list_all2 P (xs @ [x]) (ys @ [y]) \<longleftrightarrow> list_all2 P xs ys \<and> P x y"
  using list_all2_rev [of P "xs @ [x]" "ys @ [y]"] by auto

end
