(* ===== verification/Hql_Fs.thy ===== *)
theory Hql_Fs
  imports Hql_Prelude "HOL-Library.AList"
begin

text \<open>
  The part of the operating system the write-ahead log relies on: path names bound to inodes, the
  page cache of an inode (what every open file and every shared memory map of it reads and
  writes) and the bytes of it known to have reached the disk. An inode stays readable through a
  map after its name has been removed. \<open>faulty\<close> is the environment: a system call it marks fails
  with an I/O error. \<open>flush\<close> of a shared map (\<^verbatim>\<open>msync\<close> with \<^verbatim>\<open>MS_SYNC\<close>) makes the page cache durable;
  starting writeback (\<^verbatim>\<open>sync_file_range\<close>) promises nothing.
\<close>

datatype fs_op =
    OpExists string | OpOpen string | OpCreate string | OpRead string | OpWrite string
  | OpRemove string | OpRename string string | OpReadDir string | OpLock string
  | OpSync nat | OpWriteback nat

record inode =
  contents :: bytes
  durable :: bytes

record fs =
  names :: "(string \<times> nat) list"
  inodes :: "nat \<Rightarrow> inode option"
  next_ino :: nat
  faulty :: "fs_op \<Rightarrow> bool"

definition fs_lookup :: "fs \<Rightarrow> string \<Rightarrow> nat option" where
  "fs_lookup s p = map_of (names s) p"

definition ino_bytes :: "fs \<Rightarrow> nat \<Rightarrow> bytes" where
  "ino_bytes s i = (case inodes s i of Some n \<Rightarrow> contents n | None \<Rightarrow> [])"

definition ino_durable :: "fs \<Rightarrow> nat \<Rightarrow> bytes" where
  "ino_durable s i = (case inodes s i of Some n \<Rightarrow> durable n | None \<Rightarrow> [])"

definition ino_write :: "fs \<Rightarrow> nat \<Rightarrow> bytes \<Rightarrow> fs" where
  "ino_write s i bs = (case inodes s i of
     Some n \<Rightarrow> s\<lparr>inodes := (inodes s)(i \<mapsto> n\<lparr>contents := bs\<rparr>)\<rparr>
   | None \<Rightarrow> s)"

definition ino_sync :: "fs \<Rightarrow> nat \<Rightarrow> fs" where
  "ino_sync s i = (case inodes s i of
     Some n \<Rightarrow> s\<lparr>inodes := (inodes s)(i \<mapsto> n\<lparr>durable := contents n\<rparr>)\<rparr>
   | None \<Rightarrow> s)"

text \<open>\<open>fs_create\<close> binds a path to a fresh inode, \<open>fs_remove\<close> unbinds it and \<open>fs_rename\<close> moves a
  binding over whatever the target was bound to.\<close>

definition fs_create :: "fs \<Rightarrow> string \<Rightarrow> bytes \<Rightarrow> fs" where
  "fs_create s p bs =
     s\<lparr>names := AList.update p (next_ino s) (names s),
       inodes := (inodes s)(next_ino s \<mapsto> \<lparr>contents = bs, durable = []\<rparr>),
       next_ino := Suc (next_ino s)\<rparr>"

definition fs_remove :: "fs \<Rightarrow> string \<Rightarrow> fs" where
  "fs_remove s p = s\<lparr>names := AList.delete p (names s)\<rparr>"

definition fs_rename :: "fs \<Rightarrow> string \<Rightarrow> string \<Rightarrow> fs" where
  "fs_rename s p q = (case fs_lookup s p of
     Some i \<Rightarrow> s\<lparr>names := AList.update q i (AList.delete p (names s))\<rparr>
   | None \<Rightarrow> s)"

text \<open>Every bound path names an inode that exists, no inode has two names, and fresh inode numbers
  are unused.\<close>

definition fs_ok :: "fs \<Rightarrow> bool" where
  "fs_ok s \<longleftrightarrow>
     (\<forall>p i. fs_lookup s p = Some i \<longrightarrow> inodes s i \<noteq> None) \<and>
     (\<forall>p q i. fs_lookup s p = Some i \<longrightarrow> fs_lookup s q = Some i \<longrightarrow> p = q) \<and>
     (\<forall>i. inodes s i \<noteq> None \<longrightarrow> i < next_ino s)"

section \<open>Lookup after update\<close>

named_theorems fs_simps \<open>what a file system query sees after an update\<close>

lemma ino_bytes_write [fs_simps]:
  "ino_bytes (ino_write s i bs) j = (if j = i \<and> inodes s i \<noteq> None then bs else ino_bytes s j)"
  by (auto simp: ino_bytes_def ino_write_def split: option.splits)

lemma ino_durable_write [fs_simps]: "ino_durable (ino_write s i bs) j = ino_durable s j"
  by (auto simp: ino_durable_def ino_write_def split: option.splits)

lemma inodes_write_None [fs_simps]: "inodes (ino_write s i bs) j = None \<longleftrightarrow> inodes s j = None"
  by (auto simp: ino_write_def split: option.splits)

lemma ino_bytes_sync [fs_simps]: "ino_bytes (ino_sync s i) j = ino_bytes s j"
  by (auto simp: ino_bytes_def ino_sync_def split: option.splits)

lemma ino_durable_sync [fs_simps]:
  "ino_durable (ino_sync s i) j = (if j = i then ino_bytes s i else ino_durable s j)"
  by (auto simp: ino_durable_def ino_bytes_def ino_sync_def split: option.splits)

lemma inodes_sync_None [fs_simps]: "inodes (ino_sync s i) j = None \<longleftrightarrow> inodes s j = None"
  by (auto simp: ino_sync_def split: option.splits)

lemma ino_write_write [fs_simps]: "ino_write (ino_write s i bs) i bs' = ino_write s i bs'"
  by (auto simp: ino_write_def split: option.splits)

lemma fs_lookup_write [fs_simps]: "fs_lookup (ino_write s i bs) p = fs_lookup s p"
  by (auto simp: fs_lookup_def ino_write_def split: option.splits)

lemma names_write [fs_simps]: "names (ino_write s i bs) = names s"
  by (auto simp: ino_write_def split: option.splits)

lemma names_sync [fs_simps]: "names (ino_sync s i) = names s"
  by (auto simp: ino_sync_def split: option.splits)

lemma fs_lookup_sync [fs_simps]: "fs_lookup (ino_sync s i) p = fs_lookup s p"
  by (auto simp: fs_lookup_def ino_sync_def split: option.splits)

lemma faulty_write [fs_simps]: "faulty (ino_write s i bs) = faulty s"
  by (auto simp: ino_write_def split: option.splits)

lemma faulty_sync [fs_simps]: "faulty (ino_sync s i) = faulty s"
  by (auto simp: ino_sync_def split: option.splits)

lemma next_ino_write [fs_simps]: "next_ino (ino_write s i bs) = next_ino s"
  by (auto simp: ino_write_def split: option.splits)

lemma next_ino_sync [fs_simps]: "next_ino (ino_sync s i) = next_ino s"
  by (auto simp: ino_sync_def split: option.splits)

lemma fs_lookup_create [fs_simps]:
  "fs_lookup (fs_create s p bs) q = (if q = p then Some (next_ino s) else fs_lookup s q)"
  by (simp add: fs_lookup_def fs_create_def update_conv')

lemma ino_bytes_create [fs_simps]:
  "ino_bytes (fs_create s p bs) i = (if i = next_ino s then bs else ino_bytes s i)"
  by (simp add: ino_bytes_def fs_create_def)

lemma ino_durable_create [fs_simps]:
  "ino_durable (fs_create s p bs) i = (if i = next_ino s then [] else ino_durable s i)"
  by (simp add: ino_durable_def fs_create_def)

lemma inodes_create_None [fs_simps]:
  "inodes (fs_create s p bs) i = None \<longleftrightarrow> i \<noteq> next_ino s \<and> inodes s i = None"
  by (simp add: fs_create_def)

lemma faulty_create [fs_simps]: "faulty (fs_create s p bs) = faulty s"
  by (simp add: fs_create_def)

lemma next_ino_create [fs_simps]: "next_ino (fs_create s p bs) = Suc (next_ino s)"
  by (simp add: fs_create_def)

lemma fs_lookup_remove [fs_simps]:
  "fs_lookup (fs_remove s p) q = (if q = p then None else fs_lookup s q)"
  by (simp add: fs_lookup_def fs_remove_def delete_conv')

lemma fs_remove_inodes [fs_simps]:
  "ino_bytes (fs_remove s p) i = ino_bytes s i"
  "ino_durable (fs_remove s p) i = ino_durable s i"
  "inodes (fs_remove s p) = inodes s"
  "faulty (fs_remove s p) = faulty s"
  "next_ino (fs_remove s p) = next_ino s"
  by (simp_all add: fs_remove_def ino_bytes_def ino_durable_def)

lemma fs_lookup_rename [fs_simps]:
  "fs_lookup s p = Some i \<Longrightarrow> p \<noteq> q \<Longrightarrow>
   fs_lookup (fs_rename s p q) r = (if r = q then Some i else if r = p then None else fs_lookup s r)"
  by (simp add: fs_lookup_def fs_rename_def update_conv' delete_conv')

lemma fs_rename_inodes [fs_simps]:
  "ino_bytes (fs_rename s p q) i = ino_bytes s i"
  "ino_durable (fs_rename s p q) i = ino_durable s i"
  "inodes (fs_rename s p q) = inodes s"
  "faulty (fs_rename s p q) = faulty s"
  "next_ino (fs_rename s p q) = next_ino s"
  by (simp_all add: fs_rename_def ino_bytes_def ino_durable_def split: option.split)

lemma fs_ok_write [fs_simps]: "fs_ok (ino_write s i bs) = fs_ok s"
  by (simp add: fs_ok_def fs_simps)

lemma fs_ok_sync [fs_simps]: "fs_ok (ino_sync s i) = fs_ok s"
  by (simp add: fs_ok_def fs_simps)

lemma fs_ok_fresh: "fs_ok s \<Longrightarrow> fs_lookup s p \<noteq> Some (next_ino s)"
  by (force simp: fs_ok_def)

lemma fs_ok_create: "fs_ok s \<Longrightarrow> fs_ok (fs_create s p bs)"
  using fs_ok_fresh [of s]
  unfolding fs_ok_def fs_simps by (auto simp: less_Suc_eq split: if_splits)

lemma fs_ok_remove: "fs_ok s \<Longrightarrow> fs_ok (fs_remove s p)"
  unfolding fs_ok_def fs_simps by (auto split: if_splits)

text \<open>The file system without files and faults, the start of the examples.\<close>

definition fs_empty :: fs where
  "fs_empty = \<lparr>names = [], inodes = (\<lambda>_. None), next_ino = 0, faulty = (\<lambda>_. False)\<rparr>"

lemma fs_ok_empty [simp]: "fs_ok fs_empty"
  by (simp add: fs_empty_def fs_ok_def fs_lookup_def)

lemma faulty_empty [simp]: "faulty fs_empty op = False"
  by (simp add: fs_empty_def)

lemma fs_lookup_empty [simp]: "fs_lookup fs_empty p = None"
  by (simp add: fs_empty_def fs_lookup_def)

end
