(* ===== verification/Hql_Text.thy ===== *)
theory Hql_Text
  imports Hql_Prelude "HOL-Library.List_Lexorder" "HOL-Library.Char_ord"
begin

text \<open>
  The string operations of the Rust standard library that the sources use: \<^verbatim>\<open>split_once\<close>,
  \<^verbatim>\<open>rsplit_once\<close>, \<^verbatim>\<open>ends_with\<close>, \<^verbatim>\<open>lines\<close>, decimal printing with \<^verbatim>\<open>to_string\<close> and parsing with
  \<^verbatim>\<open>parse\<close>. Printing followed by parsing is the identity, and zero padding to a common width makes
  the order of strings the order of the numbers they print.
\<close>

section \<open>Splitting\<close>

fun split_once :: "char \<Rightarrow> string \<Rightarrow> (string \<times> string) option" where
  "split_once c [] = None"
| "split_once c (x # xs) =
     (if x = c then Some ([], xs)
      else map_option (\<lambda>(a, b). (x # a, b)) (split_once c xs))"

definition rsplit_once :: "char \<Rightarrow> string \<Rightarrow> (string \<times> string) option" where
  "rsplit_once c s = map_option (\<lambda>(b, a). (rev a, rev b)) (split_once c (rev s))"

definition ends_with :: "string \<Rightarrow> string \<Rightarrow> bool" where
  "ends_with s suf \<longleftrightarrow> length suf \<le> length s \<and> drop (length s - length suf) s = suf"

definition starts_with :: "string \<Rightarrow> string \<Rightarrow> bool" where
  "starts_with s pre \<longleftrightarrow> take (length pre) s = pre"

definition strip_prefix :: "string \<Rightarrow> string \<Rightarrow> string option" where
  "strip_prefix s pre = (if starts_with s pre then Some (drop (length pre) s) else None)"

lemma split_once_append: "c \<notin> set xs \<Longrightarrow> split_once c (xs @ c # ys) = Some (xs, ys)"
  by (induction xs) auto

lemma split_once_None: "split_once c xs = None \<longleftrightarrow> c \<notin> set xs"
  by (induction xs) auto

lemma split_once_SomeD: "split_once c xs = Some (a, b) \<Longrightarrow> xs = a @ c # b"
  by (induction xs arbitrary: a) (auto split: if_splits)

lemma rsplit_once_append: "c \<notin> set ys \<Longrightarrow> rsplit_once c (xs @ c # ys) = Some (xs, ys)"
  by (simp add: rsplit_once_def split_once_append)

text \<open>\<^verbatim>\<open>str::lines\<close>: the pieces between line feeds, without a last empty piece; a carriage return
  before the line feed is dropped.\<close>

definition chomp :: "string \<Rightarrow> string" where
  "chomp l = (if l \<noteq> [] \<and> last l = CHR 0x0D then butlast l else l)"

fun lines_acc :: "string \<Rightarrow> string \<Rightarrow> string list" where
  "lines_acc cur [] = (if cur = [] then [] else [rev cur])"
| "lines_acc cur (x # xs) =
     (if x = CHR 0x0A then chomp (rev cur) # lines_acc [] xs else lines_acc (x # cur) xs)"

definition lines :: "string \<Rightarrow> string list" where
  "lines s = lines_acc [] s"

lemma lines_acc_line:
  "CHR 0x0A \<notin> set l \<Longrightarrow> lines_acc cur (l @ CHR 0x0A # s) = chomp (rev cur @ l) # lines_acc [] s"
  by (induction l arbitrary: cur) auto

lemma lines_line:
  assumes "CHR 0x0A \<notin> set l" and "CHR 0x0D \<notin> set l"
  shows "lines (l @ CHR 0x0A # s) = l # lines s"
proof -
  have "\<not> (l \<noteq> [] \<and> last l = CHR 0x0D)"
    using assms(2) last_in_set by metis
  then show ?thesis
    using assms by (auto simp: lines_def lines_acc_line chomp_def)
qed

section \<open>Decimal numbers\<close>

definition digit :: "nat \<Rightarrow> char" where
  "digit d = char_of (48 + d)"

definition digit_val :: "char \<Rightarrow> nat option" where
  "digit_val c = (let n = (of_char c :: nat) in if 48 \<le> n \<and> n \<le> 57 then Some (n - 48) else None)"

fun to_string :: "nat \<Rightarrow> string" where
  "to_string n = (if n < 10 then [digit n] else to_string (n div 10) @ [digit (n mod 10)])"

declare to_string.simps [simp del]

fun digits_acc :: "nat \<Rightarrow> string \<Rightarrow> nat option" where
  "digits_acc acc [] = Some acc"
| "digits_acc acc (c # cs) =
     (case digit_val c of None \<Rightarrow> None | Some d \<Rightarrow> digits_acc (acc * 10 + d) cs)"

text \<open>\<^verbatim>\<open>str::parse\<close> for an unsigned type with the given maximum: an optional plus sign, at least one
  digit, no overflow.\<close>

definition parse_uint :: "nat \<Rightarrow> string \<Rightarrow> nat option" where
  "parse_uint mx s =
     (let ds = (case s of c # cs \<Rightarrow> if c = CHR ''+'' then cs else s | [] \<Rightarrow> [])
      in if ds = [] then None
         else (case digits_acc 0 ds of Some n \<Rightarrow> if n \<le> mx then Some n else None | None \<Rightarrow> None))"

lemma digit_val_digit: "d < 10 \<Longrightarrow> digit_val (digit d) = Some d"
  by (simp add: digit_val_def digit_def)

lemma digit_val_range: "digit_val c = Some d \<Longrightarrow> d < 10 \<and> of_char c = 48 + d"
  by (auto simp: digit_val_def Let_def split: if_splits)

lemma digits_acc_append:
  "digits_acc acc (xs @ ys) = (case digits_acc acc xs of None \<Rightarrow> None | Some n \<Rightarrow> digits_acc n ys)"
  by (induction xs arbitrary: acc) (auto split: option.splits)

lemma digits_acc_to_string: "digits_acc 0 (to_string n) = Some n"
proof (induction n rule: to_string.induct)
  case (1 n)
  show ?case
  proof (cases "n < 10")
    case True
    then show ?thesis by (simp add: to_string.simps [of n] digit_val_digit)
  next
    case False
    with 1 have "digits_acc 0 (to_string (n div 10)) = Some (n div 10)" by simp
    with False show ?thesis
      by (simp add: to_string.simps [of n] digits_acc_append digit_val_digit)
  qed
qed

lemma digits_acc_zeros: "digits_acc 0 (replicate k (digit 0) @ s) = digits_acc 0 s"
  by (induction k) (auto simp: digit_val_digit)

lemma to_string_digits: "c \<in> set (to_string n) \<Longrightarrow> \<exists>d<10. c = digit d"
proof (induction n rule: to_string.induct)
  case (1 n)
  show ?case
  proof (cases "n < 10")
    case True
    with 1 show ?thesis by (auto simp: to_string.simps [of n])
  next
    case False
    with 1(2) consider "c \<in> set (to_string (n div 10))" | "c = digit (n mod 10)"
      by (auto simp: to_string.simps [of n])
    then show ?thesis
    proof cases
      case 1
      with "1.IH" False show ?thesis by blast
    next
      case 2
      then show ?thesis by (intro exI [of _ "n mod 10"]) simp
    qed
  qed
qed

lemma to_string_nonempty [simp]: "to_string n \<noteq> []"
  by (simp add: to_string.simps [of n])

lemma digit_neq:
  assumes "d < 10"
  shows "digit d \<noteq> CHR ''.''" "digit d \<noteq> CHR ''/''" "digit d \<noteq> CHR ''+''"
    "digit d \<noteq> CHR '' ''" "digit d \<noteq> CHR 0x0A" "digit d \<noteq> CHR 0x0D" "digit d \<noteq> CHR ''-''"
proof -
  have d: "of_char (digit d) = 48 + d" using assms digit_val_digit digit_val_range by blast
  have "digit d \<noteq> c" if "of_char c < (48::nat)" for c
    using that d by auto
  then show "digit d \<noteq> CHR ''.''" "digit d \<noteq> CHR ''/''" "digit d \<noteq> CHR ''+''"
    "digit d \<noteq> CHR '' ''" "digit d \<noteq> CHR 0x0A" "digit d \<noteq> CHR 0x0D" "digit d \<noteq> CHR ''-''"
    by simp_all
qed

lemma length_to_string: "n < 10 ^ Suc k \<Longrightarrow> length (to_string n) \<le> Suc k"
proof (induction k arbitrary: n)
  case 0
  then show ?case by (simp add: to_string.simps [of n])
next
  case (Suc k)
  then have "n div 10 < 10 ^ Suc k" by (simp add: less_mult_imp_div_less mult.commute)
  then show ?case using Suc.IH by (simp add: to_string.simps [of n])
qed

end
