(* ===== verification/Hql_Dir.thy ===== *)
theory Hql_Dir
  imports Hql_Fs Hql_Text
begin

text \<open>
  The listing of a directory: the last components of the paths below it, in an arbitrary but fixed order.
\<close>

definition dir_names :: "fs \<Rightarrow> string \<Rightarrow> string list" where
  "dir_names s dir =
     concat (map (\<lambda>p. case rsplit_once (CHR ''/'') p of
                        Some (d, name) \<Rightarrow> if d = dir then [name] else []
                      | None \<Rightarrow> []) (map fst (names s)))"

text \<open>A name without a slash is listed exactly when its path is bound.\<close>

lemma dir_names_iff:
  assumes "CHR ''/'' \<notin> set n"
  shows "n \<in> set (dir_names s dir) \<longleftrightarrow> fs_lookup s (dir @ ''/'' @ n) \<noteq> None"
proof -
  have eq: "rsplit_once (CHR ''/'') p = Some (dir, n) \<longleftrightarrow> p = dir @ ''/'' @ n" for p
  proof
    assume "rsplit_once (CHR ''/'') p = Some (dir, n)"
    then have "split_once (CHR ''/'') (rev p) = Some (rev n, rev dir)"
      by (auto simp: rsplit_once_def)
    then have "rev p = rev n @ CHR ''/'' # rev dir"
      by (rule split_once_SomeD)
    from arg_cong [OF this, of rev] show "p = dir @ ''/'' @ n" by simp
  qed (use rsplit_once_append [OF assms] in simp)
  have "n \<in> set (dir_names s dir) \<longleftrightarrow> (\<exists>p\<in>fst ` set (names s). rsplit_once (CHR ''/'') p = Some (dir, n))"
    by (force simp: dir_names_def split: option.splits prod.splits if_splits)
  also have "\<dots> \<longleftrightarrow> dir @ ''/'' @ n \<in> fst ` set (names s)" unfolding eq by (metis (full_types))
  finally show ?thesis by (simp add: fs_lookup_def map_of_eq_None_iff)
qed

end
