(* ===== verification/Wal_File.thy ===== *)
theory Wal_File
  imports Hql_Dir
begin

text \<open>
  One file of the write-ahead log, \<^verbatim>\<open>hiqlite-wal/src/wal.rs\<close> (\<^verbatim>\<open>WalFile\<close>) with the encodings of
  \<^verbatim>\<open>hiqlite-wal/src/utils.rs\<close> and the errors of \<^verbatim>\<open>hiqlite-wal/src/error.rs\<close>: the header, appending a
  record, reading a range of records with or without the memoised position, the integrity check
  with recovery of orphaned records, creation, mapping and flushing. This theory has the
  definitions; \<^verbatim>\<open>Wal_File_Props\<close> has what they satisfy.

  The checksum comes from the \<^verbatim>\<open>crc\<close> crate and is the parameter \<open>crc\<close>. The scratch vector \<^verbatim>\<open>buf\<close>
  that the callers pass in is local to each operation. Error messages are kept without the values
  formatted into them.
\<close>

section \<open>Errors (error.rs)\<close>

datatype wal_error =
    Decode
  | Generic string
  | Encode
  | FileCorrupted string
  | Integrity string
  | Internal string
  | InvalidPath string
  | InvalidFileName
  | IO
  | Locked string
  | Parse string
  | WalSizeExceeded string

section \<open>Encodings (utils.rs)\<close>

definition u64_to_bin :: "nat \<Rightarrow> bytes \<Rightarrow> (wal_error, bytes) res" where
  "u64_to_bin n buf = Ok (buf @ be_bytes 8 n)"

definition bin_to_u64 :: "bytes \<Rightarrow> (wal_error, nat) res" where
  "bin_to_u64 buf = rbind (slice_r buf 0 8) (\<lambda>b. Ok (be_nat b))"

definition u32_to_bin :: "nat \<Rightarrow> bytes \<Rightarrow> (wal_error, bytes) res" where
  "u32_to_bin n buf = Ok (buf @ be_bytes 4 n)"

definition bin_to_u32 :: "bytes \<Rightarrow> (wal_error, nat) res" where
  "bin_to_u32 buf = rbind (slice_r buf 0 4) (\<lambda>b. Ok (be_nat b))"

section \<open>Types (wal.rs, reader.rs)\<close>

definition magic_no_wal :: bytes where
  "magic_no_wal = map (\<lambda>c. of_char c) ''HQL_WAL''"

definition min_wal_size :: nat where
  "min_wal_size = 8 * 1024"

record wal_record =
  log_id :: nat
  rec_crc :: bytes
  rec_data :: bytes

record wal_file =
  version :: nat
  wal_no :: nat
  path :: string
  id_from :: nat
  id_until :: nat
  data_start :: "nat option"
  data_end :: "nat option"
  len_max :: nat
  mmap :: "nat option"
  mmap_mut :: "nat option"
  file_fd :: "nat option"

record log_read_memo =
  last_wal_no :: nat
  memo_id_from :: nat
  last_log_id :: nat
  memo_data_end :: nat

type_synonym wst = "fs \<times> wal_file"

definition record_len :: "wal_record \<Rightarrow> (wal_error, nat) res" where
  "record_len r =
     rbind (rassert (length (rec_data r) < u32_max)) (\<lambda>_. add_u32 (8 + 4 + 4) (length (rec_data r)))"

section \<open>Header\<close>

definition offset_logs :: "wal_file \<Rightarrow> (wal_error, nat) res" where
  "offset_logs w =
     (if version w = 1 then Ok (7 + 1 + 8 + 8 + 4 + 4) else Panic ''unreachable'')"

definition unwrap_or :: "'a option \<Rightarrow> 'a \<Rightarrow> 'a" where
  "unwrap_or x d = (case x of Some a \<Rightarrow> a | None \<Rightarrow> d)"

definition build_header :: "wal_file \<Rightarrow> (wal_error, bytes) res" where
  "build_header w =
     (if version w = 1 then
        rbind (u64_to_bin (id_from w) (magic_no_wal @ [word_of_nat (version w)])) (\<lambda>buf.
        rbind (u64_to_bin (id_until w) buf) (\<lambda>buf.
        rbind (u32_to_bin (unwrap_or (data_start w) 0) buf) (\<lambda>buf.
        u32_to_bin (unwrap_or (data_end w) 0) buf)))
      else Panic ''unreachable'')"

text \<open>\<open>mmap_write a b d\<close> is \<^verbatim>\<open>(&mut mmap[a..b]).write_all(d)?\<close> on the writable map: the slice panics
  when out of range, and a slice shorter than \<open>d\<close> takes what fits and fails. \<open>mmap_write_from\<close> is
  the same for the open range \<^verbatim>\<open>mmap[a..]\<close>.\<close>

definition mmap_write :: "nat \<Rightarrow> nat \<Rightarrow> bytes \<Rightarrow> (wst, wal_error, unit) act" where
  "mmap_write a b d = (\<lambda>(s, w). case mmap_mut w of
     None \<Rightarrow> (Panic ''unwrap on None'', (s, w))
   | Some i \<Rightarrow>
       (let bs = ino_bytes s i in
        if \<not> (a \<le> b \<and> b \<le> length bs) then (Panic ''slice index out of range'', (s, w))
        else if length d \<le> b - a then (Ok (), (ino_write s i (overwrite bs a d), w))
        else (Err IO, (ino_write s i (overwrite bs a (take (b - a) d)), w))))"

definition mmap_write_from :: "nat \<Rightarrow> bytes \<Rightarrow> (wst, wal_error, unit) act" where
  "mmap_write_from a d = (\<lambda>(s, w). case mmap_mut w of
     None \<Rightarrow> (Panic ''unwrap on None'', (s, w))
   | Some i \<Rightarrow> mmap_write a (length (ino_bytes s i)) d (s, w))"

definition update_header :: "(wst, wal_error, unit) act" where
  "update_header =
     athen (aassert (\<lambda>(s, w). mmap_mut w \<noteq> None))
     (abind aget (\<lambda>(s, w).
      abind (alift (build_header w)) (\<lambda>buf. mmap_write 0 (length buf) buf)))"

section \<open>Space\<close>

definition end_or_header :: "wal_file \<Rightarrow> (wal_error, nat) res" where
  "end_or_header w = (case data_end w of Some e \<Rightarrow> Ok e | None \<Rightarrow> offset_logs w)"

definition has_space :: "wal_file \<Rightarrow> nat \<Rightarrow> (wal_error, bool) res" where
  "has_space w data_len =
     rbind (end_or_header w) (\<lambda>next. Ok (len_max w > next + 1 + 8 + 4 + 4 + data_len))"

definition space_left :: "wal_file \<Rightarrow> (wal_error, nat) res" where
  "space_left w = rbind (end_or_header w) (\<lambda>e. Ok (len_max w - e))"

section \<open>Appending\<close>

definition append_start :: "nat \<Rightarrow> (wst, wal_error, nat \<times> bool) act" where
  "append_start i =
     abind aget (\<lambda>(s, w). case data_start w of
       None \<Rightarrow>
         athen (amod (\<lambda>(s, w). (s, w\<lparr>id_from := i\<rparr>)))
         (abind (alift (offset_logs w)) (\<lambda>start.
          athen (amod (\<lambda>(s, w). (s, w\<lparr>data_start := Some start\<rparr>))) (aret (start, True))))
     | Some _ \<Rightarrow>
         abind (alift (unwrap (data_end w))) (\<lambda>e. aret (e + 1, False)))"

definition append_log :: "(bytes \<Rightarrow> bytes) \<Rightarrow> nat \<Rightarrow> bytes \<Rightarrow> (wst, wal_error, unit) act" where
  "append_log crc i data =
     athen (aassert (\<lambda>(s, w). mmap_mut w \<noteq> None))
     (athen (aassert (\<lambda>_. length data \<le> u32_max))
     (abind (\<lambda>(s, w). (has_space w (length data), (s, w))) (\<lambda>space.
      athen (aassert (\<lambda>_. space))
     (athen (aassert (\<lambda>(s, w). (data_start w \<noteq> None) = (data_end w \<noteq> None)))
     (abind (append_start i) (\<lambda>(start, upd_header).
      athen (mmap_write (start + 8) (start + 8 + 8) (crc data))
     (athen (mmap_write (start + 8 + 4) (start + 8 + 4 + 4) (be_bytes 4 (length data)))
     (athen (mmap_write_from (start + 8 + 4 + 4) data)
     (athen (mmap_write start (start + 8) (be_bytes 8 i))
     (athen (amod (\<lambda>(s, w). (s, w\<lparr>id_until := i,
                                   data_end := Some ((start + 8 + 4 + 4 + length data) mod 2 ^ 32)\<rparr>)))
     (athen (aassert (\<lambda>(s, w). data_start w \<noteq> None))
     (athen (aassert (\<lambda>(s, w). data_end w \<noteq> None))
     (athen (aassert (\<lambda>(s, w). unwrap_or (data_end w) 0 \<le> len_max w))
     (if upd_header then update_header else aret ()))))))))))))))"

section \<open>Reading\<close>

definition read_bytes :: "fs \<Rightarrow> wal_file \<Rightarrow> nat \<Rightarrow> nat \<Rightarrow> (wal_error, bytes) res" where
  "read_bytes s w from til =
     rbind (rassert (from < til)) (\<lambda>_.
       case mmap w of
         Some i \<Rightarrow> slice_r (ino_bytes s i) from til
       | None \<Rightarrow>
           (case mmap_mut w of
              Some i \<Rightarrow> slice_r (ino_bytes s i) from til
            | None \<Rightarrow> Err (Generic ''No mmap exists'')))"

definition read_record_unchecked :: "fs \<Rightarrow> wal_file \<Rightarrow> nat \<Rightarrow> (wal_error, wal_record) res" where
  "read_record_unchecked s w off =
     (if off + 8 + 4 + 4 > len_max w
      then Err (Integrity ''WAL record header does not fit into file'')
      else
        rbind (add_u32 off (8 + 4 + 4)) (\<lambda>data_from.
        rbind (read_bytes s w off data_from) (\<lambda>head.
        rbind (rbind (slice_r head 0 8) bin_to_u64) (\<lambda>lid.
        rbind (slice_r head 8 12) (\<lambda>c.
        rbind (rbind (slice_r head 12 16) bin_to_u32) (\<lambda>data_len.
        if data_len = 0
        then Err (Integrity ''Attempt to read non-existent data of length 0'')
        else if (off + 8 + 4 + 4) + data_len > len_max w
        then Err (Integrity ''WAL record data does not fit into file'')
        else
          rbind (add_u32 data_from data_len) (\<lambda>data_til.
          rbind (read_bytes s w data_from data_til) (\<lambda>data.
          Ok \<lparr>log_id = lid, rec_crc = c, rec_data = data\<rparr>))))))))"

lemma read_record_bound:
  "read_record_unchecked s w off = Ok r \<Longrightarrow> off + 16 < len_max w"
  by (auto simp: read_record_unchecked_def rbind_eq_Ok split: if_splits)

text \<open>The loop of \<^verbatim>\<open>read_logs\<close>: from position \<open>idx\<close> on, collect the records with ids in the range;
  \<open>offset\<close> is the position of the first of them and the memo is replaced when the last id of the
  range (or a later one) has been reached.\<close>

function read_loop :: "(bytes \<Rightarrow> bytes) \<Rightarrow> fs \<Rightarrow> wal_file \<Rightarrow> nat \<Rightarrow> nat \<Rightarrow> nat \<Rightarrow>
    log_read_memo option \<Rightarrow> nat \<Rightarrow> nat \<Rightarrow> (nat \<times> bytes) list \<Rightarrow>
    (wal_error, nat \<times> log_read_memo option \<times> (nat \<times> bytes) list) res" where
  "read_loop crc s w from til d_end memo idx off buf =
     (case read_record_unchecked s w idx of
        Err e \<Rightarrow> Err e
      | Panic p \<Rightarrow> Panic p
      | Ok r \<Rightarrow>
          rbind (record_len r) (\<lambda>len.
          let off' = (if log_id r = from then idx else off) in
          rbind (if log_id r \<ge> from then
                   (if log_id r \<le> til then
                      rbind (add_u32 idx len) (\<lambda>e.
                      rbind (rassert (e \<le> d_end)) (\<lambda>_.
                      if rec_crc r \<noteq> crc (rec_data r)
                      then Err (Integrity ''Invalid CRC for WAL Record'')
                      else Ok (False, buf @ [(log_id r, rec_data r)])))
                    else Ok (True, buf))
                 else Ok (False, buf)) (\<lambda>(stop, buf').
          if stop then Ok (off', memo, buf')
          else if log_id r \<ge> til then
            rbind (rassert (length (rec_data r) < u32_max)) (\<lambda>_.
            if version w = 1 then
              rbind (add_u32 idx (8 + 4 + 4 + length (rec_data r))) (\<lambda>e.
              Ok (off', Some \<lparr>last_wal_no = wal_no w, memo_id_from = id_from w,
                              last_log_id = log_id r, memo_data_end = e\<rparr>, buf'))
            else Panic ''unreachable'')
          else if idx + len + 1 \<le> u32_max then
            (if idx + len \<le> d_end
             then read_loop crc s w from til d_end memo (idx + len + 1) off' buf'
             else Panic ''assertion failed'')
          else Panic ''attempt to add with overflow'')))"
  by pat_completeness auto
termination
  by (relation "measure (\<lambda>(crc, s, w, from, til, d_end, memo, idx, off, buf). len_max w - idx)")
     (auto dest: read_record_bound)

declare read_loop.simps [simp del]

definition memo_usable :: "wal_file \<Rightarrow> nat \<Rightarrow> log_read_memo \<Rightarrow> bool" where
  "memo_usable w from m \<longleftrightarrow>
     last_wal_no m = wal_no w \<and> memo_id_from m = id_from w \<and> last_log_id m < from"

definition read_logs :: "(bytes \<Rightarrow> bytes) \<Rightarrow> fs \<Rightarrow> wal_file \<Rightarrow> nat \<Rightarrow> nat \<Rightarrow> log_read_memo option \<Rightarrow>
    (wal_error, nat \<times> log_read_memo option \<times> (nat \<times> bytes) list) res" where
  "read_logs crc s w from til memo =
     rbind (rassert (til \<ge> from)) (\<lambda>_.
     rbind (rassert (data_start w \<noteq> None)) (\<lambda>_.
     rbind (rassert (data_end w \<noteq> None)) (\<lambda>_.
     if id_from w > from then Err (Generic ''id_from is below threshold'')
     else if id_until w < til then Err (Generic ''id_until is above threshold'')
     else if til < from then Err (Generic ''id_until cannot be smaller than id_from'')
     else
       rbind (unwrap (data_start w)) (\<lambda>d_start.
       rbind (unwrap (data_end w)) (\<lambda>d_end.
       rbind (case memo of
                Some m \<Rightarrow> if memo_usable w from m then add_u32 (memo_data_end m) 1 else Ok d_start
              | None \<Rightarrow> Ok d_start) (\<lambda>idx.
       rbind (read_loop crc s w from til d_end memo idx 0 []) (\<lambda>(off, memo', buf).
       rbind (rassert (til + 1 - from = length buf)) (\<lambda>_. Ok (off, memo', buf)))))))))"

section \<open>Integrity check and repair\<close>

text \<open>Phase one walks the records the header promises. It ends at the end of the data, returning the
  next position and the last id, or finds a record with a bad checksum: the position of that
  record, its id and the id before it.\<close>

datatype walk = Walked nat "nat option" | BadCrc nat "nat option"

function check_walk :: "(bytes \<Rightarrow> bytes) \<Rightarrow> fs \<Rightarrow> wal_file \<Rightarrow> nat \<Rightarrow> nat \<Rightarrow> nat option \<Rightarrow>
    (wal_error, walk) res" where
  "check_walk crc s w d_end off id_before =
     (case read_record_unchecked s w off of
        Err e \<Rightarrow> Err e
      | Panic p \<Rightarrow> Panic p
      | Ok r \<Rightarrow>
          rbind (case id_before of
                   Some b \<Rightarrow>
                     rbind (add_u64 b 1) (\<lambda>nxt.
                     if log_id r \<noteq> nxt then Err (Integrity ''WAL record incorrect ordering'') else Ok ())
                 | None \<Rightarrow> Ok ()) (\<lambda>_.
          if rec_crc r \<noteq> crc (rec_data r) \<or> rec_data r = [] then Ok (BadCrc off id_before)
          else
            rbind (record_len r) (\<lambda>len.
            if off + len + 1 \<le> u32_max then
              (if off + len + 1 > d_end \<or> log_id r = id_until w
               then Ok (Walked (off + len + 1) (Some (log_id r)))
               else check_walk crc s w d_end (off + len + 1) (Some (log_id r)))
            else Panic ''attempt to add with overflow'')))"
  by pat_completeness auto
termination
  by (relation "measure (\<lambda>(crc, s, w, d_end, off, id_before). len_max w - off)")
     (auto dest: read_record_bound)

declare check_walk.simps [simp del]

text \<open>Phase two looks for valid records after the end the header knows. Every one it finds becomes
  part of the file and the header is rewritten.\<close>

definition adopt :: "nat \<Rightarrow> nat \<Rightarrow> nat \<Rightarrow> wal_file \<Rightarrow> wal_file" where
  "adopt off len lid w =
     w\<lparr>id_until := lid,
       data_start := (case data_start w of None \<Rightarrow> Some off | Some d \<Rightarrow> Some d),
       data_end := Some (off + len)\<rparr>"

lemma adopt_len_max [simp]: "len_max (adopt off len lid w) = len_max w"
  by (simp add: adopt_def)

lemma update_header_file: "snd (snd (update_header (s, w))) = w"
  by (auto simp: update_header_def act_simps mmap_write_def Let_def split: res.splits option.splits)

function check_orphans :: "(bytes \<Rightarrow> bytes) \<Rightarrow> nat \<Rightarrow> nat option \<Rightarrow> fs \<Rightarrow> wal_file \<Rightarrow>
    (wal_error, unit) res \<times> wst"
  and check_orphan_record :: "(bytes \<Rightarrow> bytes) \<Rightarrow> nat \<Rightarrow> wal_record \<Rightarrow> fs \<Rightarrow> wal_file \<Rightarrow>
    (wal_error, unit) res \<times> wst" where
  "check_orphans crc off id_before s w =
     (if off + 8 + 4 + 4 > len_max w then (Ok (), (s, w))
      else
        (case read_record_unchecked s w off of
           Err e \<Rightarrow> (Ok (), (s, w))
         | Panic p \<Rightarrow> (Panic p, (s, w))
         | Ok r \<Rightarrow>
             if log_id r > 0 then
               (case id_before of
                  Some b \<Rightarrow> if b + 1 > u64_max then (Panic ''attempt to add with overflow'', (s, w))
                           else if log_id r \<noteq> b + 1 then (Ok (), (s, w))
                           else check_orphan_record crc off r s w
                | None \<Rightarrow> check_orphan_record crc off r s w)
             else (Ok (), (s, w))))"
| "check_orphan_record crc off r s w =
     (if rec_crc r \<noteq> crc (rec_data r) then (Ok (), (s, w))
      else
        (case record_len r of
           Err e \<Rightarrow> (Err e, (s, w))
         | Panic p \<Rightarrow> (Panic p, (s, w))
         | Ok len \<Rightarrow>
             if off + len > u32_max then (Panic ''attempt to add with overflow'', (s, w))
             else
               (let w1 = adopt off len (log_id r) w in
                case update_header (s, w1) of
                  (Err e, st) \<Rightarrow> (Err e, st)
                | (Panic p, st) \<Rightarrow> (Panic p, st)
                | (Ok _, st) \<Rightarrow>
                    if off + (len + 1) > u32_max then (Panic ''attempt to add with overflow'', st)
                    else if off + (len + 1) \<ge> len_max w1 then (Ok (), st)
                    else check_orphans crc (off + (len + 1)) (Some (log_id r)) (fst st) w1)))"
  by pat_completeness auto
termination
  by (relation "measure (\<lambda>x. case x of
        Inl (crc, off, id_before, s, w) \<Rightarrow> 2 * (len_max w - off) + 1
      | Inr (crc, off, r, s, w) \<Rightarrow> 2 * (len_max w - off))")
     (auto dest: read_record_bound)


declare check_orphans.simps [simp del] check_orphan_record.simps [simp del]

text \<open>A record with a bad checksum ends the file before it when the \<^verbatim>\<open>auto-heal\<close> feature is on, and is an
  error otherwise. The id of the bad record is overwritten with zero.\<close>

definition heal :: "bool \<Rightarrow> nat \<Rightarrow> nat option \<Rightarrow> (wst, wal_error, unit) act" where
  "heal auto_heal off id_before =
     (if \<not> auto_heal then athrow (Integrity ''Invalid CRC for WAL Record'')
      else
        athen (case id_before of
                 Some b \<Rightarrow>
                   abind (alift (sub_u off 1)) (\<lambda>e.
                   amod (\<lambda>(s, w). (s, w\<lparr>id_until := b, data_end := Some e\<rparr>)))
               | None \<Rightarrow>
                   amod (\<lambda>(s, w). (s, w\<lparr>data_start := None, data_end := None, id_until := id_from w\<rparr>)))
        (mmap_write off (off + 8) (be_bytes 8 0)))"

definition check_repair_data_integrity :: "bool \<Rightarrow> (bytes \<Rightarrow> bytes) \<Rightarrow> (wst, wal_error, unit) act" where
  "check_repair_data_integrity auto_heal crc =
     athen (aassert (\<lambda>(s, w). mmap_mut w \<noteq> None))
     (athen (aassert (\<lambda>(s, w). id_from w \<le> id_until w))
     (athen (aassert (\<lambda>(s, w). (data_start w \<noteq> None) = (data_end w \<noteq> None)))
     (abind aget (\<lambda>(s, w).
      abind (alift (offset_logs w)) (\<lambda>hdr.
      case data_start w of
        Some start \<Rightarrow>
          abind (alift (unwrap (data_end w))) (\<lambda>d_end.
          abind (alift (check_walk crc s w d_end start None)) (\<lambda>walked.
          case walked of
            BadCrc off id_before \<Rightarrow> heal auto_heal off id_before
          | Walked off id_before \<Rightarrow> (\<lambda>(s, w). check_orphans crc off id_before s w)))
      | None \<Rightarrow> (\<lambda>(s, w). check_orphans crc (hdr + 1) None s w))))))"

section \<open>Copies without maps\<close>

definition clone_no_mmap :: "wal_file \<Rightarrow> wal_file" where
  "clone_no_mmap w = w\<lparr>mmap := None, mmap_mut := None, file_fd := None\<rparr>"

definition clone_from_no_mmap :: "wal_file \<Rightarrow> wal_file \<Rightarrow> (wal_error, wal_file) res" where
  "clone_from_no_mmap w other =
     rbind (rassert (path w = path other)) (\<lambda>_.
     Ok (w\<lparr>id_from := id_from other, id_until := id_until other,
           data_start := data_start other, data_end := data_end other\<rparr>))"

section \<open>Flushing and mapping\<close>

definition flush :: "(wst, wal_error, unit) act" where
  "flush = (\<lambda>(s, w). case mmap_mut w of
     None \<Rightarrow> (Panic ''assertion failed'', (s, w))
   | Some i \<Rightarrow> if faulty s (OpSync i) then (Err IO, (s, w)) else (Ok (), (ino_sync s i, w)))"

definition flush_async :: "(wst, wal_error, unit) act" where
  "flush_async =
     athen (aassert (\<lambda>(s, w). mmap_mut w \<noteq> None))
     (\<lambda>(s, w). case file_fd w of
        None \<Rightarrow> (Panic ''file kept while mmap_mut'', (s, w))
      | Some i \<Rightarrow> if faulty s (OpWriteback i) then (Err IO, (s, w)) else (Ok (), (s, w)))"

definition fs_open :: "fs \<Rightarrow> string \<Rightarrow> (wal_error, nat) res" where
  "fs_open s p =
     (if faulty s (OpOpen p) then Err IO
      else (case fs_lookup s p of None \<Rightarrow> Err IO | Some i \<Rightarrow> Ok i))"

definition map_file :: "(wst, wal_error, unit) act" where
  "map_file = (\<lambda>(s, w).
     if mmap w \<noteq> None then (Ok (), (s, w))
     else (case fs_open s (path w) of
             Ok i \<Rightarrow> (Ok (), (s, w\<lparr>mmap := Some i\<rparr>))
           | Err e \<Rightarrow> (Err e, (s, w))
           | Panic p \<Rightarrow> (Panic p, (s, w))))"

definition mmap_drop :: "wal_file \<Rightarrow> wal_file" where
  "mmap_drop w = w\<lparr>mmap := None\<rparr>"

definition map_file_mut :: "(wst, wal_error, unit) act" where
  "map_file_mut = (\<lambda>(s, w).
     if mmap_mut w \<noteq> None then (Ok (), (s, w))
     else (case fs_open s (path w) of
             Ok i \<Rightarrow> (Ok (), (s, w\<lparr>mmap_mut := Some i, file_fd := Some i\<rparr>))
           | Err e \<Rightarrow> (Err e, (s, w))
           | Panic p \<Rightarrow> (Panic p, (s, w))))"

text \<open>Dropping a \<^verbatim>\<open>WalFile\<close>: a writable map gets its header and is flushed; both results are
  unwrapped.\<close>

definition expect :: "('s, 'e, 'a) act \<Rightarrow> ('s, 'e, 'a) act" where
  "expect m = (\<lambda>s. case m s of (Err e, s') \<Rightarrow> (Panic ''unwrap on Err'', s') | r \<Rightarrow> r)"

definition drop_file :: "(wst, wal_error, unit) act" where
  "drop_file = abind aget (\<lambda>(s, w).
     if mmap_mut w \<noteq> None then athen (expect update_header) (expect flush) else aret ())"

section \<open>Creation and reading from disk\<close>

definition build_full_path :: "string \<Rightarrow> nat \<Rightarrow> (wal_error, string) res" where
  "build_full_path base_path no =
     rbind (rassert (base_path \<noteq> [])) (\<lambda>_.
     let no_str = to_string no; zeros = replicate 15 (CHR ''0'') in
     rbind (rassert (length zeros = 15)) (\<lambda>_.
     rbind (sub_u 16 (length no_str)) (\<lambda>n.
     rbind (slice_r zeros 0 n) (\<lambda>pad.
     let p = base_path @ ''/'' @ pad @ no_str @ ''.wal'' in
     rbind (unwrap (rsplit_once (CHR ''/'') p)) (\<lambda>(base, name).
     rbind (rassert (base = base_path)) (\<lambda>_.
     rbind (rassert (ends_with name ''.wal'')) (\<lambda>_.
     rbind (rassert (length name - 4 = 16)) (\<lambda>_. Ok p))))))))"

definition new_file :: "nat \<Rightarrow> string \<Rightarrow> nat \<Rightarrow> nat \<Rightarrow> nat \<Rightarrow> (wal_error, wal_file) res" where
  "new_file no base_path from til wal_size =
     rbind (rassert (base_path \<noteq> [])) (\<lambda>_.
     rbind (rassert (from \<le> til)) (\<lambda>_.
     rbind (rassert (wal_size \<ge> min_wal_size)) (\<lambda>_.
     if wal_size < min_wal_size then Err (Generic ''min allowed wal_size'')
     else
       rbind (build_full_path base_path no) (\<lambda>p.
       Ok \<lparr>version = 1, wal_no = no, path = p, id_from = from, id_until = til,
           data_start = None, data_end = None, len_max = wal_size,
           mmap = None, mmap_mut = None, file_fd = None\<rparr>))))"

definition create_file :: "(wst, wal_error, unit) act" where
  "create_file = (\<lambda>(s, w).
     if faulty s (OpCreate (path w)) \<or> fs_lookup s (path w) \<noteq> None then (Err IO, (s, w))
     else
       (let i = next_ino s; s1 = fs_create s (path w) (replicate (len_max w) 0) in
        case build_header w of
          Err e \<Rightarrow> (Err e, (s1, w))
        | Panic p \<Rightarrow> (Panic p, (s1, w))
        | Ok buf \<Rightarrow>
            if length buf > len_max w then (Panic ''slice index out of range'', (s1, w))
            else
              (let s2 = ino_write s1 i (overwrite (ino_bytes s1 i) 0 buf) in
               if faulty s (OpWriteback i) then (Err IO, (s2, w)) else (Ok (), (s2, w)))))"

definition read_from_file :: "fs \<Rightarrow> string \<Rightarrow> (wal_error, wal_file) res" where
  "read_from_file s path_full =
     (case rsplit_once (CHR ''/'') path_full of
        None \<Rightarrow> Err (InvalidPath ''Invalid file path'')
      | Some (_, fname) \<Rightarrow>
     (case split_once (CHR ''.'') fname of
        None \<Rightarrow> Err (InvalidPath ''Invalid file path'')
      | Some (num, ending) \<Rightarrow>
        if ending \<noteq> ''wal'' then Err InvalidFileName
        else
     (case parse_uint u64_max num of
        None \<Rightarrow> Err (Parse ''Cannot parse value as integer'')
      | Some no \<Rightarrow>
          rbind (fs_open s path_full) (\<lambda>i.
          let content = ino_bytes s i; len = length content in
          rbind (rassert (len < u32_max)) (\<lambda>_.
          if len < 32 then Err IO
          else
            let buf = take 32 content in
            if take 7 buf \<noteq> magic_no_wal then Err (FileCorrupted ''Invalid WAL file magic number'')
            else if slice buf 7 8 \<noteq> [1] then Err (FileCorrupted ''Invalid WAL file version'')
            else
              rbind (bin_to_u64 (slice buf 8 16)) (\<lambda>from.
              rbind (bin_to_u64 (slice buf 16 24)) (\<lambda>til.
              rbind (bin_to_u32 (slice buf 24 28)) (\<lambda>d_start.
              rbind (bin_to_u32 (slice buf 28 32)) (\<lambda>d_end.
              Ok \<lparr>version = 1, wal_no = no, path = path_full, id_from = from, id_until = til,
                  data_start = (if d_start = 0 then None else Some d_start),
                  data_end = (if d_end = 0 then None else Some d_end),
                  len_max = len mod 2 ^ 32,
                  mmap = None, mmap_mut = None, file_fd = None\<rparr>)))))))))"

end
