(* ===== verification/Wal_File_Props.thy ===== *)
theory Wal_File_Props
  imports Wal_File
begin

text \<open>
  What a file of the write-ahead log promises. The abstraction of a file is the list of its
  \<open>(log id, data)\<close> pairs: \<open>file_logs crc w bs logs\<close> says that the header fields of \<open>w\<close> and the bytes
  \<open>bs\<close> hold exactly \<open>logs\<close>. Appending extends that list, reading returns the requested part of it,
  with or without a valid memo, and the integrity check finds records the header does not know.
\<close>

section \<open>The layout of records\<close>

type_synonym logs = "(nat \<times> bytes) list"

definition crc_ok :: "(bytes \<Rightarrow> bytes) \<Rightarrow> bool" where
  "crc_ok crc \<longleftrightarrow> (\<forall>d. length (crc d) = 4)"

definition enc_rec :: "(bytes \<Rightarrow> bytes) \<Rightarrow> nat \<Rightarrow> bytes \<Rightarrow> bytes" where
  "enc_rec crc i d = be_bytes 8 i @ crc d @ be_bytes 4 (length d) @ d"

primrec end_off :: "nat \<Rightarrow> logs \<Rightarrow> nat" where
  "end_off st [] = st"
| "end_off st (x # xs) = end_off (st + length (snd x) + 17) xs"

primrec recs_at :: "(bytes \<Rightarrow> bytes) \<Rightarrow> bytes \<Rightarrow> nat \<Rightarrow> logs \<Rightarrow> bool" where
  "recs_at crc bs st [] = True"
| "recs_at crc bs st (x # xs) =
     (slice bs st (st + length (snd x) + 16) = enc_rec crc (fst x) (snd x) \<and>
      snd x \<noteq> [] \<and> fst x \<le> u64_max \<and> recs_at crc bs (st + length (snd x) + 17) xs)"

definition file_logs :: "(bytes \<Rightarrow> bytes) \<Rightarrow> wal_file \<Rightarrow> bytes \<Rightarrow> logs \<Rightarrow> bool" where
  "file_logs crc w bs logs \<longleftrightarrow>
     version w = 1 \<and> length bs = len_max w \<and> 32 < len_max w \<and> len_max w < u32_max \<and>
     (if logs = [] then data_start w = None \<and> data_end w = None
      else (\<exists>st. data_start w = Some st \<and> 32 \<le> st \<and>
              data_end w = Some (end_off st logs - 1) \<and> end_off st logs \<le> len_max w \<and>
              recs_at crc bs st logs \<and> map fst logs = [id_from w..<Suc (id_until w)]))"

definition view :: "fs \<Rightarrow> wal_file \<Rightarrow> bytes option" where
  "view s w = (case mmap w of Some i \<Rightarrow> Some (ino_bytes s i) | None \<Rightarrow> map_option (ino_bytes s) (mmap_mut w))"

text \<open>A checksum for the examples: the sum of the bytes.\<close>

definition crc_sum :: "bytes \<Rightarrow> bytes" where
  "crc_sum d = be_bytes 4 (sum_list (map unat d))"

lemma crc_ok_sum [simp]: "crc_ok crc_sum"
  by (simp add: crc_ok_def crc_sum_def)

lemma unwrap_or_Some [simp]: "unwrap_or (Some a) d = a"
  by (simp add: unwrap_or_def)

lemma unwrap_or_None [simp]: "unwrap_or None d = d"
  by (simp add: unwrap_or_def)

lemma length_enc_rec: "crc_ok crc \<Longrightarrow> length (enc_rec crc i d) = length d + 16"
  by (simp add: enc_rec_def crc_ok_def)

lemma end_off_mono: "st \<le> end_off st xs"
proof (induction xs arbitrary: st)
  case Nil
  then show ?case by simp
next
  case (Cons x xs)
  have "st + length (snd x) + 17 \<le> end_off st (x # xs)" using Cons by simp
  then show ?case by simp
qed

lemma end_off_append: "end_off st (xs @ ys) = end_off (end_off st xs) ys"
  by (induction xs arbitrary: st) auto

lemma end_off_ge: "st + 17 * length xs \<le> end_off st xs"
proof (induction xs arbitrary: st)
  case Nil
  then show ?case by simp
next
  case (Cons x xs)
  have "st + length (snd x) + 17 + 17 * length xs \<le> end_off st (x # xs)"
    using Cons by simp
  then show ?case by simp
qed

lemma end_off_pos: "xs \<noteq> [] \<Longrightarrow> st < end_off st xs"
  using end_off_ge [of st xs] by (cases xs) auto

lemma recs_at_append:
  "recs_at crc bs st (xs @ ys) \<longleftrightarrow> recs_at crc bs st xs \<and> recs_at crc bs (end_off st xs) ys"
  by (induction xs arbitrary: st) auto

lemma recs_at_cong:
  assumes "recs_at crc bs st xs" and "\<And>a b. st \<le> a \<Longrightarrow> b < end_off st xs \<Longrightarrow> slice bs' a b = slice bs a b"
  shows "recs_at crc bs' st xs"
  using assms
proof (induction xs arbitrary: st)
  case Nil
  then show ?case by simp
next
  case (Cons x xs)
  have "st + length (snd x) + 16 < end_off st (x # xs)"
    using end_off_mono [of "st + length (snd x) + 17" xs] by simp
  then have "slice bs' st (st + length (snd x) + 16) = slice bs st (st + length (snd x) + 16)"
    by (intro Cons.prems(2)) simp_all
  moreover have "recs_at crc bs' (st + length (snd x) + 17) xs"
    using Cons.prems by (intro Cons.IH) simp_all
  ultimately show ?case using Cons.prems(1) by simp
qed

section \<open>Numbers in the file\<close>

lemma bin_to_u64_be: "i \<le> u64_max \<Longrightarrow> bin_to_u64 (be_bytes 8 i) = Ok i"
  using be_nat_be_bytes [of i 8]
  by (simp add: bin_to_u64_def slice_r_def slice_def u64_max_def del: be_bytes.simps)

lemma bin_to_u32_be: "i \<le> u32_max \<Longrightarrow> bin_to_u32 (be_bytes 4 i) = Ok i"
  using be_nat_be_bytes [of i 4]
  by (simp add: bin_to_u32_def slice_r_def slice_def u32_max_def del: be_bytes.simps)

section \<open>Reading one record\<close>

lemma read_bytes_view:
  assumes "view s w = Some bs" and "a < b" and "b \<le> length bs"
  shows "read_bytes s w a b = Ok (slice bs a b)"
  using assms by (auto simp: read_bytes_def view_def slice_r_def split: option.splits)

lemma slice_enc_rec:
  assumes "crc_ok crc"
  shows "slice (enc_rec crc i d) 0 8 = be_bytes 8 i"
    and "slice (enc_rec crc i d) 8 12 = crc d"
    and "slice (enc_rec crc i d) 12 16 = be_bytes 4 (length d)"
    and "slice (enc_rec crc i d) 16 (length d + 16) = d"
proof -
  have "length (crc d) = 4" using assms by (simp add: crc_ok_def)
  then show "slice (enc_rec crc i d) 0 8 = be_bytes 8 i"
    and "slice (enc_rec crc i d) 8 12 = crc d"
    and "slice (enc_rec crc i d) 12 16 = be_bytes 4 (length d)"
    and "slice (enc_rec crc i d) 16 (length d + 16) = d"
    by (simp_all add: slice_def enc_rec_def del: be_bytes.simps)
qed

lemma read_record_at:
  assumes crc: "crc_ok crc" and v: "view s w = Some bs"
    and len: "length bs = len_max w" "len_max w < u32_max"
    and rec: "slice bs off (off + length d + 16) = enc_rec crc i d"
    and fit: "off + length d + 16 \<le> len_max w" and d: "d \<noteq> []" and i: "i \<le> u64_max"
  shows "read_record_unchecked s w off = Ok \<lparr>log_id = i, rec_crc = crc d, rec_data = d\<rparr>"
proof -
  have head: "read_bytes s w off (off + 16) = Ok (slice bs off (off + 16))"
    using v fit len by (intro read_bytes_view) auto
  have head_enc: "slice bs off (off + 16) = slice (enc_rec crc i d) 0 16"
    unfolding rec [symmetric] by (subst slice_slice) auto
  have data: "read_bytes s w (off + 16) (off + 16 + length d) = Ok d"
  proof -
    have "slice bs (off + 16) (off + 16 + length d) = slice (enc_rec crc i d) 16 (length d + 16)"
      unfolding rec [symmetric] by (subst slice_slice) (auto simp: add_ac)
    then show ?thesis
      using read_bytes_view [OF v, of "off + 16" "off + 16 + length d"] fit len d
      by (simp add: slice_enc_rec(4) [OF crc] add_ac)
  qed
  have part: "slice_r (slice (enc_rec crc i d) 0 16) a b = Ok (slice (enc_rec crc i d) a b)"
    if "a \<le> b" "b \<le> 16" for a b
    using that length_enc_rec [OF crc, of i d]
    by (simp add: slice_r_def slice_slice length_slice)
  have "length d \<le> u32_max" using fit len by simp
  then show ?thesis
    using fit len d i head data
    by (simp add: read_record_unchecked_def head_enc part slice_enc_rec [OF crc] bin_to_u64_be
        bin_to_u32_be add_u32_eq del: be_bytes.simps)
qed

section \<open>Reading a range\<close>

lemma record_len_eq:
  "length d + 16 \<le> u32_max \<Longrightarrow> record_len \<lparr>log_id = i, rec_crc = c, rec_data = d\<rparr> = Ok (length d + 16)"
  by (simp add: record_len_def)

lemma read_loop_spec:
  assumes crc: "crc_ok crc" and v: "view s w = Some bs" and ver: "version w = 1"
    and len: "length bs = len_max w" "len_max w < u32_max"
    and rs: "recs_at crc bs idx rs" and fit: "end_off idx rs \<le> len_max w" "end_off idx rs \<le> Suc d_end"
    and ids: "map fst rs = [k..<k + length rs]" and til: "k \<le> til" "til < k + length rs"
    and ft: "from \<le> til"
  shows "read_loop crc s w from til d_end memo idx off buf =
     Ok (if k \<le> from then end_off idx (take (from - k) rs) else off,
         Some \<lparr>last_wal_no = wal_no w, memo_id_from = id_from w, last_log_id = til,
               memo_data_end = end_off idx (take (Suc til - k) rs) - 1\<rparr>,
         buf @ drop (from - k) (take (Suc til - k) rs))"
  using rs fit ids til
proof (induction rs arbitrary: k idx off buf)
  case Nil
  then show ?case by simp
next
  case (Cons x rs)
  obtain d where x: "x = (k, d)"
    using Cons.prems(4) by (cases x) (simp add: upt_conv_Cons del: upt_Suc)
  have ids': "map fst rs = [Suc k..<Suc k + length rs]"
    using Cons.prems(4) by (simp add: x upt_conv_Cons del: upt_Suc)
  have prems: "slice bs idx (idx + length d + 16) = enc_rec crc k d" "d \<noteq> []" "k \<le> u64_max"
      "recs_at crc bs (idx + length d + 17) rs"
    using Cons.prems(1) by (simp_all add: x)
  have "idx + length d + 17 \<le> end_off idx (x # rs)"
    using end_off_mono [of "idx + length d + 17" rs] by (simp add: x)
  then have fits: "idx + length d + 17 \<le> len_max w" "idx + length d + 16 \<le> d_end"
    using Cons.prems(2,3) by simp_all
  have rec: "read_record_unchecked s w idx = Ok \<lparr>log_id = k, rec_crc = crc d, rec_data = d\<rparr>"
    using read_record_at [OF crc v len prems(1) _ prems(2,3)] fits by simp
  have rlen: "record_len \<lparr>log_id = i, rec_crc = c, rec_data = d\<rparr> = Ok (length d + 16)" for i c
    using fits len by (simp add: record_len_eq)
  have step: "read_loop crc s w from til d_end memo n off' buf' =
     Ok (if Suc k \<le> from then end_off (idx + length d + 17) (take (from - Suc k) rs) else off',
         Some \<lparr>last_wal_no = wal_no w, memo_id_from = id_from w, last_log_id = til,
               memo_data_end = end_off (idx + length d + 17) (take (til - k) rs) - 1\<rparr>,
         buf' @ drop (from - Suc k) (take (til - k) rs))"
    if "k \<noteq> til" "n = idx + length d + 17" for off' buf' n
    unfolding that(2) diff_Suc_Suc [of til k, symmetric]
    by (rule Cons.IH) (use prems Cons.prems ids' that in \<open>simp_all add: x\<close>)
  show ?case
  proof (cases "k < from")
    case True
    then have neq: "k \<noteq> til" and diff: "from - k = Suc (from - Suc k)" using ft by simp_all
    show ?thesis
      using True neq ft fits len Cons.prems(5)
      by (subst read_loop.simps) (simp add: rec rlen step Suc_diff_le x diff)
  next
    case False
    show ?thesis
    proof (cases "k = til")
      case True
      then show ?thesis
        using False ft fits len
        by (subst read_loop.simps) (simp add: rec rlen x ver add_u32_eq)
    next
      case neq: False
      then show ?thesis
        using False ft fits len Cons.prems(5)
        by (subst read_loop.simps)
           (simp add: rec rlen x step add_u32_eq Suc_diff_le)
    qed
  qed
qed


definition logs_between :: "nat \<Rightarrow> nat \<Rightarrow> logs \<Rightarrow> logs" where
  "logs_between from til ls = filter (\<lambda>(i, d). from \<le> i \<and> i \<le> til) ls"

definition memo_ok :: "wal_file \<Rightarrow> logs \<Rightarrow> log_read_memo \<Rightarrow> bool" where
  "memo_ok w ls m \<longleftrightarrow>
     (last_wal_no m = wal_no w \<and> memo_id_from m = id_from w \<longrightarrow>
      (\<exists>st k. data_start w = Some st \<and> 0 < k \<and> k \<le> length ls \<and>
         Suc (last_log_id m) = id_from w + k \<and> Suc (memo_data_end m) = end_off st (take k ls)))"

lemma logs_between_upt:
  "map fst ls = [a..<a + length ls] \<Longrightarrow>
   logs_between from til ls = drop (from - a) (take (Suc til - a) ls)"
proof (induction ls arbitrary: a)
  case Nil
  then show ?case by (simp add: logs_between_def)
next
  case (Cons x ls)
  obtain d where x: "x = (a, d)"
    using Cons.prems by (cases x) (simp add: upt_conv_Cons del: upt_Suc)
  have "logs_between from til ls = drop (from - Suc a) (take (Suc til - Suc a) ls)"
    using Cons.prems by (intro Cons.IH) (simp add: upt_conv_Cons del: upt_Suc)
  then have IH: "filter (\<lambda>(i, d). from \<le> i \<and> i \<le> til) ls = drop (from - Suc a) (take (til - a) ls)"
    by (simp add: logs_between_def)
  show ?case
  proof (cases "from \<le> a")
    case True
    then show ?thesis using IH by (cases "a \<le> til") (auto simp: logs_between_def x Suc_diff_le)
  next
    case False
    then have "from - a = Suc (from - Suc a)" by simp
    with False show ?thesis
      using IH by (cases "a \<le> til") (auto simp: logs_between_def x Suc_diff_le not_le)
  qed
qed

lemma file_logs_ids:
  assumes "file_logs crc w bs ls" and "ls \<noteq> []"
  shows "length ls = Suc (id_until w) - id_from w" and "id_from w \<le> id_until w"
    and "map fst ls = [id_from w..<id_from w + length ls]"
proof -
  have ids: "map fst ls = [id_from w..<Suc (id_until w)]"
    using assms by (auto simp: file_logs_def simp del: upt_Suc)
  then show len: "length ls = Suc (id_until w) - id_from w"
    by (metis length_map length_upt)
  then show le: "id_from w \<le> id_until w"
    using assms(2) by (cases "id_from w \<le> id_until w") auto
  show "map fst ls = [id_from w..<id_from w + length ls]"
    using ids len le by simp
qed

lemma read_logs_from:
  assumes crc: "crc_ok crc" and v: "view s w = Some bs" and fl: "file_logs crc w bs ls"
    and st: "data_start w = Some st" and rng: "id_from w \<le> from" "from \<le> til" "til \<le> id_until w"
    and ne: "ls \<noteq> []" and k: "id_from w + k \<le> from" 
  shows "read_loop crc s w from til (end_off st ls - 1) memo (end_off st (take k ls)) 0 [] =
     Ok (end_off st (take (from - id_from w) ls),
         Some \<lparr>last_wal_no = wal_no w, memo_id_from = id_from w, last_log_id = til,
               memo_data_end = end_off st (take (Suc til - id_from w) ls) - 1\<rparr>,
         logs_between from til ls)"
proof -
  note ids = file_logs_ids [OF fl ne]
  have f: "version w = 1" "length bs = len_max w" "len_max w < u32_max" "end_off st ls \<le> len_max w"
      "recs_at crc bs st ls"
    using fl st ne by (auto simp: file_logs_def)
  have split: "end_off st ls = end_off (end_off st (take k ls)) (drop k ls)"
    by (metis append_take_drop_id end_off_append)
  have recs: "recs_at crc bs (end_off st (take k ls)) (drop k ls)"
    using f(5) by (metis append_take_drop_id recs_at_append)
  have kl: "k \<le> length ls" using ids k rng by simp
  have ids': "map fst (drop k ls) = [id_from w + k..<id_from w + k + length (drop k ls)]"
    using ids(3) kl by (simp add: drop_map [symmetric])
  have tk: "end_off (end_off st (take k ls)) (take n (drop k ls)) = end_off st (take (k + n) ls)" for n
    by (simp add: take_add end_off_append)
  have loop: "read_loop crc s w from til (end_off st ls - 1) memo (end_off st (take k ls)) 0 [] =
     Ok (if id_from w + k \<le> from then end_off (end_off st (take k ls)) (take (from - (id_from w + k)) (drop k ls)) else 0,
         Some \<lparr>last_wal_no = wal_no w, memo_id_from = id_from w, last_log_id = til,
               memo_data_end = end_off (end_off st (take k ls)) (take (Suc til - (id_from w + k)) (drop k ls)) - 1\<rparr>,
         [] @ drop (from - (id_from w + k)) (take (Suc til - (id_from w + k)) (drop k ls)))"
    using k rng ids kl f split
    by (intro read_loop_spec [OF crc v f(1-3) recs _ _ ids']) simp_all
  have buf: "drop (from - (id_from w + k)) (take (Suc til - (id_from w + k)) (drop k ls))
      = logs_between from til ls"
  proof -
    have "take (Suc til - (id_from w + k)) (drop k ls) = drop k (take (Suc til - id_from w) ls)"
      by (simp add: drop_take)
    then show ?thesis
      using k by (simp add: logs_between_upt [OF ids(3)])
  qed
  show ?thesis
    using loop k rng buf by (simp add: tk)
qed

lemma read_logs_spec:
  assumes crc: "crc_ok crc" and v: "view s w = Some bs" and fl: "file_logs crc w bs ls"
    and ne: "ls \<noteq> []" and rng: "id_from w \<le> from" "from \<le> til" "til \<le> id_until w"
    and memo: "\<And>m. memo = Some m \<Longrightarrow> memo_ok w ls m"
  shows "\<exists>st m'. data_start w = Some st \<and>
     read_logs crc s w from til memo =
       Ok (end_off st (take (from - id_from w) ls), Some m', logs_between from til ls) \<and>
     memo_ok w ls m' \<and> last_log_id m' = til \<and> last_wal_no m' = wal_no w"
proof -
  note ids = file_logs_ids [OF fl ne]
  obtain st where st: "data_start w = Some st" "data_end w = Some (end_off st ls - 1)"
      "end_off st ls \<le> len_max w" "len_max w < u32_max"
    using fl ne by (auto simp: file_logs_def)
  obtain k where k: "id_from w + k \<le> from" and idx:
      "(case memo of
          Some m \<Rightarrow> if memo_usable w from m then add_u32 (memo_data_end m) 1 else Ok st
        | None \<Rightarrow> Ok st) = (Ok (end_off st (take k ls)) :: (wal_error, nat) res)"
  proof (cases "\<exists>m. memo = Some m \<and> memo_usable w from m")
    case False
    then show ?thesis using that [of 0] rng by (auto split: option.split)
  next
    case True
    then obtain m where m: "memo = Some m" "memo_usable w from m" by blast
    from memo [OF m(1)] m(2) st obtain k where k: "0 < k" "k \<le> length ls"
        "Suc (last_log_id m) = id_from w + k" "Suc (memo_data_end m) = end_off st (take k ls)"
      by (auto simp: memo_ok_def memo_usable_def)
    have "end_off st (take k ls) \<le> end_off st ls"
      by (metis append_take_drop_id end_off_append end_off_mono)
    then show ?thesis
      using that [of k] k m st by (simp add: memo_usable_def add_u32_eq)
  qed
  have "length (logs_between from til ls) = til + 1 - from"
    using rng ids by (simp add: logs_between_upt [OF ids(3)])
  then have "read_logs crc s w from til memo =
       Ok (end_off st (take (from - id_from w) ls),
         Some \<lparr>last_wal_no = wal_no w, memo_id_from = id_from w, last_log_id = til,
               memo_data_end = end_off st (take (Suc til - id_from w) ls) - 1\<rparr>,
         logs_between from til ls)"
    using rng st idx read_logs_from [OF crc v fl st(1) rng ne k] by (simp add: read_logs_def)
  moreover have "memo_ok w ls \<lparr>last_wal_no = wal_no w, memo_id_from = id_from w, last_log_id = til,
               memo_data_end = end_off st (take (Suc til - id_from w) ls) - 1\<rparr>"
    using rng ids st ne end_off_pos [of "take (Suc til - id_from w) ls" st]
    by (auto simp: memo_ok_def intro!: exI [of _ "Suc til - id_from w"])
  ultimately show ?thesis using st(1) by auto
qed

section \<open>The header\<close>

definition header :: "wal_file \<Rightarrow> bytes" where
  "header w = magic_no_wal @ [word_of_nat (version w)] @ be_bytes 8 (id_from w) @
     be_bytes 8 (id_until w) @ be_bytes 4 (unwrap_or (data_start w) 0) @
     be_bytes 4 (unwrap_or (data_end w) 0)"

lemma length_magic: "length magic_no_wal = 7"
  by (simp add: magic_no_wal_def)

lemma length_header: "length (header w) = 32"
  by (simp add: header_def length_magic)

lemma build_header_eq: "version w = 1 \<Longrightarrow> build_header w = Ok (header w)"
  by (simp add: build_header_def header_def u64_to_bin_def u32_to_bin_def del: be_bytes.simps)

lemma mmap_write_eq:
  assumes "mmap_mut w = Some i" and "a \<le> b" and "b \<le> length (ino_bytes s i)" and "length d \<le> b - a"
  shows "mmap_write a b d (s, w) = (Ok (), (ino_write s i (overwrite (ino_bytes s i) a d), w))"
  using assms by (simp add: mmap_write_def)

lemma update_header_eq:
  assumes "mmap_mut w = Some i" and "version w = 1" and "32 \<le> length (ino_bytes s i)"
  shows "update_header (s, w) = (Ok (), (ino_write s i (overwrite (ino_bytes s i) 0 (header w)), w))"
  using assms
  by (simp add: update_header_def act_simps build_header_eq mmap_write_eq length_header)

section \<open>Appending a record\<close>

definition append_pos :: "wal_file \<Rightarrow> nat" where
  "append_pos w = (case data_end w of None \<Rightarrow> 32 | Some e \<Rightarrow> e + 1)"

definition appended :: "nat \<Rightarrow> bytes \<Rightarrow> wal_file \<Rightarrow> wal_file" where
  "appended i d w =
     w\<lparr>id_from := (if data_start w = None then i else id_from w),
       data_start := Some (unwrap_or (data_start w) 32), id_until := i,
       data_end := Some (append_pos w + length d + 16)\<rparr>"

lemma append_record_bytes:
  assumes "crc_ok crc" and "st + length d + 16 \<le> length bs"
  shows "overwrite (overwrite (overwrite (overwrite bs (st + 8) (crc d)) (st + 12) (be_bytes 4 (length d)))
           (st + 16) d) st (be_bytes 8 i) = overwrite bs st (enc_rec crc i d)"
proof -
  have c: "length (crc d) = 4" using assms(1) by (simp add: crc_ok_def)
  have p12: "st + 12 = (st + 8) + length (crc d)" using c by simp
  have p16: "st + 16 = (st + 8) + length (crc d @ be_bytes 4 (length d))" using c by simp
  have p8: "st + 8 = st + length (be_bytes 8 i)" by simp
  have "overwrite (overwrite bs (st + 8) (crc d)) (st + 12) (be_bytes 4 (length d))
      = overwrite bs (st + 8) (crc d @ be_bytes 4 (length d))"
    unfolding p12 by (rule overwrite_append_right) (use c assms(2) in simp)
  moreover have "overwrite (overwrite bs (st + 8) (crc d @ be_bytes 4 (length d))) (st + 16) d
      = overwrite bs (st + 8) ((crc d @ be_bytes 4 (length d)) @ d)"
    unfolding p16 by (rule overwrite_append_right) (use c assms(2) in simp)
  moreover have "overwrite (overwrite bs (st + 8) ((crc d @ be_bytes 4 (length d)) @ d)) st (be_bytes 8 i)
      = overwrite bs st (be_bytes 8 i @ (crc d @ be_bytes 4 (length d)) @ d)"
    unfolding p8 by (rule overwrite_append_left) (use assms(2) in simp)
  ultimately show ?thesis by (simp add: enc_rec_def del: be_bytes.simps)
qed

lemma append_log_eq:
  assumes crc: "crc_ok crc" and m: "mmap_mut w = Some n" "inodes s n \<noteq> None"
    and len: "length (ino_bytes s n) = len_max w" "len_max w < u32_max" "32 \<le> len_max w"
    and ver: "version w = 1"
    and space: "has_space w (length d) = Ok True"
    and se: "(data_start w = None) = (data_end w = None)"
  shows "append_log crc i d (s, w) =
     (Ok (), (ino_write s n
       (let bs = overwrite (ino_bytes s n) (append_pos w) (enc_rec crc i d)
        in if data_start w = None then overwrite bs 0 (header (appended i d w)) else bs), appended i d w))"
proof -
  let ?p = "append_pos w"
  have fit: "?p + length d + 16 \<le> len_max w"
    using space ver by (auto simp: has_space_def end_or_header_def offset_logs_def append_pos_def
        rbind_eq_Ok split: option.splits)
  have c: "length (crc d) = 4" using crc by (simp add: crc_ok_def)
  let ?bs = "ino_bytes s n"
  let ?b1 = "overwrite ?bs (?p + 8) (crc d)"
  let ?b2 = "overwrite ?b1 (?p + 12) (be_bytes 4 (length d))"
  let ?b3 = "overwrite ?b2 (?p + 16) d"
  have l1: "length ?b1 = len_max w" using fit len c by (simp add: length_overwrite)
  have l2: "length ?b2 = len_max w" using fit l1 by (simp add: length_overwrite)
  have l3: "length ?b3 = len_max w" using fit l2 by (simp add: length_overwrite)
  have l4: "length (overwrite ?bs ?p (enc_rec crc i d)) = len_max w"
    using fit len by (simp add: length_overwrite length_enc_rec [OF crc])
  have md: "(?p + length d + 16) mod 2 ^ 32 = ?p + length d + 16"
    using fit len by (intro mod_less) (simp add: u32_max_def)
  have rec: "overwrite ?b3 ?p (be_bytes 8 i) = overwrite ?bs ?p (enc_rec crc i d)"
    using append_record_bytes [OF crc] fit len by simp
  have start: "append_start i (s, w) =
     (Ok (?p, data_start w = None),
      (s, w\<lparr>id_from := (if data_start w = None then i else id_from w),
            data_start := Some (unwrap_or (data_start w) 32)\<rparr>))"
    using se ver by (auto simp: append_start_def act_simps append_pos_def offset_logs_def unwrap_or_def
        split: option.splits)
  show ?thesis
    using m len ver l1 l2 l3 l4 fit space c se md rec
    by (auto simp: append_log_def act_simps start mmap_write_eq mmap_write_from_def fs_simps appended_def
        update_header_eq Let_def add_ac)
qed

lemma appended_simps [simp]:
  "version (appended i d w) = version w" "wal_no (appended i d w) = wal_no w"
  "path (appended i d w) = path w" "len_max (appended i d w) = len_max w"
  "mmap (appended i d w) = mmap w" "mmap_mut (appended i d w) = mmap_mut w"
  "file_fd (appended i d w) = file_fd w" "id_until (appended i d w) = i"
  by (simp_all add: appended_def)

lemma file_logs_start_end:
  "file_logs crc w bs ls \<Longrightarrow> (data_start w = None) = (data_end w = None)"
  by (auto simp: file_logs_def split: if_splits)

lemma recs_at_overwrite_header:
  assumes "recs_at crc bs st ls" and "32 \<le> st" and "length h = 32"
  shows "recs_at crc (overwrite bs 0 h) st ls"
  using assms by (auto intro!: recs_at_cong [OF assms(1)] slice_overwrite_after)

lemma append_pos_file_logs:
  assumes "file_logs crc w bs ls"
  shows "append_pos w = end_off (unwrap_or (data_start w) 32) ls"
proof (cases "ls = []")
  case True
  with assms show ?thesis by (simp add: file_logs_def append_pos_def unwrap_or_def)
next
  case False
  with assms obtain st where "data_start w = Some st" "data_end w = Some (end_off st ls - 1)"
    by (auto simp: file_logs_def)
  then show ?thesis
    using end_off_pos [OF False, of st] by (simp add: append_pos_def unwrap_or_def)
qed

lemma has_space_pos:
  "version w = 1 \<Longrightarrow> has_space w k = Ok True \<Longrightarrow> append_pos w + k + 17 \<le> len_max w"
  by (auto simp: has_space_def end_or_header_def offset_logs_def append_pos_def rbind_eq_Ok
      split: option.splits)

lemma appended_bytes_logs:
  assumes crc: "crc_ok crc" and fl: "file_logs crc w bs ls"
    and space: "has_space w (length d) = Ok True" and d: "d \<noteq> []" and i: "i \<le> u64_max"
    and nxt: "ls \<noteq> [] \<Longrightarrow> i = Suc (id_until w)"
  shows "file_logs crc (appended i d w)
     (let bs' = overwrite bs (append_pos w) (enc_rec crc i d)
      in if data_start w = None then overwrite bs' 0 (header (appended i d w)) else bs') (ls @ [(i, d)])"
    (is "file_logs crc ?w ?bs _")
proof -
  define st where "st = unwrap_or (data_start w) 32"
  let ?p = "append_pos w" and ?bs1 = "overwrite bs (append_pos w) (enc_rec crc i d)"
  have f: "version w = 1" "length bs = len_max w" "32 < len_max w" "len_max w < u32_max"
    using fl by (auto simp: file_logs_def)
  have p: "?p = end_off st ls" using append_pos_file_logs [OF fl] by (simp add: st_def)
  have fit: "?p + length d + 17 \<le> len_max w" using has_space_pos [OF f(1) space] .
  have st32: "32 \<le> st"
    using fl by (cases "ls = []") (auto simp: file_logs_def st_def unwrap_or_def)
  have old: "recs_at crc bs st ls"
    using fl by (cases "ls = []") (auto simp: file_logs_def st_def unwrap_or_def)
  have len1: "length ?bs1 = len_max w"
    using fit f by (simp add: length_overwrite length_enc_rec [OF crc])
  have "recs_at crc ?bs1 st ls"
    using old by (rule recs_at_cong) (use p fit f in \<open>auto intro: slice_overwrite_before\<close>)
  moreover have "slice ?bs1 ?p (?p + length d + 16) = enc_rec crc i d"
    using slice_overwrite_same [of ?p "enc_rec crc i d" bs] fit f
    by (simp add: length_enc_rec [OF crc] add_ac)
  ultimately have recs1: "recs_at crc ?bs1 st (ls @ [(i, d)])"
    using p d i by (simp add: recs_at_append)
  then have recs: "recs_at crc ?bs st (ls @ [(i, d)])"
    using st32 by (simp add: Let_def recs_at_overwrite_header length_header)
  have len: "length ?bs = len_max w"
    using len1 f by (simp add: Let_def length_overwrite length_header)
  have ids: "map fst (ls @ [(i, d)]) = [id_from ?w..<Suc i]"
  proof (cases "ls = []")
    case True
    then show ?thesis using fl by (simp add: appended_def file_logs_def)
  next
    case False
    then have "id_from ?w = id_from w"
      using fl by (auto simp: appended_def file_logs_def)
    moreover have "map fst ls = [id_from w..<i]"
      using fl False nxt by (auto simp: file_logs_def simp del: upt_Suc)
    moreover have "id_from w \<le> i"
      using file_logs_ids(2) [OF fl False] nxt [OF False] by simp
    ultimately show ?thesis by simp
  qed
  have "data_start ?w = Some st" "data_end ?w = Some (end_off st (ls @ [(i, d)]) - 1)"
    using p by (simp_all add: appended_def st_def end_off_append)
  then show ?thesis
    using f len recs ids st32 fit p
    by (auto simp: file_logs_def end_off_append simp del: upt_Suc)
qed

lemma append_log_spec:
  assumes crc: "crc_ok crc" and m: "mmap_mut w = Some n" "inodes s n \<noteq> None"
    and fl: "file_logs crc w (ino_bytes s n) ls"
    and space: "has_space w (length d) = Ok True" and d: "d \<noteq> []" and i: "i \<le> u64_max"
    and nxt: "ls \<noteq> [] \<Longrightarrow> i = Suc (id_until w)"
  obtains bs' where "append_log crc i d (s, w) = (Ok (), (ino_write s n bs', appended i d w))"
    and "file_logs crc (appended i d w) bs' (ls @ [(i, d)])"
proof
  let ?bs = "let bs' = overwrite (ino_bytes s n) (append_pos w) (enc_rec crc i d)
      in if data_start w = None then overwrite bs' 0 (header (appended i d w)) else bs'"
  show "append_log crc i d (s, w) = (Ok (), (ino_write s n ?bs, appended i d w))"
    using append_log_eq [OF crc m _ _ _ _ space] fl file_logs_start_end [OF fl]
    by (simp add: file_logs_def)
  show "file_logs crc (appended i d w) ?bs (ls @ [(i, d)])"
    by (rule appended_bytes_logs [OF crc fl space d i nxt])
qed

section \<open>Every record that is returned has a valid checksum\<close>

definition rec_valid :: "(bytes \<Rightarrow> bytes) \<Rightarrow> fs \<Rightarrow> wal_file \<Rightarrow> nat \<Rightarrow> nat \<Rightarrow> nat \<times> bytes \<Rightarrow> bool" where
  "rec_valid crc s w from til x \<longleftrightarrow> from \<le> fst x \<and> fst x \<le> til \<and>
     (\<exists>off. read_record_unchecked s w off = Ok \<lparr>log_id = fst x, rec_crc = crc (snd x), rec_data = snd x\<rparr>)"

lemma read_loop_OkE:
  assumes "read_loop crc s w from til d_end memo idx off buf = Ok (off', memo', buf')"
  obtains r b1 where "read_record_unchecked s w idx = Ok r"
    and "b1 = buf \<or> from \<le> log_id r \<and> log_id r \<le> til \<and> rec_crc r = crc (rec_data r) \<and>
           b1 = buf @ [(log_id r, rec_data r)]"
    and "buf' = b1 \<or> (\<exists>len o1. read_loop crc s w from til d_end memo (idx + len + 1) o1 b1
                              = Ok (off', memo', buf'))"
proof -
  from assms obtain r where r: "read_record_unchecked s w idx = Ok r"
    by (subst (asm) read_loop.simps) (auto split: res.splits)
  from assms obtain len where len: "record_len r = Ok len"
    by (subst (asm) read_loop.simps) (auto simp: r rbind_eq_Ok)
  define b1 where "b1 = (if from \<le> log_id r \<and> log_id r \<le> til then buf @ [(log_id r, rec_data r)] else buf)"
  show thesis
  proof (rule that [OF r])
    show "b1 = buf \<or> from \<le> log_id r \<and> log_id r \<le> til \<and> rec_crc r = crc (rec_data r) \<and>
           b1 = buf @ [(log_id r, rec_data r)]"
      using assms
      by (subst (asm) read_loop.simps) (auto simp: r len b1_def rbind_eq_Ok Let_def split: if_splits)
    show "buf' = b1 \<or> (\<exists>len o1. read_loop crc s w from til d_end memo (idx + len + 1) o1 b1
                              = Ok (off', memo', buf'))"
      using assms
      by (subst (asm) read_loop.simps)
         (simp add: r len b1_def rbind_eq_Ok Let_def split: if_splits, (blast | fastforce)+)
  qed
qed

lemma read_loop_valid:
  assumes "read_loop crc s w from til d_end memo idx off buf = Ok (off', memo', buf')"
    and "\<forall>x \<in> set buf. rec_valid crc s w from til x"
  shows "\<forall>x \<in> set buf'. rec_valid crc s w from til x"
  using assms
proof (induction "len_max w - idx" arbitrary: idx off buf rule: less_induct)
  case less
  from less(2) obtain r b1 where r: "read_record_unchecked s w idx = Ok r"
    and b1: "b1 = buf \<or> from \<le> log_id r \<and> log_id r \<le> til \<and> rec_crc r = crc (rec_data r) \<and>
           b1 = buf @ [(log_id r, rec_data r)]"
    and fin: "buf' = b1 \<or> (\<exists>len o1. read_loop crc s w from til d_end memo (idx + len + 1) o1 b1
                              = Ok (off', memo', buf'))"
    by (rule read_loop_OkE)
  have "rec_valid crc s w from til (log_id r, rec_data r)"
    if "from \<le> log_id r" "log_id r \<le> til" "rec_crc r = crc (rec_data r)"
    using that r by (auto simp: rec_valid_def intro!: exI [of _ idx])
  with b1 less(3) have valid: "\<forall>x \<in> set b1. rec_valid crc s w from til x"
    by (elim disjE conjE) simp_all
  show ?case
    using fin
  proof
    assume "\<exists>len o1. read_loop crc s w from til d_end memo (idx + len + 1) o1 b1 = Ok (off', memo', buf')"
    then obtain len o1 where "read_loop crc s w from til d_end memo (idx + len + 1) o1 b1
        = Ok (off', memo', buf')" by blast
    from less(1) [OF _ this valid] show ?thesis
      using read_record_bound [OF r] by simp
  qed (use valid in simp)
qed

section \<open>The walk over healthy records\<close>

lemma check_walk_spec:
  assumes crc: "crc_ok crc" and v: "view s w = Some bs"
    and len: "length bs = len_max w" "len_max w < u32_max"
    and rs: "recs_at crc bs off rs" and ne: "rs \<noteq> []" and fit: "end_off off rs \<le> len_max w"
    and d_end: "end_off off rs = Suc d_end"
    and ids: "map fst rs = [k..<Suc (id_until w)]"
    and before: "\<And>b. id_before = Some b \<Longrightarrow> Suc b = k"
  shows "check_walk crc s w d_end off id_before = Ok (Walked (end_off off rs) (Some (id_until w)))"
  using rs ne fit d_end ids before
proof (induction rs arbitrary: k off id_before)
  case Nil
  then show ?case by simp
next
  case (Cons x rs)
  have kle: "k \<le> id_until w" using Cons.prems(5) by (cases "k \<le> id_until w") auto
  then obtain d where x: "x = (k, d)"
    using Cons.prems(5) by (cases x) (simp add: upt_conv_Cons del: upt_Suc)
  have ids': "map fst rs = [Suc k..<Suc (id_until w)]"
    using Cons.prems(5) kle by (simp add: x upt_conv_Cons del: upt_Suc)
  have prems: "slice bs off (off + length d + 16) = enc_rec crc k d" "d \<noteq> []" "k \<le> u64_max"
      "recs_at crc bs (off + length d + 17) rs"
    using Cons.prems(1) by (simp_all add: x)
  have fits: "off + length d + 17 \<le> end_off off (x # rs)"
    using end_off_mono [of "off + length d + 17" rs] by (simp add: x)
  then have rec: "read_record_unchecked s w off = Ok \<lparr>log_id = k, rec_crc = crc d, rec_data = d\<rparr>"
    using read_record_at [OF crc v len prems(1) _ prems(2,3)] Cons.prems(3) by simp
  have rlen: "record_len \<lparr>log_id = i, rec_crc = c, rec_data = d\<rparr> = Ok (length d + 16)" for i c
    using fits Cons.prems(3) len by (simp add: record_len_eq)
  show ?case
  proof (cases "rs = []")
    case True
    with ids' kle have "k = id_until w" by (auto split: if_splits)
    then show ?thesis
      using True fits Cons.prems(3,6) len prems(2,3)
      by (subst check_walk.simps)
         (auto simp: rec rlen x add_u64_eq Let_def split: option.split)
  next
    case False
    then have lt: "k < id_until w"
      using ids' kle by (cases "k = id_until w") auto
    have more: "off + length d + 17 < end_off off (x # rs)"
      using end_off_pos [OF False, of "off + length d + 17"] by (simp add: x)
    have step: "check_walk crc s w d_end n (Some k)
        = Ok (Walked (end_off off (x # rs)) (Some (id_until w)))" if "n = off + length d + 17" for n
      unfolding that using Cons.IH [OF prems(4) False _ _ ids', of "Some k"] Cons.prems(3,4) by (simp add: x)
    show ?thesis
      using more lt fits Cons.prems(3,4,6) len prems(2,3)
      by (subst check_walk.simps)
         (auto simp: rec rlen x add_u64_eq Let_def step split: option.split)
  qed
qed


section \<open>Recovery of records the header does not know\<close>

definition zero_from :: "bytes \<Rightarrow> nat \<Rightarrow> bool" where
  "zero_from bs e \<longleftrightarrow> set (drop e bs) \<subseteq> {0}"

definition adopted :: "nat \<Rightarrow> logs \<Rightarrow> wal_file \<Rightarrow> wal_file" where
  "adopted off post w = (if post = [] then w
     else w\<lparr>id_until := fst (last post), data_start := Some (unwrap_or (data_start w) off),
            data_end := Some (end_off off post - 1)\<rparr>)"

lemma zero_from_slice:
  assumes "zero_from bs e" and "b \<le> length bs" and "e \<le> a"
  shows "slice bs a b = replicate (b - a) 0"
proof (rule replicate_eqI)
  fix y assume "y \<in> set (slice bs a b)"
  then have "y \<in> set (drop a bs)" by (auto simp: slice_def dest: in_set_takeD)
  then have "y \<in> set (drop e bs)" using set_drop_subset_set_drop [OF assms(3), of bs] by blast
  then show "y = 0" using assms(1) by (auto simp: zero_from_def)
qed (use assms in \<open>simp add: length_slice\<close>)

lemma zero_from_overwrite:
  assumes "zero_from bs e" and "length h \<le> e" and "e \<le> length bs"
  shows "zero_from (overwrite bs 0 h) e"
  using assms by (simp add: zero_from_def overwrite_def)

lemma read_record_zero:
  assumes v: "view s w = Some bs" and len: "length bs = len_max w" "len_max w < u32_max"
    and z: "zero_from bs off" and fit: "off + 16 \<le> len_max w"
  shows "\<exists>e. read_record_unchecked s w off = Err e"
proof -
  have "read_bytes s w off (off + 16) = Ok (replicate 16 0)"
    using read_bytes_view [OF v, of off "off + 16"] zero_from_slice [OF z, of "off + 16" off] fit len
    by simp
  then show ?thesis
    using fit len
    by (simp add: read_record_unchecked_def add_u32_eq slice_r_def slice_replicate be_nat_zeros
        bin_to_u64_def bin_to_u32_def)
qed

lemma check_orphans_spec:
  assumes crc: "crc_ok crc" and m: "mmap w = None" "mmap_mut w = Some n" "inodes s n \<noteq> None"
    and bs: "ino_bytes s n = bs" and ver: "version w = 1"
    and len: "length bs = len_max w" "len_max w < u32_max"
    and rs: "recs_at crc bs off post" and fit: "end_off off post \<le> len_max w" and off: "32 \<le> off"
    and ids: "map fst post = [k..<k + length post]" "0 < k"
    and before: "\<And>b. id_before = Some b \<Longrightarrow> Suc b = k"
    and z: "zero_from bs (end_off off post)"
  shows "check_orphans crc off id_before s w =
     (Ok (), (if post = [] then s else ino_write s n (overwrite bs 0 (header (adopted off post w))),
              adopted off post w))"
  using m bs ver len rs fit off ids before z
proof (induction post arbitrary: k off id_before s w bs)
  case Nil
  have "view s w = Some bs" using Nil by (simp add: view_def)
  then have "\<exists>e. read_record_unchecked s w off = Err e" if "off + 16 \<le> len_max w"
    using read_record_zero [of s w bs off] Nil that by simp
  then show ?case
    by (subst check_orphans.simps) (auto simp: adopted_def)
next
  case (Cons x post)
  obtain d where x: "x = (k, d)"
    using Cons.prems(11) by (cases x) (simp add: upt_conv_Cons del: upt_Suc)
  have ids': "map fst post = [Suc k..<Suc k + length post]"
    using Cons.prems(11) by (simp add: x upt_conv_Cons del: upt_Suc)
  have prems: "slice bs off (off + length d + 16) = enc_rec crc k d" "d \<noteq> []" "k \<le> u64_max"
      "recs_at crc bs (off + length d + 17) post"
    using Cons.prems(8) by (simp_all add: x)
  have fits: "off + length d + 17 \<le> end_off off (x # post)"
    using end_off_mono [of "off + length d + 17" post] by (simp add: x)
  have v: "view s w = Some bs" using Cons.prems(1,2,4) by (simp add: view_def)
  have rec: "read_record_unchecked s w off = Ok \<lparr>log_id = k, rec_crc = crc d, rec_data = d\<rparr>"
    using read_record_at [OF crc v _ _ prems(1) _ prems(2,3)] Cons.prems(6,7,9) fits by simp
  have rlen: "record_len \<lparr>log_id = i, rec_crc = c, rec_data = d\<rparr> = Ok (length d + 16)" for i c
    using fits Cons.prems(7,9) by (simp add: record_len_eq)
  define w1 where "w1 = adopt off (length d + 16) k w"
  define s1 where "s1 = ino_write s n (overwrite bs 0 (header w1))"
  have upd: "update_header (s, w1) = (Ok (), (s1, w1))"
    using Cons.prems(2,4-6,9,10) fits by (simp add: update_header_eq w1_def s1_def adopt_def)
  have fin: "adopted (off + length d + 17) post w1 = adopted off (x # post) w"
    by (cases "data_start w") (auto simp: adopted_def w1_def adopt_def x unwrap_or_def)
  have w1: "mmap w1 = None" "mmap_mut w1 = Some n" "version w1 = 1" "len_max w1 = len_max w"
    using Cons.prems(1,2,5) by (simp_all add: w1_def adopt_def)
  have s1: "inodes s1 n \<noteq> None" "ino_bytes s1 n = overwrite bs 0 (header w1)"
    using Cons.prems(3) by (simp_all add: s1_def fs_simps)
  have bs1: "length (overwrite bs 0 (header w1)) = len_max w1" "len_max w1 < u32_max"
      "recs_at crc (overwrite bs 0 (header w1)) (off + length d + 17) post"
    using Cons.prems(6,7,9,10) fits prems(4)
    by (simp_all add: w1 length_overwrite length_header recs_at_overwrite_header)
  have e1: "end_off (off + length d + 17) post \<le> len_max w1" "32 \<le> off + length d + 17"
    using Cons.prems(9,10) by (simp_all add: w1 x)
  have z1: "zero_from (overwrite bs 0 (header w1)) (end_off (off + length d + 17) post)"
    using Cons.prems(6,9,10,14) fits by (intro zero_from_overwrite) (simp_all add: length_header x)
  have IH: "check_orphans crc (off + length d + 17) (Some k) s1 w1 =
     (Ok (), (if post = [] then s1 else ino_write s1 n (overwrite (overwrite bs 0 (header w1)) 0
        (header (adopted (off + length d + 17) post w1))), adopted (off + length d + 17) post w1))"
    by (rule Cons.IH [OF w1(1,2) s1 w1(3) bs1 e1 ids' _ _ z1]) simp_all
  have "check_orphans crc off id_before s w = check_orphan_record crc off
      \<lparr>log_id = k, rec_crc = crc d, rec_data = d\<rparr> s w"
    using Cons.prems(9,12,13) fits prems(3)
    by (cases id_before) (simp_all add: rec check_orphans.simps [of crc off _ s w])
  also have "\<dots> = (if off + length d + 17 \<ge> len_max w then (Ok (), (s1, w1))
      else check_orphans crc (off + length d + 17) (Some k) s1 w1)"
    using Cons.prems(7,9) fits upd
    by (simp add: check_orphan_record.simps [of crc off] rlen w1_def Let_def add_ac)
  finally have step: "check_orphans crc off id_before s w = \<dots>" .
  show ?case
  proof (cases "post = []")
    case True
    then show ?thesis
      using step IH fin by (auto simp: s1_def adopted_def)
  next
    case False
    then have "off + length d + 17 < len_max w"
      using end_off_pos [OF False, of "off + length d + 17"] Cons.prems(9) by (simp add: x)
    then show ?thesis
      using step IH fin False Cons.prems(6,7) fits
      by (simp add: s1_def fs_simps overwrite_overwrite length_header)
  qed
qed

lemma file_logs_extend:
  assumes fl: "file_logs crc w bs pre" and ne: "pre \<noteq> []" and st: "data_start w = Some st"
    and rs: "recs_at crc bs (end_off st pre) post" and fit: "end_off st (pre @ post) \<le> len_max w"
    and ids: "map fst post = [Suc (id_until w)..<Suc (id_until w) + length post]"
  shows "file_logs crc (adopted (end_off st pre) post w) bs (pre @ post)"
proof (cases "post = []")
  case True
  then show ?thesis using fl by (simp add: adopted_def)
next
  case False
  have last: "fst (last post) = id_until w + length post"
  proof -
    have "fst (last post) = last (map fst post)" using False by (simp add: last_map)
    then show ?thesis using False by (simp add: ids Suc_le_eq)
  qed
  have "map fst (pre @ post) = [id_from w..<Suc (id_until w + length post)]"
    using fl ne ids file_logs_ids(2) [OF fl ne]
      upt_add_eq_append [of "id_from w" "Suc (id_until w)" "length post"]
    by (auto simp: file_logs_def simp del: upt_Suc)
  then show ?thesis
    using fl ne st rs fit False last
    by (auto simp: file_logs_def adopted_def end_off_append recs_at_append simp del: upt_Suc)
qed

lemma check_repair_walked:
  assumes m: "mmap_mut w = Some n" and ver: "version w = 1" and ids: "id_from w \<le> id_until w"
    and se: "data_start w = Some st" "data_end w = Some e"
    and walk: "check_walk crc s w e st None = Ok (Walked off b)"
  shows "check_repair_data_integrity h crc (s, w) = check_orphans crc off b s w"
  using assms by (simp add: check_repair_data_integrity_def act_simps offset_logs_def)

lemma check_repair_spec:
  assumes crc: "crc_ok crc" and m: "mmap w = None" "mmap_mut w = Some n" "inodes s n \<noteq> None"
    and fl: "file_logs crc w (ino_bytes s n) pre" and ne: "pre \<noteq> []" and st: "data_start w = Some st"
    and rs: "recs_at crc (ino_bytes s n) (end_off st pre) post"
    and fit: "end_off st (pre @ post) \<le> len_max w"
    and ids: "map fst post = [Suc (id_until w)..<Suc (id_until w) + length post]"
    and z: "zero_from (ino_bytes s n) (end_off st (pre @ post))"
  defines "w' \<equiv> adopted (end_off st pre) post w"
  shows "check_repair_data_integrity h crc (s, w) =
           (Ok (), (if post = [] then s
                    else ino_write s n (overwrite (ino_bytes s n) 0 (header w')), w'))"
    and "file_logs crc w' (if post = [] then ino_bytes s n
                           else overwrite (ino_bytes s n) 0 (header w')) (pre @ post)"
proof -
  have f: "version w = 1" "length (ino_bytes s n) = len_max w" "len_max w < u32_max" "32 \<le> st"
      "recs_at crc (ino_bytes s n) st pre" "map fst pre = [id_from w..<Suc (id_until w)]"
      "end_off st pre \<le> len_max w" "data_end w = Some (end_off st pre - 1)"
    using fl ne st by (auto simp: file_logs_def simp del: upt_Suc)
  have v: "view s w = Some (ino_bytes s n)" using m by (simp add: view_def)
  have walk: "check_walk crc s w (end_off st pre - 1) st None
      = Ok (Walked (end_off st pre) (Some (id_until w)))"
    using end_off_pos [OF ne, of st] by (intro check_walk_spec [OF crc v f(2,3,5) ne f(7) _ f(6)]) simp_all
  have e32: "32 \<le> end_off st pre" using end_off_mono [of st pre] f(4) by simp
  show "check_repair_data_integrity h crc (s, w) =
           (Ok (), (if post = [] then s
                    else ino_write s n (overwrite (ino_bytes s n) 0 (header w')), w'))"
    unfolding check_repair_walked [OF m(2) f(1) file_logs_ids(2) [OF fl ne] st f(8) walk] w'_def
    using fit z by (intro check_orphans_spec [OF crc m refl f(1,2,3) rs _ e32 ids]) (simp_all add: end_off_append)
  have ext: "file_logs crc w' (ino_bytes s n) (pre @ post)"
    unfolding w'_def by (rule file_logs_extend [OF fl ne st rs fit ids])
  then show "file_logs crc w' (if post = [] then ino_bytes s n
                           else overwrite (ino_bytes s n) 0 (header w')) (pre @ post)"
    using ne by (auto simp: file_logs_def length_overwrite length_header recs_at_overwrite_header
        simp del: upt_Suc)
qed

lemma check_walk_bad:
  assumes crc: "crc_ok crc" and v: "view s w = Some bs"
    and len: "length bs = len_max w" "len_max w < u32_max"
    and rs: "recs_at crc bs off pre" and fit: "end_off off pre \<le> d_end" "end_off off pre \<le> len_max w"
    and ids: "map fst pre = [k..<k + length pre]" "k + length pre \<le> id_until w" "k + length pre \<le> u64_max"
    and before: "\<And>b. id_before = Some b \<Longrightarrow> Suc b = k"
    and bad: "read_record_unchecked s w (end_off off pre) = Ok r" "log_id r = k + length pre"
      "rec_crc r \<noteq> crc (rec_data r)"
  shows "check_walk crc s w d_end off id_before = 
     Ok (BadCrc (end_off off pre) (if pre = [] then id_before else Some (k + length pre - 1)))"
  using rs fit ids before bad
proof (induction pre arbitrary: k off id_before)
  case Nil
  then show ?case
    by (cases id_before) (simp_all add: check_walk.simps [of crc s w d_end off] add_u64_eq)
next
  case (Cons x pre)
  obtain d where x: "x = (k, d)"
    using Cons.prems(4) by (cases x) (simp add: upt_conv_Cons del: upt_Suc)
  have ids': "map fst pre = [Suc k..<Suc k + length pre]"
    using Cons.prems(4) by (simp add: x upt_conv_Cons del: upt_Suc)
  have prems: "slice bs off (off + length d + 16) = enc_rec crc k d" "d \<noteq> []" "k \<le> u64_max"
      "recs_at crc bs (off + length d + 17) pre"
    using Cons.prems(1) by (simp_all add: x)
  have fits: "off + length d + 17 \<le> end_off off (x # pre)"
    using end_off_mono [of "off + length d + 17" pre] by (simp add: x)
  then have rec: "read_record_unchecked s w off = Ok \<lparr>log_id = k, rec_crc = crc d, rec_data = d\<rparr>"
    using read_record_at [OF crc v len prems(1) _ prems(2,3)] Cons.prems(3) by simp
  have rlen: "record_len \<lparr>log_id = i, rec_crc = c, rec_data = d\<rparr> = Ok (length d + 16)" for i c
    using fits Cons.prems(3) len by (simp add: record_len_eq)
  have e: "end_off off (x # pre) = end_off (off + length d + 17) pre" by (simp add: x)
  have step: "check_walk crc s w d_end n (Some k) = Ok (BadCrc (end_off off (x # pre))
      (if pre = [] then Some k else Some (Suc k + length pre - 1)))" if "n = off + length d + 17" for n
    unfolding that e
    by (rule Cons.IH [OF prems(4) _ _ ids' _ _ _ Cons.prems(8) [unfolded e]])
       (use Cons.prems(2,3,5,6,9,10) in \<open>simp_all add: x\<close>)
  have "off + length d + 17 \<le> d_end" "k \<noteq> id_until w"
    using fits Cons.prems(2,5) by simp_all
  then show ?case
    using fits Cons.prems(3,7) len(2) prems(2,3)
    by (cases id_before) (simp_all add: check_walk.simps [of crc s w d_end off] rec rlen add_u64_eq step)
qed

section \<open>Names and headers on disk\<close>

definition pad16 :: "nat \<Rightarrow> string" where
  "pad16 no = replicate (16 - length (to_string no)) (CHR ''0'') @ to_string no"

lemma digit_0: "digit 0 = CHR ''0''"
  by code_simp

lemma length_pad16: "length (to_string no) \<le> 16 \<Longrightarrow> length (pad16 no) = 16"
  by (simp add: pad16_def)

lemma pad16_digits: "c \<in> set (pad16 no) \<Longrightarrow> \<exists>d<10. c = digit d"
  using to_string_digits [of c no] digit_0 [symmetric]
  by (auto simp: pad16_def intro: exI [of _ "0::nat"])

lemma pad16_no_sep: "CHR ''.'' \<notin> set (pad16 no)" "CHR ''/'' \<notin> set (pad16 no)"
  using pad16_digits digit_neq(1,2) by metis+

lemma parse_pad16:
  assumes "no \<le> u64_max"
  shows "parse_uint u64_max (pad16 no) = Some no"
proof -
  have "pad16 no \<noteq> []" by (simp add: pad16_def)
  then obtain c cs where cs: "pad16 no = c # cs" by (cases "pad16 no") auto
  then have "c \<noteq> CHR ''+''"
    using pad16_digits [of c no] digit_neq(3) by auto
  moreover have "digits_acc 0 (pad16 no) = Some no"
    by (simp add: pad16_def digit_0 [symmetric] digits_acc_zeros digits_acc_to_string)
  ultimately show ?thesis
    using assms by (simp add: parse_uint_def cs)
qed

definition wal_path :: "string \<Rightarrow> nat \<Rightarrow> string" where
  "wal_path base no = base @ ''/'' @ pad16 no @ ''.wal''"

lemma rsplit_wal_path: "rsplit_once (CHR ''/'') (wal_path base no) = Some (base, pad16 no @ ''.wal'')"
  using rsplit_once_append [of "CHR ''/''" "pad16 no @ ''.wal''" base] pad16_no_sep
  by (simp add: wal_path_def)

lemma slice_zeros16:
  "slice_r (replicate 15 (CHR ''0'')) 0 (16 - length (to_string no))
   = Ok (replicate (16 - length (to_string no)) (CHR ''0''))"
proof -
  have "1 \<le> length (to_string no)" by (simp add: Suc_le_eq)
  then show ?thesis by (simp add: slice_r_def slice_replicate)
qed

lemma build_full_path_eq:
  assumes "base \<noteq> []" and "length (to_string no) \<le> 16"
  shows "build_full_path base no = Ok (wal_path base no)"
proof -
  have name: "base @ ''/'' @ replicate (16 - length (to_string no)) (CHR ''0'') @ to_string no @ ''.wal''
      = wal_path base no"
    by (simp add: wal_path_def pad16_def)
  show ?thesis
    using assms rsplit_wal_path [of base no] length_pad16 [OF assms(2)]
    unfolding build_full_path_def Let_def
    by (simp add: sub_u_eq slice_zeros16 name [simplified] ends_with_def)
qed

lemma header_fields:
  shows "take 7 (header w) = magic_no_wal" and "slice (header w) 7 8 = [word_of_nat (version w)]"
    and "slice (header w) 8 16 = be_bytes 8 (id_from w)"
    and "slice (header w) 16 24 = be_bytes 8 (id_until w)"
    and "slice (header w) 24 28 = be_bytes 4 (unwrap_or (data_start w) 0)"
    and "slice (header w) 28 32 = be_bytes 4 (unwrap_or (data_end w) 0)"
  by (simp_all add: header_def slice_def length_magic del: be_bytes.simps)

definition header_ok :: "wal_file \<Rightarrow> bool" where
  "header_ok w \<longleftrightarrow> version w = 1 \<and> id_from w \<le> u64_max \<and> id_until w \<le> u64_max \<and>
     data_start w \<noteq> Some 0 \<and> data_end w \<noteq> Some 0 \<and>
     unwrap_or (data_start w) 0 \<le> u32_max \<and> unwrap_or (data_end w) 0 \<le> u32_max \<and>
     32 \<le> len_max w \<and> len_max w < u32_max"

lemma read_from_file_header:
  assumes p: "path w = wal_path base (wal_no w)" and no: "wal_no w \<le> u64_max"
    and op: "fs_open s (path w) = Ok i"
    and hdr: "take 32 (ino_bytes s i) = header w" and len: "length (ino_bytes s i) = len_max w"
    and ok: "header_ok w"
  shows "read_from_file s (path w) = Ok (clone_no_mmap w)"
proof -
  have name: "split_once (CHR ''.'') (pad16 (wal_no w) @ ''.wal'') = Some (pad16 (wal_no w), ''wal'')"
    using split_once_append [OF pad16_no_sep(1), of "wal_no w" "''wal''"] by simp
  have "(if unwrap_or x 0 = 0 then None else Some (unwrap_or x 0)) = x" if "x \<noteq> Some 0" for x :: "nat option"
    using that by (cases x) auto
  moreover have "len_max w mod 2 ^ 32 = len_max w"
    using ok by (intro mod_less) (simp add: header_ok_def u32_max_def)
  ultimately show ?thesis
    using assms rsplit_wal_path [of base "wal_no w"]
    by (simp add: read_from_file_def name parse_pad16 header_ok_def Let_def header_fields bin_to_u64_be
        bin_to_u32_be clone_no_mmap_def)
qed

end
