(* ===== verification/Wal_Set.thy ===== *)
theory Wal_Set
  imports Wal_File_Props
begin

text \<open>
  The ordered set of write-ahead log files, \<^verbatim>\<open>WalFileSet\<close> of \<^verbatim>\<open>hiqlite-wal/src/wal.rs\<close>: reading a
  directory, the header check at start-up, rolling over to a new file, and removing log entries from
  the front (purge) or the back (truncate). This theory has the definitions; \<^verbatim>\<open>Wal_Set_Props\<close> has
  what they satisfy.

  An operation is an action on the file system and the set; operations of one file are run inside the
  set with \<open>on_file\<close>. A file that leaves the set is dropped, which runs \<open>drop_file\<close>. The environment
  variable \<^verbatim>\<open>HQL_CHECK_WAL_INTEGRITY\<close> is an argument.
\<close>

record wal_set =
  active :: "nat option"
  base_path :: string
  files :: "wal_file list"

type_synonym sst = "fs \<times> wal_set"

definition on_file :: "nat \<Rightarrow> (wst, wal_error, 'a) act \<Rightarrow> (sst, wal_error, 'a) act" where
  "on_file i m = (\<lambda>(s, ws).
     if i < length (files ws) then
       (case m (s, files ws ! i) of (r, (s', w)) \<Rightarrow> (r, (s', ws\<lparr>files := (files ws)[i := w]\<rparr>)))
     else (Panic ''unwrap on None'', (s, ws)))"

definition active_idx :: "wal_set \<Rightarrow> (wal_error, nat) res" where
  "active_idx ws =
     rbind (rassert (active ws \<noteq> None)) (\<lambda>_.
     rbind (unwrap (active ws)) (\<lambda>i.
     rbind (rassert (i < length (files ws))) (\<lambda>_. Ok i)))"

definition on_active :: "(wst, wal_error, 'a) act \<Rightarrow> (sst, wal_error, 'a) act" where
  "on_active m = abind aget (\<lambda>(s, ws). abind (alift (active_idx ws)) (\<lambda>i. on_file i m))"

section \<open>Adding a file\<close>

definition next_wal_no :: "wal_file list \<Rightarrow> (wal_error, nat) res" where
  "next_wal_no ws = (if ws = [] then Ok 1 else add_u64 (wal_no (last ws)) 1)"

definition add_file :: "nat \<Rightarrow> (sst, wal_error, unit) act" where
  "add_file wal_size =
     abind aget (\<lambda>(s, ws).
     abind (alift (next_wal_no (files ws))) (\<lambda>no.
     abind (alift (new_file no (base_path ws) 0 0 wal_size)) (\<lambda>w.
     athen (\<lambda>(s, ws). case create_file (s, w) of (r, (s', w')) \<Rightarrow> (r, (s', ws)))
     (athen (amod (\<lambda>(s, ws). (s, ws\<lparr>files := files ws @ [w]\<rparr>)))
     (if no = 1 then amod (\<lambda>(s, ws). (s, ws\<lparr>active := Some 0\<rparr>)) else aret ())))))"

section \<open>The check of the headers\<close>

definition header_bounds :: "wal_file \<Rightarrow> (wal_error, unit) res" where
  "header_bounds w =
     (if unwrap_or (data_end w) 0 > len_max w
      then Err (Integrity ''WAL data offset bigger than file size'') else Ok ())"

definition header_data :: "wal_file \<Rightarrow> (wal_error, unit) res" where
  "header_data w = (case data_start w of
     None \<Rightarrow> Ok ()
   | Some d_start \<Rightarrow>
       rbind (rassert (data_end w \<noteq> None)) (\<lambda>_.
       rbind (unwrap (data_end w)) (\<lambda>d_end.
       rbind (offset_logs w) (\<lambda>hdr.
       if d_start < hdr
       then Err (Integrity ''data_start cannot be smaller than header offset'')
       else if d_start = d_end
       then Err (Integrity ''data_start does not match data_end - data cannot fit'')
       else
         rbind (add_u32 d_start (8 + 4 + 4)) (\<lambda>e.
         if e > d_end
         then Err (Integrity ''data_start does not match data_end - data cannot fit'')
         else Ok ())))))"

fun check_headers :: "nat \<Rightarrow> nat \<Rightarrow> wal_file list \<Rightarrow> (wal_error, unit) res" where
  "check_headers no til [] = Ok ()"
| "check_headers no til (w # ws) =
     rbind (header_bounds w) (\<lambda>_.
     rbind (add_u64 no 1) (\<lambda>no'.
     if no' \<noteq> wal_no w then Err (Integrity ''Missing wal file no'')
     else if id_from w = 0 \<and> id_until w = 0 then Ok ()
     else if (data_start w \<noteq> None) \<noteq> (data_end w \<noteq> None)
     then Err (Integrity ''Invalid data_start / data_end values for WAL with data'')
     else
       rbind (header_data w) (\<lambda>_.
       rbind (add_u64 til 1) (\<lambda>til'.
       if til' \<noteq> id_from w then Err (Integrity ''Missing logs between IDs'')
       else check_headers (wal_no w) (id_until w) ws))))"

definition check_first :: "wal_file list \<Rightarrow> (wal_error, unit) res" where
  "check_first fs = (case fs of
     [] \<Rightarrow> Ok ()
   | w # ws \<Rightarrow>
       rbind (header_bounds w) (\<lambda>_.
       if id_from w > id_until w
       then Err (FileCorrupted ''id_from cannot be greater than id_until'')
       else check_headers (wal_no w) (id_until w) ws))"

definition parse_bool :: "string \<Rightarrow> bool option" where
  "parse_bool v = (if v = ''true'' then Some True else if v = ''false'' then Some False else None)"

definition check_integrity :: "bool \<Rightarrow> (bytes \<Rightarrow> bytes) \<Rightarrow> string option \<Rightarrow> bool \<Rightarrow> (sst, wal_error, unit) act"
  where
  "check_integrity auto_heal crc env deep =
     abind aget (\<lambda>(s, ws).
     if files ws = [] then aret ()
     else
       athen (alift (check_first (files ws)))
       (abind (alift (unwrap (parse_bool (unwrap_or env ''false'')))) (\<lambda>check.
        if deep \<or> check then
          on_active (athen map_file_mut (check_repair_data_integrity auto_heal crc))
        else aret ())))"

section \<open>Copies without maps\<close>

definition clone_no_map :: "wal_set \<Rightarrow> wal_set" where
  "clone_no_map ws = ws\<lparr>files := map clone_no_mmap (files ws)\<rparr>"

fun update_clones :: "wal_file list \<Rightarrow> wal_file list \<Rightarrow> (wal_error, wal_file list) res" where
  "update_clones [] upds = Ok (map clone_no_mmap upds)"
| "update_clones (f # fs) [] = Panic ''index out of bounds''"
| "update_clones (f # fs) (upd # upds) =
     rbind (rassert (wal_no f = wal_no upd)) (\<lambda>_.
     rbind (update_clones fs upds) (\<lambda>fs'.
     Ok (f\<lparr>id_from := id_from upd, id_until := id_until upd, data_start := data_start upd,
           data_end := data_end upd\<rparr> # fs')))"

definition clone_files_from_no_mmap :: "wal_set \<Rightarrow> wal_file list \<Rightarrow> (wal_error, wal_set) res" where
  "clone_files_from_no_mmap ws other =
     rbind (update_clones
              (filter (\<lambda>f. list_ex (\<lambda>upd. wal_no upd = wal_no f) other) (files ws)) other)
       (\<lambda>fs. Ok (ws\<lparr>files := fs\<rparr>))"

section \<open>Reading a directory\<close>

fun read_files :: "fs \<Rightarrow> string \<Rightarrow> string list \<Rightarrow> (wal_error, wal_file list) res" where
  "read_files s dir [] = Ok []"
| "read_files s dir (name # rest) =
     (case read_from_file s (dir @ ''/'' @ name) of
        Ok w \<Rightarrow> rbind (read_files s dir rest) (\<lambda>ws. Ok (w # ws))
      | Err e \<Rightarrow> read_files s dir rest
      | Panic p \<Rightarrow> Panic p)"

definition read_set :: "string \<Rightarrow> nat \<Rightarrow> (fs, wal_error, wal_set) act" where
  "read_set dir wal_size = (\<lambda>s.
     if faulty s (OpReadDir dir) then (Err IO, s)
     else
       (case read_files s dir (sort (filter (\<lambda>n. ends_with n ''.wal'') (dir_names s dir))) of
          Err e \<Rightarrow> (Err e, s)
        | Panic p \<Rightarrow> (Panic p, s)
        | Ok ws \<Rightarrow>
            if ws = [] then
              (case new_file 1 dir 0 0 wal_size of
                 Err e \<Rightarrow> (Err e, s)
               | Panic p \<Rightarrow> (Panic p, s)
               | Ok w \<Rightarrow>
                   (case create_file (s, w) of
                      (Ok _, (s', w')) \<Rightarrow>
                        (Ok \<lparr>active = Some 0, base_path = dir, files = [w']\<rparr>, s')
                    | (Err e, (s', w')) \<Rightarrow> (Err e, s')
                    | (Panic p, (s', w')) \<Rightarrow> (Panic p, s')))
            else (Ok \<lparr>active = Some (length ws - 1), base_path = dir, files = ws\<rparr>, s)))"

section \<open>Rolling over\<close>

definition unmap_file :: "(wst, wal_error, unit) act" where
  "unmap_file = amod (\<lambda>(s, w). (s, w\<lparr>mmap_mut := None, file_fd := None\<rparr>))"

definition roll_over :: "nat \<Rightarrow> (sst, wal_error, unit) act" where
  "roll_over wal_size =
     athen (aassert (\<lambda>(s, ws). files ws \<noteq> []))
     (athen (aassert (\<lambda>(s, ws). mmap_mut (last (files ws)) \<noteq> None))
     (abind (on_active (athen update_header (athen flush (athen unmap_file
               (abind aget (\<lambda>(s, w). aret (id_until w))))))) (\<lambda>last_id.
      athen (add_file wal_size)
     (athen (amod (\<lambda>(s, ws). (s, ws\<lparr>active := Some (length (files ws) - 1)\<rparr>)))
     (on_active
        (athen map_file_mut
        (abind (alift (add_u64 last_id 1)) (\<lambda>i.
         amod (\<lambda>(s, w). (s, w\<lparr>id_from := i, id_until := i\<rparr>))))))))))"

section \<open>Removing logs\<close>

definition remove_path :: "fs \<Rightarrow> string \<Rightarrow> (wal_error, unit) res \<times> fs" where
  "remove_path s p =
     (if faulty s (OpRemove p) \<or> fs_lookup s p = None then (Err IO, s) else (Ok (), fs_remove s p))"

text \<open>Both loops pop files while a condition on the end file holds, unlink each and drop it: from the
  front to purge, from the back (the reversed list) to truncate.\<close>

fun pop_files :: "(wal_file \<Rightarrow> bool) \<Rightarrow> fs \<Rightarrow> wal_file list \<Rightarrow>
    (wal_error, unit) res \<times> fs \<times> wal_file list" where
  "pop_files P s [] = (Ok (), s, [])"
| "pop_files P s (f # fs) =
     (if P f then
        (case remove_path s (path f) of
           (r, s1) \<Rightarrow>
             (case drop_file (s1, f) of
                (Panic p, (s2, f')) \<Rightarrow> (Panic p, s2, fs)
              | (_, (s2, f')) \<Rightarrow>
                  (case r of Ok _ \<Rightarrow> pop_files P s2 fs | _ \<Rightarrow> (r, s2, fs))))
      else (Ok (), s, f # fs))"

definition pop_front_files :: "nat \<Rightarrow> (sst, wal_error, unit) act" where
  "pop_front_files til = (\<lambda>(s, ws).
     case pop_files (\<lambda>f. id_until f < til) s (files ws) of
       (r, s', fs) \<Rightarrow> (r, (s', ws\<lparr>files := fs\<rparr>)))"

definition pop_back_files :: "nat \<Rightarrow> (sst, wal_error, unit) act" where
  "pop_back_files from = (\<lambda>(s, ws).
     case pop_files (\<lambda>f. id_from f > from) s (rev (files ws)) of
       (r, s', fs) \<Rightarrow> (r, (s', ws\<lparr>files := rev fs\<rparr>)))"

definition refill :: "nat \<Rightarrow> (sst, wal_error, unit) act" where
  "refill wal_size =
     abind aget (\<lambda>(s, ws).
     if files ws = [] then athen (add_file wal_size) (on_file 0 map_file_mut) else aret ())"

definition read_offset :: "(bytes \<Rightarrow> bytes) \<Rightarrow> nat \<Rightarrow> (wst, wal_error, nat) act" where
  "read_offset crc i =
     abind aget (\<lambda>(s, w). abind (alift (read_logs crc s w i i None)) (\<lambda>(off, memo, buf). aret off))"

definition purge_file :: "(bytes \<Rightarrow> bytes) \<Rightarrow> nat \<Rightarrow> (wst, wal_error, unit) act" where
  "purge_file crc til =
     abind aget (\<lambda>(s, w).
     if id_from w < til \<and> data_end w \<noteq> None then
       athen (aassert (\<lambda>_. id_until w \<ge> til))
       (athen map_file_mut
       (abind (read_offset crc til) (\<lambda>off.
        amod (\<lambda>(s, w). (s, w\<lparr>id_from := til, data_start := Some off\<rparr>)))))
     else aret ())"

definition truncate_file :: "(bytes \<Rightarrow> bytes) \<Rightarrow> nat \<Rightarrow> (wst, wal_error, unit) act" where
  "truncate_file crc from =
     abind aget (\<lambda>(s, w).
     if id_from w = from then
       amod (\<lambda>(s, w). (s, w\<lparr>id_until := from, data_start := None, data_end := None\<rparr>))
     else if id_until w \<ge> from then
       athen map_file_mut
       (abind (read_offset crc from) (\<lambda>off.
        abind (alift (sub_u from 1)) (\<lambda>til.
        abind (alift (sub_u off 1)) (\<lambda>e.
        amod (\<lambda>(s, w). (s, w\<lparr>id_until := til, data_end := Some e\<rparr>))))))
     else aret ())"

definition shift_delete_logs :: "(bytes \<Rightarrow> bytes) \<Rightarrow> nat \<Rightarrow> nat \<Rightarrow> nat \<Rightarrow> (sst, wal_error, unit) act" where
  "shift_delete_logs crc from til wal_size =
     athen (aassert (\<lambda>(s, ws). files ws \<noteq> []))
     (abind aget (\<lambda>(s, ws).
      athen
        (if from \<le> id_from (hd (files ws)) then
           athen (pop_front_files til)
           (athen (refill wal_size)
           (on_file 0 (purge_file crc til)))
         else if til \<ge> id_until (last (files ws)) then
           athen (pop_back_files from)
           (athen (refill wal_size)
           (abind aget (\<lambda>(s, ws). on_file (length (files ws) - 1) (truncate_file crc from))))
         else aret ())
        (amod (\<lambda>(s, ws). (s, ws\<lparr>active := Some (length (files ws) - 1)\<rparr>)))))"

end
