(* ===== verification/Wal_Set_Props.thy ===== *)
theory Wal_Set_Props
  imports Wal_Set
begin

text \<open>
  What the set of write-ahead log files promises. \<open>set_ok crc s ws lss\<close> relates a set to the list of
  the log entries of each file: file names and numbers are consecutive, log ids continue from file to
  file, only the last file may be empty and it is the active one, and the directory holds no other
  write-ahead log file. \<open>sealed\<close> adds that every file but the active one is durable. Rolling over,
  appending, purging and truncating keep these, and the concatenation of the entries changes as the
  abstract log does.
\<close>

section \<open>A file and a set of files on the file system\<close>

definition file_in :: "(bytes \<Rightarrow> bytes) \<Rightarrow> fs \<Rightarrow> string \<Rightarrow> wal_file \<Rightarrow> logs \<Rightarrow> bool" where
  "file_in crc s base w ls \<longleftrightarrow> path w = wal_path base (wal_no w) \<and> 0 < wal_no w \<and>
     (ls = [] \<longrightarrow> id_until w = id_from w) \<and>
     (\<exists>i. fs_lookup s (path w) = Some i \<and> mmap w = None \<and> (mmap_mut w = None \<or> mmap_mut w = Some i) \<and>
          file_fd w = mmap_mut w \<and> file_logs crc w (ino_bytes s i) ls)"

definition next_file :: "wal_file \<Rightarrow> wal_file \<Rightarrow> bool" where
  "next_file a b \<longleftrightarrow> data_end a \<noteq> None \<and> id_from b = Suc (id_until a) \<and> wal_no b = Suc (wal_no a)"

definition dir_ok :: "fs \<Rightarrow> wal_set \<Rightarrow> bool" where
  "dir_ok s ws \<longleftrightarrow> (\<forall>no. fs_lookup s (wal_path (base_path ws) no) \<noteq> None \<longleftrightarrow> no \<in> wal_no ` set (files ws))"

definition set_ok :: "(bytes \<Rightarrow> bytes) \<Rightarrow> fs \<Rightarrow> wal_set \<Rightarrow> logs list \<Rightarrow> bool" where
  "set_ok crc s ws lss \<longleftrightarrow> fs_ok s \<and> base_path ws \<noteq> [] \<and> files ws \<noteq> [] \<and>
     active ws = Some (length (files ws) - 1) \<and> dir_ok s ws \<and>
     list_all2 (file_in crc s (base_path ws)) (files ws) lss \<and> successively next_file (files ws)"

text \<open>The records of a file are durable when the bytes that survive a crash hold them.\<close>

definition dur :: "(bytes \<Rightarrow> bytes) \<Rightarrow> fs \<Rightarrow> wal_file \<Rightarrow> logs \<Rightarrow> bool" where
  "dur crc s w ls \<longleftrightarrow> ls \<noteq> [] \<longrightarrow>
     (\<exists>i. fs_lookup s (path w) = Some i \<and> file_logs crc w (ino_durable s i) ls)"

lemma digits_pad16: "digits_acc 0 (pad16 no) = Some no"
  by (simp add: pad16_def digit_0 [symmetric] digits_acc_zeros digits_acc_to_string)

lemma wal_path_inj: "wal_path base no = wal_path base no' \<longleftrightarrow> no = no'"
proof
  assume "wal_path base no = wal_path base no'"
  then have "pad16 no = pad16 no'" by (simp only: wal_path_def same_append_eq append_same_eq)
  then have "digits_acc 0 (pad16 no) = digits_acc 0 (pad16 no')" by (rule arg_cong)
  then show "no = no'" unfolding digits_pad16 by (rule option.inject [THEN iffD1])
qed (rule arg_cong)

lemma next_file_less: "successively next_file ws \<Longrightarrow> sorted_wrt (\<lambda>a b. wal_no a < wal_no b) ws"
proof -
  assume "successively next_file ws"
  then have "successively (\<lambda>a b. wal_no a < wal_no b) ws"
    by (rule successively_mono) (simp add: next_file_def)
  then show ?thesis by (subst (asm) successively_conv_sorted_wrt) (auto simp: transp_def)
qed

lemma file_in_lookup_inj:
  assumes "fs_ok s" and "file_in crc s base w l" and "file_in crc s base w' l'" and "wal_no w \<noteq> wal_no w'"
    and "fs_lookup s (path w) = Some i"
  shows "fs_lookup s (path w') \<noteq> Some i"
proof
  assume "fs_lookup s (path w') = Some i"
  then have "path w = path w'" using assms(1,5) unfolding fs_ok_def by blast
  then show False using assms(2,3,4) by (auto simp: file_in_def wal_path_inj)
qed

lemma file_in_write:
  assumes "file_in crc s base w l" and "fs_lookup s (path w) \<noteq> Some i"
  shows "file_in crc (ino_write s i bs) base w l"
  using assms by (auto simp: file_in_def fs_simps)

lemma file_in_sync: "file_in crc (ino_sync s i) base w l = file_in crc s base w l"
  by (simp add: file_in_def fs_simps)

lemma file_in_create:
  assumes "file_in crc s base w l" and "fs_ok s" and "path w \<noteq> p"
  shows "file_in crc (fs_create s p bs) base w l"
  using assms fs_ok_fresh [OF assms(2), of "path w"] by (auto simp: file_in_def fs_simps)

lemma file_in_remove:
  assumes "file_in crc s base w l" and "path w \<noteq> p"
  shows "file_in crc (fs_remove s p) base w l"
  using assms by (auto simp: file_in_def fs_simps)

lemma dur_write: "dur crc (ino_write s i bs) w l = dur crc s w l"
  by (simp add: dur_def fs_simps)

lemma dur_create:
  assumes "dur crc s w l" and "fs_ok s" and "path w \<noteq> p"
  shows "dur crc (fs_create s p bs) w l"
  using assms fs_ok_fresh [OF assms(2), of "path w"] by (auto simp: dur_def fs_simps)

lemma dur_remove:
  "dur crc s w l \<Longrightarrow> path w \<noteq> p \<Longrightarrow> dur crc (fs_remove s p) w l"
  by (auto simp: dur_def fs_simps)

lemma dur_sync:
  assumes "dur crc s w l" and "fs_lookup s (path w) \<noteq> Some i"
  shows "dur crc (ino_sync s i) w l"
  using assms by (auto simp: dur_def fs_simps)

lemma dur_sync_same:
  assumes "file_in crc s base w l" and "fs_lookup s (path w) = Some i"
  shows "dur crc (ino_sync s i) w l"
  using assms by (auto simp: dur_def file_in_def fs_simps)

section \<open>Adding a file\<close>

definition no_faults :: "fs \<Rightarrow> bool" where
  "no_faults s \<longleftrightarrow> (\<forall>op. \<not> faulty s op)"

definition size_ok :: "nat \<Rightarrow> bool" where
  "size_ok n \<longleftrightarrow> min_wal_size \<le> n \<and> n < u32_max"

definition new_wal :: "string \<Rightarrow> nat \<Rightarrow> nat \<Rightarrow> wal_file" where
  "new_wal base no wal_size =
     \<lparr>version = 1, wal_no = no, path = wal_path base no, id_from = 0, id_until = 0,
      data_start = None, data_end = None, len_max = wal_size, mmap = None, mmap_mut = None, file_fd = None\<rparr>"

definition fresh_fs :: "fs \<Rightarrow> wal_file \<Rightarrow> fs" where
  "fresh_fs s w = ino_write (fs_create s (path w) (replicate (len_max w) 0)) (next_ino s)
     (overwrite (replicate (len_max w) 0) 0 (header w))"

lemma new_wal_simps [simp]:
  "version (new_wal base no n) = 1" "wal_no (new_wal base no n) = no"
  "path (new_wal base no n) = wal_path base no" "len_max (new_wal base no n) = n"
  "data_start (new_wal base no n) = None" "data_end (new_wal base no n) = None"
  "mmap (new_wal base no n) = None" "mmap_mut (new_wal base no n) = None"
  "file_fd (new_wal base no n) = None"
  by (simp_all add: new_wal_def)

lemma new_file_eq:
  assumes "base \<noteq> []" and "size_ok n" and "no < 10 ^ 16"
  shows "new_file no base 0 0 n = Ok (new_wal base no n)"
proof -
  have "length (to_string no) \<le> 16" using length_to_string [of no 15] assms(3) by simp
  then show ?thesis
    using assms by (simp add: new_file_def build_full_path_eq size_ok_def new_wal_def)
qed

lemma size_ok_32: "size_ok n \<Longrightarrow> 32 < n \<and> n < u32_max"
  by (simp add: size_ok_def min_wal_size_def)

lemma create_file_eq:
  assumes "version w = 1" and "32 \<le> len_max w" and "fs_lookup s (path w) = None"
  shows "create_file (s, w) =
     (if faulty s (OpCreate (path w)) then (Err IO, (s, w))
      else (if faulty s (OpWriteback (next_ino s)) then Err IO else Ok (), (fresh_fs s w, w)))"
  using assms by (simp add: create_file_def build_header_eq length_header fresh_fs_def Let_def fs_simps)

lemma fresh_fs_simps [fs_simps]:
  "fs_lookup (fresh_fs s w) p = (if p = path w then Some (next_ino s) else fs_lookup s p)"
  "ino_bytes (fresh_fs s w) i =
     (if i = next_ino s then overwrite (replicate (len_max w) 0) 0 (header w) else ino_bytes s i)"
  "faulty (fresh_fs s w) = faulty s"
  "inodes (fresh_fs s w) i = None \<longleftrightarrow> i \<noteq> next_ino s \<and> inodes s i = None"
  by (simp_all add: fresh_fs_def fs_simps)

lemma fs_ok_fresh_fs: "fs_ok s \<Longrightarrow> fs_ok (fresh_fs s w)"
  by (simp add: fresh_fs_def fs_simps fs_ok_create)

lemma file_in_fresh_fs:
  assumes "file_in crc s base v l" and "fs_ok s" and "path v \<noteq> path w"
  shows "file_in crc (fresh_fs s w) base v l"
proof -
  have "fs_lookup s (path v) \<noteq> Some (next_ino s)" using fs_ok_fresh [OF assms(2)] .
  then show ?thesis
    unfolding fresh_fs_def using assms
    by (intro file_in_write file_in_create) (auto simp: fs_simps)
qed

lemma dur_fresh_fs:
  assumes "dur crc s v l" and "fs_ok s" and "path v \<noteq> path w"
  shows "dur crc (fresh_fs s w) v l"
  using dur_create [OF assms] by (simp add: fresh_fs_def dur_write)

lemma file_in_fresh:
  assumes "size_ok n" and "0 < no" and "m = None \<or> m = Some (next_ino s)"
  shows "file_in crc (fresh_fs s (new_wal base no n)) base
     ((new_wal base no n)\<lparr>mmap_mut := m, file_fd := m, id_from := i, id_until := i\<rparr>) []"
  using assms size_ok_32 [OF assms(1)]
  by (auto simp: file_in_def fs_simps file_logs_def length_overwrite length_header)

lemma add_file_eq:
  assumes "base_path ws \<noteq> []" and "size_ok n" and "next_wal_no (files ws) = Ok no" and "no < 10 ^ 16"
    and "fs_lookup s (wal_path (base_path ws) no) = None"
  defines "w \<equiv> new_wal (base_path ws) no n"
  shows "add_file n (s, ws) =
     (if faulty s (OpCreate (path w)) then (Err IO, (s, ws))
      else if faulty s (OpWriteback (next_ino s)) then (Err IO, (fresh_fs s w, ws))
      else (Ok (), (fresh_fs s w, ws\<lparr>files := files ws @ [w],
                                     active := if no = 1 then Some 0 else active ws\<rparr>)))"
  using assms size_ok_32 [OF assms(2)]
  by (simp add: add_file_def act_simps new_file_eq create_file_eq)

section \<open>Rolling over\<close>

lemma on_file_eq:
  "i < length (files ws) \<Longrightarrow> on_file i m (s, ws) =
     (case m (s, files ws ! i) of (r, (s', w)) \<Rightarrow> (r, (s', ws\<lparr>files := (files ws)[i := w]\<rparr>)))"
  by (simp add: on_file_def)

lemma on_active_eq:
  "active ws = Some i \<Longrightarrow> i < length (files ws) \<Longrightarrow> on_active m (s, ws) =
     (case m (s, files ws ! i) of (r, (s', w)) \<Rightarrow> (r, (s', ws\<lparr>files := (files ws)[i := w]\<rparr>)))"
  by (simp add: on_active_def act_simps active_idx_def on_file_def)

lemma flush_eq:
  "mmap_mut w = Some i \<Longrightarrow>
   flush (s, w) = (if faulty s (OpSync i) then (Err IO, (s, w)) else (Ok (), (ino_sync s i, w)))"
  by (simp add: flush_def)

text \<open>Rolling over writes the header of the active file, flushes it, unmaps it and appends a fresh,
  mapped file; \<open>seal\<close> is the file system after the first half.\<close>

definition seal :: "fs \<Rightarrow> wal_file \<Rightarrow> nat \<Rightarrow> fs" where
  "seal s w i = ino_sync (ino_write s i (overwrite (ino_bytes s i) 0 (header w))) i"

definition rolled :: "string \<Rightarrow> nat \<Rightarrow> fs \<Rightarrow> wal_file \<Rightarrow> wal_file" where
  "rolled base n s w = (new_wal base (Suc (wal_no w)) n)
     \<lparr>mmap_mut := Some (next_ino s), file_fd := Some (next_ino s),
      id_from := Suc (id_until w), id_until := Suc (id_until w)\<rparr>"

lemma seal_simps [fs_simps]:
  "fs_lookup (seal s w i) p = fs_lookup s p"
  "faulty (seal s w i) = faulty s"
  "next_ino (seal s w i) = next_ino s"
  "fs_ok (seal s w i) = fs_ok s"
  "ino_bytes (seal s w i) j =
     (if j = i \<and> inodes s i \<noteq> None then overwrite (ino_bytes s i) 0 (header w) else ino_bytes s j)"
  by (simp_all add: seal_def fs_simps)

lemma roll_over_eq:
  assumes ws: "files ws = vs @ [w]" "active ws = Some (length vs)" "base_path ws \<noteq> []"
    and m: "mmap_mut w = Some i" and w: "version w = 1" "32 \<le> length (ino_bytes s i)"
    and n: "size_ok n" "Suc (wal_no w) < 10 ^ 16" "0 < wal_no w" "id_until w < u64_max"
    and free: "fs_lookup s (wal_path (base_path ws) (Suc (wal_no w))) = None"
  defines "s' \<equiv> fresh_fs (seal s w i) (new_wal (base_path ws) (Suc (wal_no w)) n)"
  shows "(\<exists>s'' ws'. roll_over n (s, ws) = (Err IO, (s'', ws')) \<and> \<not> no_faults s) \<or>
     roll_over n (s, ws) = (Ok (), (s', ws\<lparr>files := vs @ [w\<lparr>mmap_mut := None, file_fd := None\<rparr>,
        rolled (base_path ws) n s w], active := Some (Suc (length vs))\<rparr>))"
proof -
  let ?w0 = "w\<lparr>mmap_mut := None, file_fd := None\<rparr>"
  let ?ws1 = "ws\<lparr>files := vs @ [?w0]\<rparr>"
  let ?nw = "new_wal (base_path ws) (Suc (wal_no w)) n"
  have first: "on_active (athen update_header (athen flush (athen unmap_file
               (abind aget (\<lambda>(s, w). aret (id_until w)))))) (s, ws) =
      (if faulty s (OpSync i)
       then (Err IO, (ino_write s i (overwrite (ino_bytes s i) 0 (header w)), ws))
       else (Ok (id_until w), (seal s w i, ?ws1)))"
    using ws m w
    by (simp add: on_active_eq act_simps update_header_eq flush_eq unmap_file_def seal_def fs_simps
        list_update_append)
  have no: "next_wal_no (files ?ws1) = Ok (Suc (wal_no w))"
  proof -
    have "(10::nat) ^ 16 \<le> u64_max" by (simp add: u64_max_def)
    then show ?thesis using n(2) by (simp add: next_wal_no_def add_u64_eq)
  qed
  note add = add_file_eq [of ?ws1 n "Suc (wal_no w)" "seal s w i", OF _ n(1) no n(2)]
  have last: "on_active
        (athen map_file_mut
        (abind (alift (add_u64 (id_until w) 1)) (\<lambda>i.
         amod (\<lambda>(s, w). (s, w\<lparr>id_from := i, id_until := i\<rparr>)))))
      (s', ws\<lparr>files := vs @ [?w0, ?nw], active := Some (Suc (length vs))\<rparr>) =
      (if faulty s (OpOpen (path ?nw))
       then (Err IO, (s', ws\<lparr>files := vs @ [?w0, ?nw], active := Some (Suc (length vs))\<rparr>))
       else (Ok (), (s', ws\<lparr>files := vs @ [?w0, rolled (base_path ws) n s w],
                           active := Some (Suc (length vs))\<rparr>)))"
    using n(4)
    by (simp add: on_active_eq act_simps map_file_mut_def fs_open_def s'_def fs_simps add_u64_eq
        rolled_def nth_append list_update_append)
  show ?thesis
    using ws m n(3) free no_faults_def [of s]
    unfolding roll_over_def
    by (auto simp: act_simps first add fs_simps last [unfolded s'_def] s'_def simp del: One_nat_def)
qed

section \<open>Changing the last file\<close>

text \<open>\<open>same_but s s' i\<close>: nothing but the inode \<open>i\<close> differs.\<close>

definition same_but :: "fs \<Rightarrow> fs \<Rightarrow> nat \<Rightarrow> bool" where
  "same_but s s' i \<longleftrightarrow> (\<forall>p. fs_lookup s' p = fs_lookup s p) \<and> fs_ok s' = fs_ok s \<and>
     faulty s' = faulty s \<and>
     (\<forall>j. j \<noteq> i \<longrightarrow> ino_bytes s' j = ino_bytes s j \<and> ino_durable s' j = ino_durable s j)"

lemma same_but_refl [simp]: "same_but s s i"
  by (simp add: same_but_def)

lemma same_but_write: "same_but s s' i \<Longrightarrow> same_but s (ino_write s' i bs) i"
  by (auto simp: same_but_def fs_simps)

lemma same_but_sync: "same_but s s' i \<Longrightarrow> same_but s (ino_sync s' i) i"
  by (auto simp: same_but_def fs_simps)

lemma same_but_trans: "same_but s s' i \<Longrightarrow> same_but s' s'' i \<Longrightarrow> same_but s s'' i"
  by (auto simp: same_but_def)

lemma file_in_frame:
  assumes "file_in crc s base v l" and "same_but s s' i" and "fs_lookup s (path v) \<noteq> Some i"
  shows "file_in crc s' base v l"
  using assms by (auto simp: file_in_def same_but_def)

lemma dur_frame:
  assumes "dur crc s v l" and "same_but s s' i" and "fs_lookup s (path v) \<noteq> Some i"
  shows "dur crc s' v l"
  using assms by (auto simp: dur_def same_but_def)

definition others :: "fs \<Rightarrow> wal_file list \<Rightarrow> wal_file \<Rightarrow> bool" where
  "others s vs w \<longleftrightarrow> (\<forall>v \<in> set vs. path v \<noteq> path w \<and> fs_lookup s (path v) \<noteq> fs_lookup s (path w))"

lemma set_ok_others:
  assumes ok: "set_ok crc s ws lss" and fs: "files ws = vs @ w # us"
  shows "others s (vs @ us) w"
  unfolding others_def
proof
  fix v assume v: "v \<in> set (vs @ us)"
  have fin: "list_all2 (file_in crc s (base_path ws)) (files ws) lss" "fs_ok s"
    using ok by (simp_all add: set_ok_def)
  obtain l where l: "file_in crc s (base_path ws) w l"
    using fin(1) by (rule list_all2_obtain [of _ _ _ w]) (simp add: fs)
  obtain l' where l': "file_in crc s (base_path ws) v l'"
    using fin(1) by (rule list_all2_obtain [of _ _ _ v]) (use v fs in auto)
  have "sorted_wrt (\<lambda>a b. wal_no a < wal_no b) (files ws)"
    using ok by (intro next_file_less) (simp add: set_ok_def)
  then have no: "wal_no v \<noteq> wal_no w"
    using v by (auto simp: fs sorted_wrt_append)
  then have "path v \<noteq> path w" using l l' by (simp add: file_in_def wal_path_inj)
  moreover obtain i where i: "fs_lookup s (path w) = Some i" using l by (auto simp: file_in_def)
  then have "fs_lookup s (path v) \<noteq> Some i"
    using file_in_lookup_inj [OF fin(2) l l'] no by simp
  ultimately show "path v \<noteq> path w \<and> fs_lookup s (path v) \<noteq> fs_lookup s (path w)"
    using i by simp
qed

lemma set_ok_snocE:
  assumes "set_ok crc s ws lss"
  obtains vs w pre l where "files ws = vs @ [w]" "lss = pre @ [l]"
    "list_all2 (file_in crc s (base_path ws)) vs pre" "file_in crc s (base_path ws) w l"
    "active ws = Some (length vs)"
proof -
  obtain vs w where vs: "files ws = vs @ [w]"
    using assms by (cases "files ws" rule: rev_cases) (auto simp: set_ok_def)
  then obtain pre l where "lss = pre @ [l]" "list_all2 (file_in crc s (base_path ws)) vs pre"
      "file_in crc s (base_path ws) w l"
    using assms by (auto simp: set_ok_def list_all2_append1 list_all2_Cons1)
  then show ?thesis
    using that vs assms by (simp add: set_ok_def)
qed

lemma successively_last:
  assumes "successively next_file (vs @ [w])" and "wal_no w' = wal_no w"
    and "vs \<noteq> [] \<Longrightarrow> id_from w' = id_from w"
  shows "successively next_file (vs @ [w'])"
  using assms by (auto simp: successively_append_iff next_file_def)

lemma set_ok_update_last:
  assumes ok: "set_ok crc s ws (pre @ [l])" and fs: "files ws = vs @ [w]"
    and i: "fs_lookup s (path w) = Some i" and sb: "same_but s s' i"
    and w': "wal_no w' = wal_no w" "vs \<noteq> [] \<Longrightarrow> id_from w' = id_from w"
    and new: "file_in crc s' (base_path ws) w' l'"
  shows "set_ok crc s' (ws\<lparr>files := vs @ [w']\<rparr>) (pre @ [l'])"
proof -
  have oth: "fs_lookup s (path v) \<noteq> Some i" if "v \<in> set vs" for v
    using set_ok_others [OF ok, of vs w "[]"] fs i that by (simp add: others_def)
  have "list_all2 (file_in crc s (base_path ws)) vs pre"
    using ok by (auto simp: set_ok_def fs list_all2_append1 list_all2_Cons1)
  then have "list_all2 (file_in crc s' (base_path ws)) vs pre"
    by (rule list_all2_imp) (use oth file_in_frame [OF _ sb] in blast)
  moreover have "successively next_file (vs @ [w'])"
    using ok fs w' by (auto simp: set_ok_def intro: successively_last)
  moreover have "dir_ok s' (ws\<lparr>files := vs @ [w']\<rparr>)"
    using ok sb w'(1) fs by (simp add: set_ok_def dir_ok_def same_but_def)
  ultimately show ?thesis
    using ok sb new fs by (simp add: set_ok_def list_all2_appendI same_but_def)
qed

definition sealed :: "(bytes \<Rightarrow> bytes) \<Rightarrow> fs \<Rightarrow> wal_set \<Rightarrow> logs list \<Rightarrow> bool" where
  "sealed crc s ws lss \<longleftrightarrow> list_all2 (dur crc s) (butlast (files ws)) (butlast lss)"

lemma sealed_update_last:
  assumes ok: "set_ok crc s ws (pre @ [l])" and fs: "files ws = vs @ [w]"
    and i: "fs_lookup s (path w) = Some i" and sb: "same_but s s' i"
    and sl: "sealed crc s ws (pre @ [l])"
  shows "sealed crc s' (ws\<lparr>files := vs @ [w']\<rparr>) (pre @ [l'])"
proof -
  have oth: "fs_lookup s (path v) \<noteq> Some i" if "v \<in> set vs" for v
    using set_ok_others [OF ok, of vs w "[]"] fs i that by (simp add: others_def)
  have "list_all2 (dur crc s') vs pre"
    using sl fs by (simp add: sealed_def, elim list_all2_imp) (use oth dur_frame [OF _ sb] in blast)
  then show ?thesis by (simp add: sealed_def)
qed

lemma set_ok_path_free:
  assumes "set_ok crc s ws lss" and "files ws = vs @ [w]"
  shows "fs_lookup s (wal_path (base_path ws) (Suc (wal_no w))) = None"
proof (rule ccontr)
  assume "fs_lookup s (wal_path (base_path ws) (Suc (wal_no w))) \<noteq> None"
  then have "Suc (wal_no w) \<in> wal_no ` set (files ws)"
    using assms(1) by (simp add: set_ok_def dir_ok_def)
  moreover have "sorted_wrt (\<lambda>a b. wal_no a < wal_no b) (files ws)"
    using assms(1) by (intro next_file_less) (simp add: set_ok_def)
  ultimately show False using assms(2) by (force simp: sorted_wrt_append)
qed

lemma set_ok_paths:
  assumes "set_ok crc s ws lss" and "v \<in> set (files ws)" and "fs_lookup s p = None"
  shows "path v \<noteq> p"
proof -
  obtain l where "file_in crc s (base_path ws) v l"
    using assms(1,2) unfolding set_ok_def by (metis list_all2_obtain)
  then show ?thesis using assms(3) by (auto simp: file_in_def)
qed

lemma set_ok_add:
  assumes ok: "set_ok crc s ws lss" and fs: "files ws = vs @ [w]" and ne: "data_end w \<noteq> None"
    and p: "path fw = wal_path (base_path ws) (Suc (wal_no w))"
    and nw: "wal_no nw = Suc (wal_no w)" "id_from nw = Suc (id_until w)"
    and new: "file_in crc (fresh_fs s fw) (base_path ws) nw []"
  shows "set_ok crc (fresh_fs s fw) (ws\<lparr>files := files ws @ [nw], active := Some (length (files ws))\<rparr>)
     (lss @ [[]])"
proof -
  have free: "fs_lookup s (path fw) = None" using set_ok_path_free [OF ok fs] p by simp
  have fsok: "fs_ok s" using ok by (simp add: set_ok_def)
  have "list_all2 (file_in crc s (base_path ws)) (files ws) lss" using ok by (simp add: set_ok_def)
  then have "list_all2 (file_in crc (fresh_fs s fw) (base_path ws)) (files ws) lss"
    by (rule list_all2_imp) (use set_ok_paths [OF ok _ free] file_in_fresh_fs [OF _ fsok] in blast)
  moreover have "successively next_file (files ws @ [nw])"
    using ok fs ne nw by (simp add: set_ok_def successively_append_iff next_file_def)
  moreover have "dir_ok (fresh_fs s fw)
      (ws\<lparr>files := files ws @ [nw], active := Some (length (files ws))\<rparr>)"
    using ok nw(1) p by (simp add: set_ok_def dir_ok_def fs_simps wal_path_inj)
  ultimately show ?thesis
    using ok new by (simp add: set_ok_def list_all2_appendI fs_ok_fresh_fs)
qed

text \<open>What the writer may rely on between two requests.\<close>

definition set_inv :: "(bytes \<Rightarrow> bytes) \<Rightarrow> fs \<Rightarrow> wal_set \<Rightarrow> logs list \<Rightarrow> bool" where
  "set_inv crc s ws lss \<longleftrightarrow>
     set_ok crc s ws lss \<and> sealed crc s ws lss \<and> mmap_mut (last (files ws)) \<noteq> None"

lemma set_inv_last:
  assumes "set_inv crc s ws lss" and "files ws = vs @ [w]" and "lss = pre @ [l]"
  obtains i where "fs_lookup s (path w) = Some i" "mmap_mut w = Some i" "inodes s i \<noteq> None"
    "mmap w = None" "file_fd w = Some i" "file_logs crc w (ino_bytes s i) l" "0 < wal_no w"
    "path w = wal_path (base_path ws) (wal_no w)" "l = [] \<longrightarrow> id_until w = id_from w"
proof -
  have "file_in crc s (base_path ws) w l"
    using assms by (simp add: set_inv_def set_ok_def list_all2_snoc)
  moreover have "fs_ok s" using assms(1) by (simp add: set_inv_def set_ok_def)
  ultimately show ?thesis
    using assms(1,2) that by (auto simp: file_in_def set_inv_def fs_ok_def)
qed

lemma roll_over_spec:
  assumes inv: "set_inv crc s ws (pre @ [l])" and fs: "files ws = vs @ [w]" and ne: "l \<noteq> []"
    and n: "size_ok n" "Suc (wal_no w) < 10 ^ 16" "id_until w < u64_max"
  obtains (failed) s' ws' where "roll_over n (s, ws) = (Err IO, (s', ws'))" "\<not> no_faults s"
  | (rolled) s' ws' w0 nw where "roll_over n (s, ws) = (Ok (), (s', ws'))"
      "set_inv crc s' ws' (pre @ [l, []])" "files ws' = vs @ [w0, nw]" "base_path ws' = base_path ws"
      "len_max nw = n" "wal_no nw = Suc (wal_no w)" "id_from nw = Suc (id_until w)" "faulty s' = faulty s"
      "id_until nw = Suc (id_until w)" "w0 = w\<lparr>mmap_mut := None, file_fd := None\<rparr>"
proof -
  have ok: "set_ok crc s ws (pre @ [l])" and sl: "sealed crc s ws (pre @ [l])"
    using inv by (simp_all add: set_inv_def)
  obtain i where i: "fs_lookup s (path w) = Some i" "mmap_mut w = Some i" "inodes s i \<noteq> None"
      "mmap w = None" "file_fd w = Some i" "file_logs crc w (ino_bytes s i) l" "0 < wal_no w"
      "path w = wal_path (base_path ws) (wal_no w)"
    using set_inv_last [OF inv fs refl] by blast
  have act: "active ws = Some (length vs)" "base_path ws \<noteq> []" "fs_ok s"
    using ok fs by (simp_all add: set_ok_def)
  have fl: "version w = 1" "32 \<le> length (ino_bytes s i)" "data_end w \<noteq> None" "length (ino_bytes s i) = len_max w"
    using i(6) ne by (auto simp: file_logs_def)
  define w0 where "w0 = w\<lparr>mmap_mut := None, file_fd := None\<rparr>"
  define s1 where "s1 = seal s w i"
  define ws1 where "ws1 = ws\<lparr>files := vs @ [w0]\<rparr>"
  define fw where "fw = new_wal (base_path ws) (Suc (wal_no w)) n"
  define nw where "nw = rolled (base_path ws) n s w"
  have sb: "same_but s s1 i" by (simp add: s1_def seal_def same_but_sync same_but_write)
  have logs0: "file_logs crc w0 (overwrite (ino_bytes s i) 0 (header w)) l"
    using i(6) ne fl(2)
    by (auto simp: file_logs_def w0_def length_overwrite length_header recs_at_overwrite_header
        simp del: upt_Suc)
  have in0: "file_in crc s1 (base_path ws) w0 l"
    using i logs0 ne by (simp add: file_in_def s1_def fs_simps) (simp add: w0_def)
  have ok1: "set_ok crc s1 ws1 (pre @ [l])"
    unfolding ws1_def by (rule set_ok_update_last [OF ok fs i(1) sb _ _ in0]) (simp_all add: w0_def)
  have sl1: "sealed crc s1 ws1 (pre @ [l])"
    unfolding ws1_def by (rule sealed_update_last [OF ok fs i(1) sb sl])
  have dur0: "dur crc s1 w0 l"
    using i(1,3) logs0 by (simp add: dur_def s1_def seal_def fs_simps) (simp add: w0_def)
  have fs1: "files ws1 = vs @ [w0]" by (simp add: ws1_def)
  have nwf: "wal_no nw = Suc (wal_no w0)" "id_from nw = Suc (id_until w0)" "len_max nw = n"
      "id_until nw = Suc (id_until w)" "mmap_mut nw \<noteq> None"
    by (simp_all add: nw_def rolled_def w0_def)
  have "file_in crc (fresh_fs s1 fw) (base_path ws) nw []"
    unfolding nw_def rolled_def fw_def
    using n(1) by (intro file_in_fresh) (simp_all add: s1_def fs_simps)
  then have ok2: "set_ok crc (fresh_fs s1 fw)
      (ws1\<lparr>files := files ws1 @ [nw], active := Some (length (files ws1))\<rparr>) ((pre @ [l]) @ [[]])"
    using fl(3) nwf by (intro set_ok_add [OF ok1 fs1]) (simp_all add: w0_def ws1_def fw_def)
  have free: "fs_lookup s1 (path fw) = None"
    using set_ok_path_free [OF ok fs] by (simp add: fw_def s1_def fs_simps)
  have "list_all2 (dur crc s1) (files ws1) (pre @ [l])"
    using sl1 dur0 by (simp add: sealed_def fs1 list_all2_appendI)
  then have "list_all2 (dur crc (fresh_fs s1 fw)) (files ws1) (pre @ [l])"
    by (rule list_all2_imp) (use set_ok_paths [OF ok1 _ free] dur_fresh_fs act(3) in
      \<open>auto simp: s1_def fs_simps\<close>)
  then have inv2: "set_inv crc (fresh_fs s1 fw)
      (ws1\<lparr>files := files ws1 @ [nw], active := Some (length (files ws1))\<rparr>) (pre @ [l, []])"
    using ok2 nwf(5) by (simp add: set_inv_def sealed_def butlast_append)
  from roll_over_eq [OF fs act(1,2) i(2) fl(1,2) n(1,2) i(7) n(3) set_ok_path_free [OF ok fs]]
  show thesis
  proof (elim disjE exE conjE)
    fix s'' ws' assume "roll_over n (s, ws) = (Err IO, (s'', ws'))" "\<not> no_faults s"
    then show thesis by (rule failed)
  next
    assume "roll_over n (s, ws) = (Ok (), (fresh_fs (seal s w i) (new_wal (base_path ws) (Suc (wal_no w)) n),
        ws\<lparr>files := vs @ [w\<lparr>mmap_mut := None, file_fd := None\<rparr>, rolled (base_path ws) n s w],
           active := Some (Suc (length vs))\<rparr>))"
    then have "roll_over n (s, ws) = (Ok (), (fresh_fs s1 fw,
        ws1\<lparr>files := files ws1 @ [nw], active := Some (length (files ws1))\<rparr>))"
      by (simp add: s1_def fw_def ws1_def w0_def nw_def)
    then show thesis
      by (rule rolled [OF _ inv2, of w0 nw])
         (use nwf in \<open>simp_all add: fs1 ws1_def fw_def s1_def fs_simps w0_def\<close>)
  qed
qed

section \<open>Popping files\<close>

text \<open>\<open>popped s s' ps\<close>: the files \<open>ps\<close> are unlinked and nothing that is still linked has changed.\<close>

definition popped :: "fs \<Rightarrow> fs \<Rightarrow> wal_file list \<Rightarrow> bool" where
  "popped s s' ps \<longleftrightarrow> fs_ok s' \<and> faulty s' = faulty s \<and>
     (\<forall>p. fs_lookup s' p = (if p \<in> path ` set ps then None else fs_lookup s p)) \<and>
     (\<forall>p i. fs_lookup s' p = Some i \<longrightarrow>
        ino_bytes s' i = ino_bytes s i \<and> ino_durable s' i = ino_durable s i)"

lemma popped_lookup:
  assumes "popped s s' ps" and "fs_lookup s p = Some i" and "p \<notin> path ` set ps"
  shows "fs_lookup s' p = Some i" "ino_bytes s' i = ino_bytes s i" "ino_durable s' i = ino_durable s i"
proof -
  show l: "fs_lookup s' p = Some i" using assms by (simp add: popped_def)
  then show "ino_bytes s' i = ino_bytes s i" "ino_durable s' i = ino_durable s i"
    using assms(1) unfolding popped_def by blast+
qed

lemma file_in_popped:
  assumes "file_in crc s base w l" and "popped s s' ps" and "path w \<notin> path ` set ps"
  shows "file_in crc s' base w l"
proof -
  obtain i where "fs_lookup s (path w) = Some i" using assms(1) by (auto simp: file_in_def)
  then have "fs_lookup s' (path w) = Some i" "ino_bytes s' i = ino_bytes s i"
    using popped_lookup [OF assms(2) _ assms(3)] by simp_all
  then show ?thesis using assms(1) \<open>fs_lookup s (path w) = Some i\<close> by (auto simp: file_in_def)
qed

lemma dur_popped:
  assumes "dur crc s w l" and "popped s s' ps" and "path w \<notin> path ` set ps"
  shows "dur crc s' w l"
proof (cases "l = []")
  case False
  then obtain i where i: "fs_lookup s (path w) = Some i" "file_logs crc w (ino_durable s i) l"
    using assms(1) by (auto simp: dur_def)
  then have "fs_lookup s' (path w) = Some i" "ino_durable s' i = ino_durable s i"
    using popped_lookup [OF assms(2) _ assms(3)] by simp_all
  then show ?thesis using i by (simp add: dur_def)
qed (simp add: dur_def)

lemma popped_Nil [simp]: "fs_ok s \<Longrightarrow> popped s s []"
  by (simp add: popped_def)

lemma popped_Cons:
  assumes "popped s s1 [f]" and "popped s1 s2 fs"
  shows "popped s s2 (f # fs)"
proof -
  have look: "fs_lookup s2 p = (if p \<in> path ` set (f # fs) then None else fs_lookup s p)" for p
    using assms by (simp add: popped_def)
  have "ino_bytes s2 i = ino_bytes s i \<and> ino_durable s2 i = ino_durable s i" if i: "fs_lookup s2 p = Some i" for p i
  proof -
    have "fs_lookup s1 p = Some i" using assms(2) i by (simp add: popped_def split: if_splits)
    then have "ino_bytes s1 i = ino_bytes s i \<and> ino_durable s1 i = ino_durable s i"
      using assms(1) unfolding popped_def by blast
    moreover have "ino_bytes s2 i = ino_bytes s1 i \<and> ino_durable s2 i = ino_durable s1 i"
      using assms(2) i unfolding popped_def by blast
    ultimately show ?thesis by simp
  qed
  moreover have "fs_ok s2" "faulty s2 = faulty s" using assms by (simp_all add: popped_def)
  ultimately show ?thesis unfolding popped_def using look by blast
qed

lemma drop_file_eq:
  assumes "version w = 1" and "mmap_mut w = Some i \<Longrightarrow> 32 \<le> length (ino_bytes s i)"
    and "mmap_mut w = None \<or> mmap_mut w = Some i" and "no_faults s"
  shows "drop_file (s, w) = (Ok (), (if mmap_mut w = None then s else seal s w i, w))"
  using assms
  by (auto simp: drop_file_def act_simps expect_def update_header_eq flush_eq seal_def fs_simps no_faults_def)

lemma pop_one:
  assumes f: "file_in crc s base f l" and ok: "fs_ok s" and nf: "no_faults s" and P: "P f"
  obtains s' where "pop_files P s (f # fs) = pop_files P s' fs" "popped s s' [f]"
proof -
  obtain i where i: "fs_lookup s (path f) = Some i" "mmap_mut f = None \<or> mmap_mut f = Some i"
      "file_logs crc f (ino_bytes s i) l"
    using f by (auto simp: file_in_def)
  define s1 where "s1 = fs_remove s (path f)"
  define s2 where "s2 = (if mmap_mut f = None then s1 else seal s1 f i)"
  have rm: "remove_path s (path f) = (Ok (), s1)"
    using i(1) nf by (simp add: remove_path_def s1_def no_faults_def)
  have "drop_file (s1, f) = (Ok (), (s2, f))"
    unfolding s2_def
    using i nf by (intro drop_file_eq) (auto simp: s1_def fs_simps no_faults_def file_logs_def)
  then have eq: "pop_files P s (f # fs) = pop_files P s2 fs"
    using P rm by simp
  have ok1: "fs_ok s1" using ok by (simp add: s1_def fs_ok_remove)
  have other: "j \<noteq> i" if "fs_lookup s p = Some j" "p \<noteq> path f" for p j
    using that i(1) ok unfolding fs_ok_def by blast
  have sb: "same_but s1 s2 i" by (simp add: s2_def seal_def same_but_sync same_but_write)
  have look: "fs_lookup s2 p = (if p = path f then None else fs_lookup s p)" for p
    using sb by (simp add: same_but_def s1_def fs_simps)
  have "ino_bytes s2 j = ino_bytes s j \<and> ino_durable s2 j = ino_durable s j" if "fs_lookup s2 p = Some j" for p j
  proof -
    have "j \<noteq> i" using other that look by (simp split: if_splits)
    then show ?thesis using sb by (simp add: same_but_def s1_def fs_simps)
  qed
  moreover have "fs_ok s2" "faulty s2 = faulty s"
    using sb ok1 by (simp_all add: same_but_def) (simp add: s1_def fs_simps)
  moreover have "\<forall>p. fs_lookup s2 p = (if p \<in> path ` set [f] then None else fs_lookup s p)"
    using look by simp
  ultimately have "popped s s2 [f]" unfolding popped_def by blast
  then show thesis using eq that by blast
qed

lemma pop_files_spec:
  assumes "\<forall>f \<in> set ps. P f \<and> (\<exists>l. file_in crc s base f l)" and "fs_ok s" and "no_faults s"
    and "distinct (map path ps)" and "qs = [] \<or> \<not> P (hd qs)"
  shows "\<exists>s'. pop_files P s (ps @ qs) = (Ok (), s', qs) \<and> popped s s' ps"
  using assms(1-4)
proof (induction ps arbitrary: s)
  case Nil
  then show ?case using assms(5) by (cases qs) auto
next
  case (Cons f ps)
  obtain l where l: "file_in crc s base f l" "P f" using Cons.prems(1) by auto
  obtain s1 where s1: "pop_files P s (f # (ps @ qs)) = pop_files P s1 (ps @ qs)" "popped s s1 [f]"
    using pop_one [of crc s base f l P, OF l(1) Cons.prems(2,3) l(2)] by blast
  have "\<forall>g \<in> set ps. P g \<and> (\<exists>l. file_in crc s1 base g l)"
  proof
    fix g assume g: "g \<in> set ps"
    then obtain l' where "P g" "file_in crc s base g l'" using Cons.prems(1) by auto
    moreover have "path g \<notin> path ` set [f]" using Cons.prems(4) g by (force simp del: image_eqI simp: image_iff)
    ultimately show "P g \<and> (\<exists>l. file_in crc s1 base g l)" using file_in_popped [OF _ s1(2)] by blast
  qed
  moreover have "fs_ok s1" "no_faults s1"
    using s1(2) Cons.prems(3) by (simp_all add: popped_def no_faults_def)
  ultimately obtain s' where "pop_files P s1 (ps @ qs) = (Ok (), s', qs)" "popped s1 s' ps"
    using Cons.IH [of s1] Cons.prems(4) by auto
  then show ?case using s1 popped_Cons [OF s1(2)] by auto
qed

lemma set_ok_distinct:
  assumes "set_ok crc s ws lss"
  shows "distinct (map path (files ws))" and "distinct (map wal_no (files ws))"
proof -
  have "sorted_wrt (\<lambda>a b. wal_no a < wal_no b) (files ws)"
    using assms by (intro next_file_less) (simp add: set_ok_def)
  then have "sorted_wrt (<) (map wal_no (files ws))" by (simp add: sorted_wrt_map)
  then show no: "distinct (map wal_no (files ws))" by (simp add: strict_sorted_iff)
  have "map path (files ws) = map (\<lambda>w. wal_path (base_path ws) (wal_no w)) (files ws)"
    using assms by (auto simp: set_ok_def file_in_def elim: list_all2_obtain)
  then show "distinct (map path (files ws))"
    using no by (simp add: distinct_map inj_on_def wal_path_inj)
qed

lemma set_ok_file_in: "set_ok crc s ws lss \<Longrightarrow> w \<in> set (files ws) \<Longrightarrow> \<exists>l. file_in crc s (base_path ws) w l"
  unfolding set_ok_def by (metis list_all2_obtain)

section \<open>Trimming one file\<close>

lemma file_in_ids:
  assumes "file_in crc s base w l" and "e \<in> set l"
  shows "id_from w \<le> fst e" and "fst e \<le> id_until w"
proof -
  have "l \<noteq> []" using assms(2) by auto
  then have "map fst l = [id_from w..<Suc (id_until w)]"
    using assms(1) by (auto simp: file_in_def file_logs_def simp del: upt_Suc)
  then have "fst e \<in> set [id_from w..<Suc (id_until w)]" using assms(2) by (metis image_eqI set_map)
  then show "id_from w \<le> fst e" "fst e \<le> id_until w" by auto
qed

lemma filter_drop:
  assumes "map fst l = [a..<b]" and "a \<le> k"
  shows "filter (\<lambda>e. k \<le> fst e) l = drop (k - a) l"
  using assms
proof (induction l arbitrary: a)
  case Nil
  then show ?case by simp
next
  case (Cons e l)
  have e: "fst e = a" and l: "map fst l = [Suc a..<b]"
    using Cons.prems(1) by (cases "a < b"; simp add: upt_conv_Cons del: upt_Suc)+
  show ?case
  proof (cases "a = k")
    case True
    have "\<forall>x \<in> set l. k \<le> fst x"
    proof
      fix x assume "x \<in> set l"
      then have "fst x \<in> set [Suc a..<b]" by (metis l image_eqI set_map)
      then show "k \<le> fst x" using True by simp
    qed
    then show ?thesis using True e by simp
  next
    case False
    then show ?thesis using Cons.IH [OF l] Cons.prems(2) e by (simp add: Suc_diff_le [symmetric] Suc_le_eq
        drop_Cons')
  qed
qed

lemma filter_take:
  assumes "map fst l = [a..<b]" and "a \<le> k"
  shows "filter (\<lambda>e. fst e < k) l = take (k - a) l"
  using assms
proof (induction l arbitrary: a)
  case Nil
  then show ?case by simp
next
  case (Cons e l)
  have e: "fst e = a" and l: "map fst l = [Suc a..<b]"
    using Cons.prems(1) by (cases "a < b"; simp add: upt_conv_Cons del: upt_Suc)+
  show ?case
  proof (cases "a = k")
    case True
    have "\<forall>x \<in> set l. \<not> fst x < k"
    proof
      fix x assume "x \<in> set l"
      then have "fst x \<in> set [Suc a..<b]" by (metis l image_eqI set_map)
      then show "\<not> fst x < k" using True by simp
    qed
    then show ?thesis using True e by simp
  next
    case False
    then show ?thesis using Cons.IH [OF l] Cons.prems(2) e by (simp add: take_Cons')
  qed
qed

lemma file_logs_trim_front:
  assumes fl: "file_logs crc w bs l" and ne: "l \<noteq> []" and st: "data_start w = Some st"
    and k: "id_from w \<le> k" "k \<le> id_until w"
  shows "file_logs crc (w\<lparr>id_from := k, data_start := Some (end_off st (take (k - id_from w) l))\<rparr>) bs
     (filter (\<lambda>e. k \<le> fst e) l)"
proof -
  let ?n = "k - id_from w"
  have ids: "map fst l = [id_from w..<Suc (id_until w)]" using fl ne by (auto simp: file_logs_def simp del: upt_Suc)
  have eq: "filter (\<lambda>e. k \<le> fst e) l = drop ?n l" using filter_drop [OF ids k(1)] .
  have len: "?n < length l" using file_logs_ids [OF fl ne] k by simp
  have split: "take ?n l @ drop ?n l = l" by simp
  have off: "end_off (end_off st (take ?n l)) (drop ?n l) = end_off st l"
    using end_off_append [of st "take ?n l" "drop ?n l"] by (simp only: split)
  have rec: "recs_at crc bs (end_off st (take ?n l)) (drop ?n l)"
    using fl ne st recs_at_append [of crc bs st "take ?n l" "drop ?n l"] by (simp add: file_logs_def)
  have "map fst (drop ?n l) = [k..<Suc (id_until w)]"
    using k by (simp add: drop_map [symmetric] ids del: upt_Suc)
  moreover have "32 \<le> end_off st (take ?n l)"
    using fl ne st end_off_mono [of st "take ?n l"] by (simp add: file_logs_def)
  ultimately show ?thesis
    using fl ne st len off rec unfolding eq by (simp add: file_logs_def del: upt_Suc)
qed

lemma file_logs_trim_back:
  assumes fl: "file_logs crc w bs l" and ne: "l \<noteq> []" and st: "data_start w = Some st"
    and k: "id_from w < k" "k \<le> id_until w"
  shows "file_logs crc (w\<lparr>id_until := k - 1, data_end := Some (end_off st (take (k - id_from w) l) - 1)\<rparr>) bs
     (filter (\<lambda>e. fst e < k) l)"
proof -
  let ?n = "k - id_from w"
  have ids: "map fst l = [id_from w..<Suc (id_until w)]" using fl ne by (auto simp: file_logs_def simp del: upt_Suc)
  have eq: "filter (\<lambda>e. fst e < k) l = take ?n l" using filter_take [OF ids] k(1) by simp
  have ne': "take ?n l \<noteq> []" using k ne by simp
  have le: "end_off st (take ?n l) \<le> end_off st l"
    using end_off_mono [of "end_off st (take ?n l)" "drop ?n l"] end_off_append [of st "take ?n l" "drop ?n l"]
    by simp
  have rec: "recs_at crc bs st (take ?n l)"
    using fl ne st recs_at_append [of crc bs st "take ?n l" "drop ?n l"] by (simp add: file_logs_def)
  have "map fst (take ?n l) = [id_from w..<Suc (k - 1)]"
    using k by (simp add: take_map [symmetric] ids take_upt del: upt_Suc)
  then show ?thesis
    using fl ne st ne' le rec k unfolding eq by (simp add: file_logs_def del: upt_Suc)
qed

definition mapped :: "nat \<Rightarrow> wal_file \<Rightarrow> wal_file" where
  "mapped i w = w\<lparr>mmap_mut := Some i, file_fd := Some i\<rparr>"

lemma mapped_simps [simp]:
  "version (mapped i w) = version w" "wal_no (mapped i w) = wal_no w" "path (mapped i w) = path w"
  "id_from (mapped i w) = id_from w" "id_until (mapped i w) = id_until w"
  "data_start (mapped i w) = data_start w" "data_end (mapped i w) = data_end w"
  "len_max (mapped i w) = len_max w" "mmap (mapped i w) = mmap w" "mmap_mut (mapped i w) = Some i"
  "file_fd (mapped i w) = Some i"
  by (simp_all add: mapped_def)

lemma file_logs_mapped [simp]: "file_logs crc (mapped i w) bs l = file_logs crc w bs l"
  by (simp add: file_logs_def)

lemma map_file_mut_eq:
  assumes "file_in crc s base w l" and "fs_lookup s (path w) = Some i" and "no_faults s"
  shows "map_file_mut (s, w) = (Ok (), (s, mapped i w))"
proof (cases "mmap_mut w")
  case None
  then show ?thesis
    using assms(2,3) by (simp add: map_file_mut_def fs_open_def no_faults_def mapped_def)
next
  case (Some j)
  then have "mmap_mut w = Some i" "file_fd w = Some i" using assms(1,2) by (auto simp: file_in_def)
  then have "mapped i w = w" by (cases w) (simp add: mapped_def)
  then show ?thesis using Some by (simp add: map_file_mut_def)
qed

lemma read_offset_eq:
  assumes crc: "crc_ok crc" and fl: "file_logs crc w (ino_bytes s i) l" and ne: "l \<noteq> []"
    and m: "mmap w = None" "mmap_mut w = Some i" and st: "data_start w = Some st"
    and k: "id_from w \<le> k" "k \<le> id_until w"
  shows "read_offset crc k (s, w) = (Ok (end_off st (take (k - id_from w) l)), (s, w))"
proof -
  have v: "view s w = Some (ino_bytes s i)" using m by (simp add: view_def)
  obtain m' where "read_logs crc s w k k None =
      Ok (end_off st (take (k - id_from w) l), Some m', logs_between k k l)"
    using read_logs_spec [OF crc v fl ne k(1) order_refl k(2), of None] st by auto
  then show ?thesis by (simp add: read_offset_def act_simps)
qed

text \<open>\<open>same_file w w'\<close>: the two are the same file on disk.\<close>

definition same_file :: "wal_file \<Rightarrow> wal_file \<Rightarrow> bool" where
  "same_file w w' \<longleftrightarrow> version w' = version w \<and> wal_no w' = wal_no w \<and> path w' = path w \<and> len_max w' = len_max w"

lemma purge_file_spec:
  assumes crc: "crc_ok crc" and fin: "file_in crc s base w l" and nf: "no_faults s"
    and k: "k \<le> id_until w"
  obtains w' where "purge_file crc k (s, w) = (Ok (), (s, w'))"
    "file_in crc s base w' (filter (\<lambda>e. k \<le> fst e) l)" "same_file w w'" "id_until w' = id_until w"
    "data_end w' = data_end w" "mmap_mut w \<noteq> None \<Longrightarrow> mmap_mut w' \<noteq> None"
    "dur crc s w l \<Longrightarrow> dur crc s w' (filter (\<lambda>e. k \<le> fst e) l)"
proof (cases "id_from w < k \<and> data_end w \<noteq> None")
  case False
  have "filter (\<lambda>e. k \<le> fst e) l = l"
  proof (cases "data_end w = None")
    case True
    then show ?thesis using fin by (auto simp: file_in_def file_logs_def split: if_splits)
  next
    case nn: False
    then have "k \<le> fst e" if "e \<in> set l" for e using file_in_ids(1) [OF fin that] False by simp
    then show ?thesis by (simp add: filter_True)
  qed
  then show thesis
    using False fin by (intro that [of w]) (auto simp: purge_file_def act_simps same_file_def)
next
  case True
  obtain i where i: "fs_lookup s (path w) = Some i" "file_logs crc w (ino_bytes s i) l" "mmap w = None"
      "path w = wal_path base (wal_no w)" "0 < wal_no w"
    using fin by (auto simp: file_in_def)
  have ne: "l \<noteq> []" using True i(2) by (auto simp: file_logs_def)
  obtain st where st: "data_start w = Some st" using i(2) ne by (auto simp: file_logs_def)
  define off where "off = end_off st (take (k - id_from w) l)"
  define w' where "w' = (mapped i w)\<lparr>id_from := k, data_start := Some off\<rparr>"
  have ro: "read_offset crc k (s, mapped i w) = (Ok off, (s, mapped i w))"
    using read_offset_eq [OF crc, of "mapped i w" s i l st k] i ne st True k by (simp add: off_def)
  have run: "purge_file crc k (s, w) = (Ok (), (s, w'))"
    using True k by (simp add: purge_file_def act_simps map_file_mut_eq [OF fin i(1) nf] ro w'_def)
  have trim: "file_logs crc w' bs (filter (\<lambda>e. k \<le> fst e) l)" if "file_logs crc w bs l" for bs
    using file_logs_trim_front [of crc "mapped i w" bs l st k] that ne st True k
    by (simp add: w'_def off_def)
  have ne': "filter (\<lambda>e. k \<le> fst e) l \<noteq> []"
    using trim [OF i(2)] True by (auto simp: file_logs_def w'_def split: if_splits)
  show thesis
  proof (rule that [OF run])
    show "file_in crc s base w' (filter (\<lambda>e. k \<le> fst e) l)"
      using i trim ne' by (simp add: file_in_def w'_def)
    show "dur crc s w' (filter (\<lambda>e. k \<le> fst e) l)" if "dur crc s w l"
      using that i(1) trim ne by (auto simp: dur_def w'_def)
  qed (simp_all add: w'_def same_file_def)
qed

lemma truncate_file_spec:
  assumes crc: "crc_ok crc" and fin: "file_in crc s base w l" and nf: "no_faults s"
    and k: "id_from w \<le> k"
  obtains w' where "truncate_file crc k (s, w) = (Ok (), (s, w'))"
    "file_in crc s base w' (filter (\<lambda>e. fst e < k) l)" "same_file w w'" "id_from w' = id_from w"
    "mmap_mut w \<noteq> None \<or> id_from w < k \<and> k \<le> id_until w \<Longrightarrow> mmap_mut w' \<noteq> None"
    "id_from w = k \<Longrightarrow> mmap_mut w' = mmap_mut w"
    "dur crc s w l \<Longrightarrow> dur crc s w' (filter (\<lambda>e. fst e < k) l)"
proof -
  obtain i where i: "fs_lookup s (path w) = Some i" "file_logs crc w (ino_bytes s i) l" "mmap w = None"
      "path w = wal_path base (wal_no w)" "0 < wal_no w" "l = [] \<longrightarrow> id_until w = id_from w"
      "mmap_mut w = None \<or> mmap_mut w = Some i" "file_fd w = mmap_mut w"
    using fin by (auto simp: file_in_def)
  consider (eq) "id_from w = k" | (inside) "id_from w < k" "k \<le> id_until w" | (beyond) "id_from w < k" "id_until w < k"
    using k by linarith
  then show thesis
  proof cases
    case eq
    have none: "filter (\<lambda>e. fst e < k) l = []"
      using file_in_ids(1) [OF fin] eq by (intro filter_False ballI) (simp add: not_less)
    let ?w = "w\<lparr>id_until := k, data_start := None, data_end := None\<rparr>"
    have fl: "file_logs crc ?w (ino_bytes s i) []" using i(2) by (simp add: file_logs_def)
    have "file_in crc s base ?w []" unfolding file_in_def using i fl eq by auto
    then show thesis
      using eq none by (intro that [of ?w]) (simp_all add: truncate_file_def act_simps same_file_def dur_def)
  next
    case beyond
    then have "filter (\<lambda>e. fst e < k) l = l" using file_in_ids(2) [OF fin] by (force intro: filter_True)
    then show thesis
      using beyond fin by (intro that [of w]) (auto simp: truncate_file_def act_simps same_file_def)
  next
    case inside
    then have ne: "l \<noteq> []" using i(6) by auto
    obtain st where st: "data_start w = Some st" "32 \<le> st" using i(2) ne by (auto simp: file_logs_def)
    define off where "off = end_off st (take (k - id_from w) l)"
    have off: "0 < off" using end_off_mono [of st] st(2) unfolding off_def by (metis le_trans not_numeral_le_zero gr0I)
    define w' where "w' = (mapped i w)\<lparr>id_until := k - 1, data_end := Some (off - 1)\<rparr>"
    have ro: "read_offset crc k (s, mapped i w) = (Ok off, (s, mapped i w))"
      using read_offset_eq [OF crc, of "mapped i w" s i l st k] i ne st inside by (simp add: off_def)
    have run: "truncate_file crc k (s, w) = (Ok (), (s, w'))"
      using inside off
      by (simp add: truncate_file_def act_simps map_file_mut_eq [OF fin i(1) nf] ro w'_def sub_u_eq)
    have trim: "file_logs crc w' bs (filter (\<lambda>e. fst e < k) l)" if "file_logs crc w bs l" for bs
      using file_logs_trim_back [of crc "mapped i w" bs l st k] that ne st inside by (simp add: w'_def off_def)
    then have ne': "filter (\<lambda>e. fst e < k) l \<noteq> []"
      using i(2) st by (fastforce simp: file_logs_def w'_def split: if_splits)
    show thesis
    proof (rule that [OF run])
      show "file_in crc s base w' (filter (\<lambda>e. fst e < k) l)"
        using i trim ne' by (simp add: file_in_def w'_def)
      show "dur crc s w' (filter (\<lambda>e. fst e < k) l)" if "dur crc s w l"
        using that i(1) trim ne by (auto simp: dur_def w'_def)
    qed (use inside in \<open>simp_all add: w'_def same_file_def\<close>)
  qed
qed

section \<open>Purging\<close>

lemma file_in_le: "file_in crc s base w l \<Longrightarrow> id_from w \<le> id_until w"
  using file_logs_ids(2) [of crc w _ l] by (cases "l = []") (auto simp: file_in_def)

lemma set_ok_sorted_ids:
  assumes "set_ok crc s ws lss"
  shows "sorted_wrt (\<lambda>a b. id_until a < id_from b) (files ws)"
proof -
  have le: "id_from w \<le> id_until w" if "w \<in> set (files ws)" for w
    using set_ok_file_in [OF assms that] file_in_le by blast
  have "successively next_file (files ws)" using assms by (simp add: set_ok_def)
  then have "successively (\<lambda>a b. id_until a < id_from b) (files ws)"
    by (rule successively_mono) (simp add: next_file_def)
  moreover have "id_until x < id_from z"
    if "y \<in> set (files ws)" "id_until x < id_from y" "id_until y < id_from z" for x y z
    using le [OF that(1)] that by simp
  ultimately show ?thesis by (subst (asm) successively_iff_sorted_wrt_strong) blast+
qed

lemma list_all2_ids:
  assumes "list_all2 (file_in crc s base) ws lss" and "e \<in> set (concat lss)"
  obtains w where "w \<in> set ws" "id_from w \<le> fst e" "fst e \<le> id_until w"
proof -
  obtain l where l: "l \<in> set lss" "e \<in> set l" using assms(2) by auto
  then obtain w where "w \<in> set ws" "file_in crc s base w l"
    using assms(1) by (metis list_all2_conv_all_nth in_set_conv_nth)
  then show thesis using file_in_ids [of crc s base w l e] l(2) that by blast
qed

text \<open>A part of a set, after the files before and after it have been removed.\<close>

definition part :: "wal_file list \<Rightarrow> wal_set \<Rightarrow> wal_set" where
  "part qs ws = ws\<lparr>files := qs, active := Some (length qs - 1)\<rparr>"

lemma part_simps [simp]:
  "files (part qs ws) = qs" "active (part qs ws) = Some (length qs - 1)" "base_path (part qs ws) = base_path ws"
  by (simp_all add: part_def)

lemma part_others:
  assumes "set_ok crc s ws lss" and "files ws = as @ qs @ bs" and "q \<in> set qs"
  shows "path q \<notin> path ` set (as @ bs)" and "wal_no q \<notin> wal_no ` set (as @ bs)"
  using set_ok_distinct [OF assms(1)] assms(2,3) by auto

lemma dir_ok_part:
  assumes ok: "set_ok crc s ws lss" and fs: "files ws = as @ qs @ bs" and pop: "popped s s' (as @ bs)"
  shows "dir_ok s' (part qs ws)"
  unfolding dir_ok_def
proof
  fix no
  let ?p = "wal_path (base_path ws) no"
  have path: "path w = wal_path (base_path ws) (wal_no w)" if "w \<in> set (files ws)" for w
    using set_ok_file_in [OF ok that] by (auto simp: file_in_def)
  have "path ` set (as @ bs) = wal_path (base_path ws) ` wal_no ` set (as @ bs)"
    unfolding image_image by (rule image_cong [OF refl]) (use path fs in auto)
  then have "?p \<in> path ` set (as @ bs) \<longleftrightarrow> no \<in> wal_no ` set (as @ bs)"
    by (auto simp: wal_path_inj)
  moreover have "no \<in> wal_no ` set (as @ bs) \<Longrightarrow> no \<notin> wal_no ` set qs"
    using part_others(2) [OF ok fs] by (metis imageE)
  moreover have "fs_lookup s ?p \<noteq> None \<longleftrightarrow> no \<in> wal_no ` set (as @ bs) \<or> no \<in> wal_no ` set qs"
    using ok fs by (auto simp: set_ok_def dir_ok_def image_Un)
  ultimately show "fs_lookup s' (wal_path (base_path (part qs ws)) no) \<noteq> None
      \<longleftrightarrow> no \<in> wal_no ` set (files (part qs ws))"
    using pop by (simp add: popped_def)
qed

lemma set_ok_part:
  assumes ok: "set_ok crc s ws (als @ qls @ bls)" and fs: "files ws = as @ qs @ bs" "qs \<noteq> []"
    and len: "length als = length as" "length qls = length qs"
    and pop: "popped s s' (as @ bs)"
  shows "set_ok crc s' (part qs ws) qls"
    and "sealed crc s ws (als @ qls @ bls) \<Longrightarrow> sealed crc s' (part qs ws) qls"
    and "sealed crc s ws (als @ qls @ bls) \<Longrightarrow> bs \<noteq> [] \<Longrightarrow> dur crc s' (last qs) (last qls)"
    and "dur crc s (last qs) l \<Longrightarrow> dur crc s' (last qs) l"
proof -
  have all: "list_all2 (file_in crc s (base_path ws)) qs qls"
    using ok fs len by (simp add: set_ok_def list_all2_append)
  have len2: "length bls = length bs"
    using ok fs len unfolding set_ok_def by (metis add_left_cancel length_append list_all2_lengthD)
  have dis: "path q \<notin> path ` set (as @ bs)" if "q \<in> set qs" for q
    using part_others(1) [OF ok fs(1) that] .
  have "list_all2 (file_in crc s' (base_path ws)) qs qls"
    using all by (rule list_all2_imp) (use dis file_in_popped [OF _ pop] in blast)
  then show "set_ok crc s' (part qs ws) qls"
    using ok fs dir_ok_part [OF ok fs(1) pop] pop
    by (simp add: set_ok_def successively_append_iff popped_def)
  have d: "dur crc s' q l" if "q \<in> set qs" "dur crc s q l" for q l
    using dur_popped [OF that(2) pop dis [OF that(1)]] .
  have ne: "qls \<noteq> []" using len(2) fs(2) by auto
  have sl: "list_all2 (dur crc s) (butlast qs) (butlast qls) \<and> (bs \<noteq> [] \<longrightarrow> list_all2 (dur crc s) qs qls)"
    if "sealed crc s ws (als @ qls @ bls)"
  proof (cases "bs = []")
    case True
    then show ?thesis
      using that fs ne len len2 by (simp add: sealed_def butlast_append list_all2_append)
  next
    case False
    then have "list_all2 (dur crc s) qs qls"
      using that fs len len2 by (cases "bls = []") (auto simp: sealed_def butlast_append list_all2_append)
    then show ?thesis
      using fs(2) ne list_all2_snoc [of _ "butlast qs" "last qs" "butlast qls" "last qls"] by simp
  qed
  show "sealed crc s' (part qs ws) qls" if "sealed crc s ws (als @ qls @ bls)"
  proof -
    have "list_all2 (dur crc s') (butlast qs) (butlast qls)"
      using sl [OF that] d in_set_butlastD by (metis (no_types, lifting) list_all2_imp)
    then show ?thesis by (simp add: sealed_def)
  qed
  show "dur crc s' (last qs) (last qls)" if "sealed crc s ws (als @ qls @ bls)" "bs \<noteq> []"
    using sl [OF that(1)] that(2) d fs(2) ne list_all2_snoc [of _ "butlast qs" "last qs" "butlast qls" "last qls"]
    by simp
  show "dur crc s' (last qs) l" if "dur crc s (last qs) l" using d that fs(2) by simp
qed

text \<open>The set that starts afresh with the file number one.\<close>

lemma refill_empty:
  assumes b: "base_path ws \<noteq> []" and fs: "files ws = []" and n: "size_ok n" and nf: "no_faults s" and ok: "fs_ok s"
    and free: "\<And>no. fs_lookup s (wal_path (base_path ws) no) = None"
  obtains s' nw where "refill n (s, ws) = (Ok (), (s', ws\<lparr>files := [nw], active := Some 0\<rparr>))"
    "set_inv crc s' (ws\<lparr>files := [nw], active := Some 0\<rparr>) [[]]" "faulty s' = faulty s"
    "wal_no nw = 1" "len_max nw = n" "data_end nw = None" "id_from nw = 0"
proof -
  let ?w = "new_wal (base_path ws) 1 n"
  let ?s = "fresh_fs s ?w"
  let ?nw = "mapped (next_ino s) ?w"
  have no: "next_wal_no (files ws) = Ok 1" by (simp add: next_wal_no_def fs)
  have nfs: "\<not> faulty s op" for op using nf by (simp add: no_faults_def)
  have add: "add_file n (s, ws) = (Ok (), (?s, ws\<lparr>files := [?w], active := Some 0\<rparr>))"
    using add_file_eq [OF b n no _ free] nfs by (simp add: fs)
  have "map_file_mut (?s, ?w) = (Ok (), (?s, ?nw))"
    using nfs by (simp add: map_file_mut_def fs_open_def fs_simps mapped_def)
  then have run: "refill n (s, ws) = (Ok (), (?s, ws\<lparr>files := [?nw], active := Some 0\<rparr>))"
    by (simp add: refill_def act_simps fs add on_file_eq)
  have "?nw = ?w\<lparr>mmap_mut := Some (next_ino s), file_fd := Some (next_ino s), id_from := 0, id_until := 0\<rparr>"
    by (simp add: mapped_def new_wal_def)
  then have fin: "file_in crc ?s (base_path ws) ?nw []"
    using file_in_fresh [OF n, of 1 "Some (next_ino s)" s crc "base_path ws" 0] by simp
  have "dir_ok ?s (ws\<lparr>files := [?nw], active := Some 0\<rparr>)"
    using free by (auto simp: dir_ok_def fs_simps wal_path_inj)
  then have "set_ok crc ?s (ws\<lparr>files := [?nw], active := Some 0\<rparr>) [[]]"
    using b ok fin by (simp add: set_ok_def fs_ok_fresh_fs)
  then have inv: "set_inv crc ?s (ws\<lparr>files := [?nw], active := Some 0\<rparr>) [[]]"
    by (simp add: set_inv_def sealed_def)
  show thesis
    by (rule that [OF run inv]) (simp_all add: fs_simps new_wal_def)
qed

lemma popped_free:
  assumes "set_ok crc s ws lss" and "popped s s' (files ws)"
  shows "fs_lookup s' (wal_path (base_path ws) no) = None"
proof (rule ccontr)
  assume a: "fs_lookup s' (wal_path (base_path ws) no) \<noteq> None"
  have "fs_lookup s' (wal_path (base_path ws) no) = (if wal_path (base_path ws) no \<in> path ` set (files ws)
      then None else fs_lookup s (wal_path (base_path ws) no))"
    using assms(2) by (simp add: popped_def)
  with a have "fs_lookup s (wal_path (base_path ws) no) \<noteq> None"
    and np: "wal_path (base_path ws) no \<notin> path ` set (files ws)"
    by (auto split: if_splits)
  then obtain w where w: "w \<in> set (files ws)" "no = wal_no w"
    using assms(1) by (auto simp: set_ok_def dir_ok_def)
  then have "path w = wal_path (base_path ws) no"
    using set_ok_file_in [OF assms(1) w(1)] by (auto simp: file_in_def)
  then show False using np w(1) by (metis imageI)
qed

text \<open>What a removal leaves: either a fresh file, or a part of the files with one of them trimmed.\<close>

definition removed :: "nat \<Rightarrow> wal_set \<Rightarrow> wal_set \<Rightarrow> bool" where
  "removed n ws ws' \<longleftrightarrow> base_path ws' = base_path ws \<and>
     ((\<exists>nw. files ws' = [nw] \<and> wal_no nw = 1 \<and> len_max nw = n) \<or>
      (\<exists>as qs bs qs'. files ws = as @ qs @ bs \<and> files ws' = qs' \<and> list_all2 same_file qs qs'))"

lemma removed_partI:
  "files ws = as @ qs @ bs \<Longrightarrow> list_all2 same_file qs (files ws') \<Longrightarrow> base_path ws' = base_path ws \<Longrightarrow>
   removed n ws ws'"
  unfolding removed_def by blast

lemma set_inv_update_first:
  assumes inv: "set_inv crc s ws (l # ls)" and fs: "files ws = w # vs"
    and w': "same_file w w'" "id_until w' = id_until w" "data_end w' = data_end w"
      "mmap_mut w \<noteq> None \<Longrightarrow> mmap_mut w' \<noteq> None"
    and fin: "file_in crc s (base_path ws) w' l'" and d: "dur crc s w l \<Longrightarrow> dur crc s w' l'"
  shows "set_inv crc s (ws\<lparr>files := w' # vs\<rparr>) (l' # ls)"
proof -
  have ok: "set_ok crc s ws (l # ls)" and sl: "sealed crc s ws (l # ls)" and m: "mmap_mut (last (files ws)) \<noteq> None"
    using inv by (simp_all add: set_inv_def)
  have all: "list_all2 (file_in crc s (base_path ws)) vs ls" using ok fs by (simp add: set_ok_def)
  have "successively next_file (w' # vs)"
    using ok fs w' by (cases vs) (simp_all add: set_ok_def next_file_def same_file_def)
  then have "set_ok crc s (ws\<lparr>files := w' # vs\<rparr>) (l' # ls)"
    using ok fs fin w'(1) by (simp add: set_ok_def dir_ok_def same_file_def)
  moreover have "sealed crc s (ws\<lparr>files := w' # vs\<rparr>) (l' # ls)"
    using sl fs d list_all2_lengthD [OF all] by (cases vs; cases ls) (auto simp: sealed_def)
  ultimately show ?thesis using m w'(4) fs by (cases "vs = []") (auto simp: set_inv_def)
qed

lemma takeWhile_split:
  obtains ps qs where "xs = ps @ qs" "\<forall>x \<in> set ps. P x" "qs = [] \<or> \<not> P (hd qs)"
proof
  show "xs = takeWhile P xs @ dropWhile P xs" by simp
  show "\<forall>x \<in> set (takeWhile P xs). P x" by (auto dest: set_takeWhileD)
  show "dropWhile P xs = [] \<or> \<not> P (hd (dropWhile P xs))" using hd_dropWhile by blast
qed

lemma list_all2_split:
  assumes "list_all2 R (ps @ qs) lss"
  obtains pls qls where "lss = pls @ qls" "list_all2 R ps pls" "list_all2 R qs qls"
  using assms by (auto simp: list_all2_append1)

lemma purge_keeps:
  assumes ok: "set_ok crc s ws (pls @ qls)" and fs: "files ws = ps @ qs"
    and all: "list_all2 (file_in crc s (base_path ws)) ps pls"
    and ps: "\<forall>f \<in> set ps. id_until f < til"
  shows "filter (\<lambda>e. til \<le> fst e) (concat (pls @ qls)) = filter (\<lambda>e. til \<le> fst e) (concat qls)"
proof -
  have "\<not> til \<le> fst e" if "e \<in> set (concat pls)" for e
    using list_all2_ids [OF all that] ps by fastforce
  then have "filter (\<lambda>e. til \<le> fst e) (concat pls) = []" by (intro filter_False ballI)
  then show ?thesis by simp
qed

lemma purge_keeps_rest:
  assumes ok: "set_ok crc s ws (pls @ l # ls)" and fs: "files ws = ps @ q # rest"
    and all: "list_all2 (file_in crc s (base_path ws)) rest ls" and q: "til \<le> id_until q"
  shows "filter (\<lambda>e. til \<le> fst e) (concat ls) = concat ls"
proof (rule filter_True, rule ballI)
  fix e assume "e \<in> set (concat ls)"
  then obtain w where w: "w \<in> set rest" "id_from w \<le> fst e" using list_all2_ids [OF all] by metis
  have "id_until q < id_from w"
    using set_ok_sorted_ids [OF ok] fs w(1) by (auto simp: sorted_wrt_append)
  then show "til \<le> fst e" using q w(2) by simp
qed

lemma purge_spec:
  assumes crc: "crc_ok crc" and inv: "set_inv crc s ws lss" and nf: "no_faults s" and n: "size_ok n"
    and front: "from \<le> id_from (hd (files ws))"
  obtains s' ws' lss' where "shift_delete_logs crc from til n (s, ws) = (Ok (), (s', ws'))"
    "set_inv crc s' ws' lss'" "concat lss' = filter (\<lambda>e. til \<le> fst e) (concat lss)" "faulty s' = faulty s"
    "removed n ws ws'"
    "dur crc s (last (files ws)) (last lss) \<Longrightarrow> dur crc s' (last (files ws')) (last lss')"
proof -
  have ok: "set_ok crc s ws lss" and fok: "fs_ok s" and ne: "files ws \<noteq> []"
    using inv by (simp_all add: set_inv_def set_ok_def)
  obtain ps qs where fs: "files ws = ps @ qs" and ps: "\<forall>f \<in> set ps. id_until f < til"
    and qs: "qs = [] \<or> \<not> id_until (hd qs) < til"
    by (rule takeWhile_split [of "files ws" "\<lambda>f. id_until f < til"])
  have "list_all2 (file_in crc s (base_path ws)) (ps @ qs) lss" using ok fs by (simp add: set_ok_def)
  then obtain pls qls where lss: "lss = pls @ qls" and all: "list_all2 (file_in crc s (base_path ws)) ps pls"
      "list_all2 (file_in crc s (base_path ws)) qs qls"
    by (rule list_all2_split)
  have "\<forall>f \<in> set ps. id_until f < til \<and> (\<exists>l. file_in crc s (base_path ws) f l)"
    using ps set_ok_file_in [OF ok] fs by auto
  then obtain s1 where s1: "pop_files (\<lambda>f. id_until f < til) s (ps @ qs) = (Ok (), s1, qs)" "popped s s1 ps"
    using pop_files_spec [of ps "\<lambda>f. id_until f < til" crc s "base_path ws" qs] fok nf
      set_ok_distinct(1) [OF ok] fs qs by auto
  have nf1: "no_faults s1" "faulty s1 = faulty s" "fs_ok s1" using s1(2) nf by (simp_all add: popped_def no_faults_def)
  have run: "shift_delete_logs crc from til n (s, ws) =
      athen (athen (refill n) (on_file 0 (purge_file crc til)))
        (amod (\<lambda>(s, ws). (s, ws\<lparr>active := Some (length (files ws) - 1)\<rparr>))) (s1, ws\<lparr>files := qs\<rparr>)"
    using front ne s1(1) by (simp add: shift_delete_logs_def act_simps pop_front_files_def fs)
  have kept: "filter (\<lambda>e. til \<le> fst e) (concat lss) = filter (\<lambda>e. til \<le> fst e) (concat qls)"
    unfolding lss by (rule purge_keeps [OF ok [unfolded lss] fs all(1) ps])
  show thesis
  proof (cases qs)
    case Nil
    have free: "fs_lookup s1 (wal_path (base_path (ws\<lparr>files := []\<rparr>)) no) = None" for no
      using popped_free [OF ok, of s1] s1(2) fs Nil by simp
    obtain s' nw where r: "refill n (s1, ws\<lparr>files := []\<rparr>) = (Ok (), (s', ws\<lparr>files := [nw], active := Some 0\<rparr>))"
        "set_inv crc s' (ws\<lparr>files := [nw], active := Some 0\<rparr>) [[]]" "faulty s' = faulty s1"
        "wal_no nw = 1" "len_max nw = n" "data_end nw = None"
      by (rule refill_empty [of "ws\<lparr>files := []\<rparr>" n s1 crc, OF _ _ n nf1(1,3) free])
         (use ok in \<open>simp_all add: set_ok_def\<close>)
    show thesis
      by (rule that [of s' "ws\<lparr>files := [nw], active := Some 0\<rparr>" "[[]]"])
         (use r Nil all(2) nf1 run kept in \<open>simp_all add: act_simps on_file_eq purge_file_def removed_def dur_def\<close>)
  next
    case (Cons q rest)
    then obtain l ls where l: "qls = l # ls" "file_in crc s (base_path ws) q l"
        "list_all2 (file_in crc s (base_path ws)) rest ls"
      using all(2) by (auto simp: list_all2_Cons1)
    have part: "set_ok crc s1 (part qs ws) qls" "sealed crc s1 (part qs ws) qls"
        "dur crc s (last qs) (last lss) \<Longrightarrow> dur crc s1 (last qs) (last lss)"
      using set_ok_part [of crc s ws pls qls "[]" ps qs "[]" s1] ok inv fs lss s1(2) Cons
        list_all2_lengthD [OF all(1)] list_all2_lengthD [OF all(2)]
      by (simp_all add: set_inv_def)
    then have pinv: "set_inv crc s1 (part qs ws) (l # ls)"
      using inv fs Cons l(1) by (simp add: set_inv_def)
    have q: "til \<le> id_until q" using qs Cons by simp
    have fin: "file_in crc s1 (base_path ws) q l"
      using part(1) Cons l(1) by (simp add: set_ok_def)
    obtain q' where q': "purge_file crc til (s1, q) = (Ok (), (s1, q'))"
        "file_in crc s1 (base_path ws) q' (filter (\<lambda>e. til \<le> fst e) l)" "same_file q q'" "id_until q' = id_until q"
        "data_end q' = data_end q" "mmap_mut q \<noteq> None \<Longrightarrow> mmap_mut q' \<noteq> None"
        "dur crc s1 q l \<Longrightarrow> dur crc s1 q' (filter (\<lambda>e. til \<le> fst e) l)"
      by (rule purge_file_spec [OF crc fin nf1(1) q]) blast
    let ?ws' = "(part qs ws)\<lparr>files := q' # rest\<rparr>"
    have inv': "set_inv crc s1 ?ws' (filter (\<lambda>e. til \<le> fst e) l # ls)"
      by (rule set_inv_update_first [OF pinv _ q'(3-6)]) (use q' Cons in simp_all)
    have conc: "concat (filter (\<lambda>e. til \<le> fst e) l # ls) = filter (\<lambda>e. til \<le> fst e) (concat lss)"
      using kept purge_keeps_rest [OF ok [unfolded lss l(1)] fs [unfolded Cons] l(3) q] by (simp add: l(1))
    have "dur crc s1 (last (q' # rest)) (last (filter (\<lambda>e. til \<le> fst e) l # ls))" if "dur crc s (last (files ws)) (last lss)"
      using that part(3) q'(7) fs Cons l lss by (cases rest) auto
    moreover have "removed n ws ?ws'"
      using fs Cons q'(3) by (intro removed_partI [of ws ps qs "[]"]) (simp_all add: list_all2_same same_file_def)
    ultimately show thesis
      using inv' conc nf1(2) run q'(1) Cons
      by (intro that [of s1 ?ws' "filter (\<lambda>e. til \<le> fst e) l # ls"])
         (simp_all add: act_simps refill_def on_file_eq part_def)
  qed
qed

section \<open>Truncating\<close>

lemma truncate_keeps:
  assumes ok: "set_ok crc s ws (vls @ [l] @ pls)" and fs: "files ws = vs @ [w] @ ps"
    and len: "length vls = length vs" and ps: "\<forall>f \<in> set ps. k < id_from f" and w: "id_from w \<le> k"
  shows "filter (\<lambda>e. fst e < k) (concat (vls @ [l] @ pls)) = concat (vls @ [filter (\<lambda>e. fst e < k) l])"
proof -
  have all: "list_all2 (file_in crc s (base_path ws)) vs vls" "list_all2 (file_in crc s (base_path ws)) ps pls"
    using ok fs len by (simp_all add: set_ok_def list_all2_append)
  have "fst e < k" if e: "e \<in> set (concat vls)" for e
  proof -
    obtain v where v: "v \<in> set vs" "fst e \<le> id_until v" using list_all2_ids [OF all(1) e] by metis
    then have "id_until v < id_from w" using set_ok_sorted_ids [OF ok] fs by (simp add: sorted_wrt_append)
    then show ?thesis using v(2) w by simp
  qed
  then have "filter (\<lambda>e. fst e < k) (concat vls) = concat vls" by (intro filter_True ballI)
  moreover have "\<not> fst e < k" if e: "e \<in> set (concat pls)" for e
    using list_all2_ids [OF all(2) e] ps by fastforce
  then have "filter (\<lambda>e. fst e < k) (concat pls) = []" by (intro filter_False ballI)
  ultimately show ?thesis by simp
qed

lemma truncate_split:
  assumes ok: "set_ok crc s ws lss" and lt: "id_from (hd (files ws)) < k"
  obtains vs w ps vls l pls where "files ws = vs @ [w] @ ps" "lss = vls @ [l] @ pls" "length vls = length vs"
    "length pls = length ps"
    "\<forall>f \<in> set ps. k < id_from f" "id_from w \<le> k" "file_in crc s (base_path ws) w l"
proof -
  obtain rps rqs where r: "rev (files ws) = rps @ rqs" "\<forall>f \<in> set rps. k < id_from f" "rqs = [] \<or> \<not> k < id_from (hd rqs)"
    by (rule takeWhile_split [of "rev (files ws)" "\<lambda>f. k < id_from f"])
  have ne: "files ws \<noteq> []" using ok by (simp add: set_ok_def)
  have "rqs \<noteq> []"
  proof
    assume "rqs = []"
    then have "hd (files ws) \<in> set rps" using r(1) ne by (metis append_Nil2 hd_in_set set_rev)
    then show False using r(2) lt by auto
  qed
  then obtain w rest where q: "rqs = w # rest" by (cases rqs) auto
  have fs: "files ws = rev rest @ [w] @ rev rps" using r(1) q by (metis append_assoc rev.simps(2) rev_append rev_rev_ident)
  then have "list_all2 (file_in crc s (base_path ws)) (rev rest @ [w] @ rev rps) lss" using ok by (simp add: set_ok_def)
  then obtain vls l pls where "lss = vls @ [l] @ pls" "length vls = length (rev rest)"
      "length pls = length (rev rps)" "file_in crc s (base_path ws) w l"
    by (auto simp: list_all2_append1 list_all2_Cons1)
  then show thesis using that fs r(2,3) q by simp
qed

lemma truncate_pop:
  assumes inv: "set_inv crc s ws (vls @ [l] @ pls)" and nf: "no_faults s" and fs: "files ws = vs @ [w] @ ps"
    and len: "length vls = length vs" "length pls = length ps"
    and ps: "\<forall>f \<in> set ps. k < id_from f" and w: "id_from w \<le> k"
  obtains s1 where "pop_back_files k (s, ws) = (Ok (), (s1, ws\<lparr>files := vs @ [w]\<rparr>))" "no_faults s1" "faulty s1 = faulty s"
    "set_ok crc s1 (part (vs @ [w]) ws) (vls @ [l])" "sealed crc s1 (part (vs @ [w]) ws) (vls @ [l])"
    "ps \<noteq> [] \<Longrightarrow> dur crc s1 w l" "dur crc s w l \<Longrightarrow> dur crc s1 w l"
proof -
  have ok: "set_ok crc s ws (vls @ [l] @ pls)" and sl: "sealed crc s ws (vls @ [l] @ pls)" and fok: "fs_ok s"
    using inv by (simp_all add: set_inv_def set_ok_def)
  let ?P = "\<lambda>f. k < id_from f" and ?qs = "vs @ [w]"
  have "\<forall>f \<in> set (rev ps). ?P f \<and> (\<exists>l. file_in crc s (base_path ws) f l)"
    using ps set_ok_file_in [OF ok] fs by auto
  then obtain s1 where s1: "pop_files ?P s (rev ps @ rev ?qs) = (Ok (), s1, rev ?qs)" "popped s s1 (rev ps)"
    using pop_files_spec [of "rev ps" ?P crc s "base_path ws" "rev ?qs"] fok nf w
      set_ok_distinct(1) [OF ok] fs by (auto simp: rev_map [symmetric])
  have pop: "popped s s1 ([] @ ps)" using s1(2) by (simp add: popped_def)
  have part: "set_ok crc s1 (part ?qs ws) (vls @ [l])" "sealed crc s1 (part ?qs ws) (vls @ [l])"
      "ps \<noteq> [] \<Longrightarrow> dur crc s1 w l" "dur crc s w l \<Longrightarrow> dur crc s1 w l"
    using set_ok_part [of crc s ws "[]" "vls @ [l]" pls "[]" ?qs ps s1] ok sl fs len pop by simp_all
  show thesis
    using s1(1) pop nf by (intro that [OF _ _ _ part])
      (simp_all add: pop_back_files_def fs popped_def no_faults_def)
qed

lemma truncate_mapped:
  assumes inv: "set_inv crc s ws lss" and fs: "files ws = vs @ [w] @ ps"
    and ps: "\<forall>f \<in> set ps. k < id_from f" and w: "id_from w \<le> k"
  shows "(\<forall>f \<in> set (butlast (files ws)). id_from f \<noteq> k) \<Longrightarrow> mmap_mut w \<noteq> None \<or> id_from w < k \<and> k \<le> id_until w"
    and "f \<in> set (butlast (files ws)) \<Longrightarrow> id_from f = k \<Longrightarrow> f = w"
proof -
  have ok: "set_ok crc s ws lss" and m: "mmap_mut (last (files ws)) \<noteq> None" using inv by (simp_all add: set_inv_def)
  show "mmap_mut w \<noteq> None \<or> id_from w < k \<and> k \<le> id_until w"
    if no: "\<forall>f \<in> set (butlast (files ws)). id_from f \<noteq> k"
  proof (cases ps)
    case Nil
    then show ?thesis using m fs by simp
  next
    case (Cons p rest)
    have "next_file w p" using ok fs Cons by (simp add: set_ok_def successively_append_iff)
    then have "k \<le> id_until w" using ps Cons by (simp add: next_file_def)
    moreover have "id_from w \<noteq> k" using no fs Cons by (simp add: butlast_append)
    ultimately show ?thesis using w by simp
  qed
  show "f = w" if f: "f \<in> set (butlast (files ws))" "id_from f = k"
  proof -
    have "f \<in> set vs \<or> f = w \<or> f \<in> set ps" using in_set_butlastD [OF f(1)] fs by auto
    moreover have "f \<notin> set ps" using ps f(2) by auto
    moreover have "f \<notin> set vs"
    proof
      assume v: "f \<in> set vs"
      then have "id_until f < id_from w" using set_ok_sorted_ids [OF ok] fs by (simp add: sorted_wrt_append)
      moreover have "id_from f \<le> id_until f" using set_ok_file_in [OF ok, of f] v fs file_in_le by auto
      ultimately show False using f(2) w by simp
    qed
    ultimately show ?thesis by blast
  qed
qed

lemma truncate_spec:
  assumes crc: "crc_ok crc" and inv: "set_inv crc s ws lss" and nf: "no_faults s"
    and lt: "id_from (hd (files ws)) < k" and til: "id_until (last (files ws)) \<le> til"
  obtains s' ws' lss' where "shift_delete_logs crc k til n (s, ws) = (Ok (), (s', ws'))"
    "set_ok crc s' ws' lss'" "sealed crc s' ws' lss'"
    "concat lss' = filter (\<lambda>e. fst e < k) (concat lss)" "faulty s' = faulty s" "removed n ws ws'"
    "(\<forall>f \<in> set (butlast (files ws)). id_from f \<noteq> k) \<Longrightarrow> mmap_mut (last (files ws')) \<noteq> None"
    "\<And>f. f \<in> set (butlast (files ws)) \<Longrightarrow> id_from f = k \<Longrightarrow> mmap_mut (last (files ws')) = mmap_mut f"
    "dur crc s (last (files ws)) (last lss) \<Longrightarrow> dur crc s' (last (files ws')) (last lss')"
proof -
  have ok: "set_ok crc s ws lss" using inv by (simp add: set_inv_def)
  obtain vs w ps vls l pls where fs: "files ws = vs @ [w] @ ps" and lss: "lss = vls @ [l] @ pls"
    and len: "length vls = length vs" "length pls = length ps"
    and ps: "\<forall>f \<in> set ps. k < id_from f" and w: "id_from w \<le> k"
    by (rule truncate_split [OF ok lt])
  obtain s1 where s1: "pop_back_files k (s, ws) = (Ok (), (s1, ws\<lparr>files := vs @ [w]\<rparr>))" "no_faults s1" "faulty s1 = faulty s"
    "set_ok crc s1 (part (vs @ [w]) ws) (vls @ [l])" "sealed crc s1 (part (vs @ [w]) ws) (vls @ [l])"
    "ps \<noteq> [] \<Longrightarrow> dur crc s1 w l" "dur crc s w l \<Longrightarrow> dur crc s1 w l"
    by (rule truncate_pop [OF inv [unfolded lss] nf fs len ps w]) blast
  have fin: "file_in crc s1 (base_path ws) w l" using s1(4) by (simp add: set_ok_def list_all2_snoc)
  obtain w' where w': "truncate_file crc k (s1, w) = (Ok (), (s1, w'))"
      "file_in crc s1 (base_path ws) w' (filter (\<lambda>e. fst e < k) l)" "same_file w w'" "id_from w' = id_from w"
      "mmap_mut w \<noteq> None \<or> id_from w < k \<and> k \<le> id_until w \<Longrightarrow> mmap_mut w' \<noteq> None"
      "id_from w = k \<Longrightarrow> mmap_mut w' = mmap_mut w"
      "dur crc s1 w l \<Longrightarrow> dur crc s1 w' (filter (\<lambda>e. fst e < k) l)"
    by (rule truncate_file_spec [OF crc fin s1(2) w]) blast
  obtain i where i: "fs_lookup s1 (path w) = Some i" using fin by (auto simp: file_in_def)
  let ?ws' = "(part (vs @ [w]) ws)\<lparr>files := vs @ [w']\<rparr>" and ?lss' = "vls @ [filter (\<lambda>e. fst e < k) l]"
  have ok': "set_ok crc s1 ?ws' ?lss'"
    using w' by (intro set_ok_update_last [OF s1(4) _ i same_but_refl]) (simp_all add: same_file_def)
  have sl': "sealed crc s1 ?ws' ?lss'"
    by (rule sealed_update_last [OF s1(4) _ i same_but_refl s1(5)]) simp
  have run: "shift_delete_logs crc k til n (s, ws) = (Ok (), (s1, ?ws'))"
    using lt til s1(1) w'(1) fs by (simp add: shift_delete_logs_def act_simps refill_def
        on_file_eq nth_append list_update_append part_def)
  have conc: "concat ?lss' = filter (\<lambda>e. fst e < k) (concat lss)"
    unfolding lss by (rule truncate_keeps [OF ok [unfolded lss] fs len(1) ps w, symmetric])
  have rem: "removed n ws ?ws'"
    using fs w'(3) by (intro removed_partI [of ws "[]" "vs @ [w]" ps])
      (simp_all add: list_all2_snoc list_all2_same same_file_def)
  have "dur crc s1 w' (filter (\<lambda>e. fst e < k) l)" if "dur crc s (last (files ws)) (last lss)"
    using that w'(7) s1(6,7) fs lss len by (cases "ps = []") auto
  then show thesis
    using w'(5,6) truncate_mapped [OF inv fs ps w] s1(3)
    by (intro that [OF run ok' sl' conc _ rem]) auto
qed

end
