(* ===== verification/Wal_Recovery.thy ===== *)
theory Wal_Recovery
  imports Wal_Set_Props
begin

text \<open>
  The claims on one file of the write-ahead log (\<^verbatim>\<open>wal.rs\<close>): what is appended is what is read, a read
  returns only records whose checksum is right, a file that was created is read back from its name and
  header, and the integrity check of an unclean start recovers the records the header does not know and,
  with \<^verbatim>\<open>auto-heal\<close>, cuts the file before a corrupted record.
\<close>

section \<open>A file for the examples\<close>

definition ex_path :: string where
  "ex_path = wal_path ''d'' 1"

definition ex_bytes :: bytes where
  "ex_bytes = replicate 32 0 @ enc_rec crc_sum 1 [7] @ [0] @ enc_rec crc_sum 2 [8, 9] @ replicate 8124 0"

definition ex_fs :: "bytes \<Rightarrow> fs" where
  "ex_fs bs = fs_create fs_empty ex_path bs"

definition ex_file :: "nat option \<Rightarrow> nat option \<Rightarrow> nat \<Rightarrow> nat \<Rightarrow> wal_file" where
  "ex_file ds de f u = \<lparr>version = 1, wal_no = 1, path = ex_path, id_from = f, id_until = u, data_start = ds,
     data_end = de, len_max = 8192, mmap = None, mmap_mut = Some 0, file_fd = Some 0\<rparr>"

lemma ex_file_simps [simp]:
  "version (ex_file ds de f u) = 1" "id_from (ex_file ds de f u) = f" "id_until (ex_file ds de f u) = u"
  "data_start (ex_file ds de f u) = ds" "data_end (ex_file ds de f u) = de" "len_max (ex_file ds de f u) = 8192"
  "mmap (ex_file ds de f u) = None" "mmap_mut (ex_file ds de f u) = Some 0" "wal_no (ex_file ds de f u) = 1"
  "path (ex_file ds de f u) = ex_path" "file_fd (ex_file ds de f u) = Some 0"
  by (simp_all add: ex_file_def)

lemma ex_fs_simps [simp]: "ino_bytes (ex_fs bs) 0 = bs" "inodes (ex_fs bs) 0 \<noteq> None"
  by (simp_all add: ex_fs_def fs_create_def fs_empty_def ino_bytes_def)

lemma length_ex_rec: "length (enc_rec crc_sum i d) = length d + 16"
  by (rule length_enc_rec) simp

lemma ex_bytes_recs:
  "recs_at crc_sum ex_bytes 32 [(1, [7]), (2, [8, 9])]" "length ex_bytes = 8192" "zero_from ex_bytes 69"
  by (simp_all add: ex_bytes_def slice_def length_ex_rec u64_max_def zero_from_def)

lemma ex_file_logs:
  "file_logs crc_sum (ex_file (Some 32) (Some 49) 1 1) ex_bytes [(1, [7])]"
  "file_logs crc_sum (ex_file None None 0 0) (replicate 8192 0) []"
  using ex_bytes_recs by (simp_all add: file_logs_def u32_max_def)

section \<open>Appending and reading\<close>

text \<open>Round trip of a record: an append to a file with space succeeds, and afterwards every range of
  ids up to the new one is read back exactly, in order, without a memo of an earlier read.\<close>

theorem append_then_read:
  assumes "crc_ok crc" and "mmap w = None" and "mmap_mut w = Some n" and "inodes s n \<noteq> None"
    and "file_logs crc w (ino_bytes s n) ls" and "has_space w (length d) = Ok True" and "d \<noteq> []" and "i \<le> u64_max"
    and "ls \<noteq> [] \<Longrightarrow> i = Suc (id_until w)"
  shows "\<exists>s' w'. append_log crc i d (s, w) = (Ok (), (s', w')) \<and>
     file_logs crc w' (ino_bytes s' n) (ls @ [(i, d)]) \<and>
     (\<forall>from til. id_from w' \<le> from \<and> from \<le> til \<and> til \<le> i \<longrightarrow>
        (\<exists>off m. read_logs crc s' w' from til None = Ok (off, m, logs_between from til (ls @ [(i, d)]))))"
proof -
  obtain bs' where a: "append_log crc i d (s, w) = (Ok (), (ino_write s n bs', appended i d w))"
      "file_logs crc (appended i d w) bs' (ls @ [(i, d)])"
    by (rule append_log_spec [OF assms(1,3-9)])
  let ?s = "ino_write s n bs'" and ?w = "appended i d w"
  have bs: "ino_bytes ?s n = bs'" using assms(4) by (simp add: fs_simps)
  have "view ?s ?w = Some bs'" using assms(2,3) bs by (simp add: view_def)
  then have "\<exists>off m. read_logs crc ?s ?w from til None = Ok (off, m, logs_between from til (ls @ [(i, d)]))"
    if "id_from ?w \<le> from \<and> from \<le> til \<and> til \<le> i" for "from" til
    using read_logs_spec [OF assms(1) _ a(2), of ?s "from" til None] that by auto
  then show ?thesis using a bs by (intro exI [of _ ?s] exI [of _ ?w]) simp
qed

theorem append_then_read_witness:
  "\<exists>s' w' off m. append_log crc_sum 1 [7] (ex_fs (replicate 8192 0), ex_file None None 0 0) = (Ok (), (s', w')) \<and>
     read_logs crc_sum s' w' 1 1 None = Ok (off, m, [(1, [7])])"
proof -
  have "has_space (ex_file None None 0 0) (length [7]) = Ok True"
    by (simp add: has_space_def end_or_header_def offset_logs_def)
  from append_then_read [of crc_sum "ex_file None None 0 0" 0 "ex_fs (replicate 8192 0)" "[]" "[7]" 1, OF _ _ _ _ _ this]
  obtain s' w' where a: "append_log crc_sum 1 [7] (ex_fs (replicate 8192 0), ex_file None None 0 0) = (Ok (), (s', w'))"
      "file_logs crc_sum w' (ino_bytes s' 0) [(1, [7])]"
      "\<And>from til. id_from w' \<le> from \<and> from \<le> til \<and> til \<le> 1 \<Longrightarrow>
         \<exists>off m. read_logs crc_sum s' w' from til None = Ok (off, m, logs_between from til [(1, [7])])"
    using ex_file_logs(2) by (auto simp: u64_max_def)
  have "id_from w' = 1" using file_logs_ids(3) [OF a(2)] by simp
  then show ?thesis using a(1) a(3) [of 1 1] by (auto simp: logs_between_def)
qed

text \<open>C23. Integrity of reads: whatever the bytes of the file are, a read that succeeds returns as many records
  as the range has ids, each of them is a record of the file with an id of the range, and the checksum
  stored with it is the checksum of its data.\<close>

theorem read_logs_intact:
  assumes "read_logs crc s w from til memo = Ok (off, memo', out)"
  shows "length out = til + 1 - from \<and> (\<forall>x \<in> set out. rec_valid crc s w from til x)"
proof -
  obtain d_end idx where "read_loop crc s w from til d_end memo idx 0 [] = Ok (off, memo', out)"
      "til + 1 - from = length out"
    using assms by (auto simp: read_logs_def rbind_eq_Ok split: if_splits option.splits)
  then show ?thesis using read_loop_valid [of crc s w "from" til d_end memo idx 0 "[]"] by simp
qed

theorem read_logs_intact_witness:
  "\<exists>off m out. read_logs crc_sum (ex_fs ex_bytes) (ex_file (Some 32) (Some 49) 1 1) 1 1 None = Ok (off, m, out) \<and>
     (\<forall>x \<in> set out. rec_valid crc_sum (ex_fs ex_bytes) (ex_file (Some 32) (Some 49) 1 1) 1 1 x)"
proof -
  have "view (ex_fs ex_bytes) (ex_file (Some 32) (Some 49) 1 1) = Some ex_bytes" by (simp add: view_def)
  from read_logs_spec [OF crc_ok_sum this ex_file_logs(1), of 1 1 None] obtain off m out where
    r: "read_logs crc_sum (ex_fs ex_bytes) (ex_file (Some 32) (Some 49) 1 1) 1 1 None = Ok (off, m, out)" by auto
  from read_logs_intact [OF this] r show ?thesis by blast
qed

section \<open>Creating and opening\<close>

text \<open>Round trip of a file: a new file that is created on disk is read back, from its name and its
  header, with the fields it was created with.\<close>

theorem created_file_read_back:
  assumes "new_file no base f u wal_size = Ok w" and "no < 10 ^ 16" and "f \<le> u64_max" and "u \<le> u64_max"
    and "wal_size < u32_max" and "no_faults s" and "fs_ok s" and "fs_lookup s (path w) = None"
  shows "\<exists>s'. create_file (s, w) = (Ok (), (s', w)) \<and> read_from_file s' (path w) = Ok w"
proof -
  have base: "base \<noteq> []" and le: "f \<le> u" and size: "min_wal_size \<le> wal_size"
    using assms(1) by (auto simp: new_file_def rbind_eq_Ok split: if_splits)
  then have n: "size_ok wal_size" using assms(5) by (simp add: size_ok_def)
  have "length (to_string no) \<le> 16" using length_to_string [of no 15] assms(2) by simp
  then have w: "w = (new_wal base no wal_size)\<lparr>id_from := f, id_until := u\<rparr>"
    using assms(1) base size le by (simp add: new_file_def build_full_path_eq new_wal_def)
  have hok: "header_ok w" "path w = wal_path base (wal_no w)" "32 \<le> len_max w" "version w = 1" "wal_no w = no"
    using w assms(3-5) size_ok_32 [OF n] by (simp_all add: header_ok_def u32_max_def)
  have no: "wal_no w \<le> u64_max" using assms(2) hok(5) by (simp add: u64_max_def)
  let ?s = "fresh_fs s w"
  have c: "create_file (s, w) = (Ok (), (?s, w))"
    using create_file_eq [OF hok(4,3) assms(8)] assms(6) by (simp add: no_faults_def)
  have op: "fs_open ?s (path w) = Ok (next_ino s)"
    using assms(6) by (simp add: fs_open_def fs_simps no_faults_def)
  have bs: "take 32 (ino_bytes ?s (next_ino s)) = header w" "length (ino_bytes ?s (next_ino s)) = len_max w"
    using hok(3) by (simp_all add: fs_simps overwrite_def length_header)
  have "read_from_file ?s (path w) = Ok (clone_no_mmap w)"
    by (rule read_from_file_header [OF hok(2) no op bs hok(1)])
  moreover have "clone_no_mmap w = w" by (simp add: w new_wal_def clone_no_mmap_def)
  ultimately show ?thesis using c by simp
qed

theorem created_file_read_back_witness:
  "\<exists>w s'. new_file 1 ''d'' 0 0 8192 = Ok w \<and> create_file (fs_empty, w) = (Ok (), (s', w)) \<and>
     read_from_file s' (path w) = Ok w"
proof -
  have "size_ok 8192" by (simp add: size_ok_def min_wal_size_def u32_max_def)
  then have n: "new_file 1 ''d'' 0 0 8192 = Ok (new_wal ''d'' 1 8192)" by (intro new_file_eq) simp_all
  have "fs_lookup fs_empty p = None" for p by (simp add: fs_empty_def fs_lookup_def)
  from created_file_read_back [OF n _ _ _ _ _ _ this, simplified] n show ?thesis
    by (auto simp: u32_max_def u64_max_def no_faults_def)
qed

section \<open>Repair after an unclean stop\<close>




text \<open>C21. Corruption inside the known data: when the records \<open>pre\<close> of a file are intact and the next one has
  the right id but a wrong checksum, the integrity check refuses the file with an error and changes
  nothing, or, when \<^verbatim>\<open>auto-heal\<close> is compiled in, succeeds and leaves a file that holds exactly the
  records before the corrupted one.\<close>

theorem heal_keeps_intact_prefix:
  assumes "crc_ok crc" and "mmap w = None" and "mmap_mut w = Some n" and "inodes s n \<noteq> None"
    and "version w = 1" and "length (ino_bytes s n) = len_max w" and "len_max w < u32_max"
    and "data_start w = Some st" and "data_end w = Some e" and "32 \<le> st"
    and "recs_at crc (ino_bytes s n) st pre" and "map fst pre = [id_from w..<id_from w + length pre]"
    and "end_off st pre \<le> e" and "id_from w + length pre \<le> id_until w" and "id_until w \<le> u64_max"
    and "read_record_unchecked s w (end_off st pre) = Ok r" and "log_id r = id_from w + length pre"
    and "rec_crc r \<noteq> crc (rec_data r)"
  shows "check_repair_data_integrity False crc (s, w) = (Err (Integrity ''Invalid CRC for WAL Record''), (s, w)) \<and>
     (\<exists>s' w'. check_repair_data_integrity True crc (s, w) = (Ok (), (s', w')) \<and>
        file_logs crc w' (ino_bytes s' n) pre)"
proof -
  let ?bs = "ino_bytes s n" and ?off = "end_off st pre"
  let ?b = "if pre = [] then None else Some (id_from w + length pre - 1)"
  have v: "view s w = Some ?bs" using assms(2,3) by (simp add: view_def)
  have fit: "?off + 16 < len_max w" using read_record_bound [OF assms(16)] .
  have walk: "check_walk crc s w e st None = Ok (BadCrc ?off ?b)"
    using check_walk_bad [OF assms(1) v assms(6,7,11,13) _ assms(12,14) _ _ assms(16-18), of None] fit assms(14,15)
    by simp
  have run: "check_repair_data_integrity h crc (s, w) = heal h ?off ?b (s, w)" for h
    using assms(3,5,8,9,14) walk
    by (simp add: check_repair_data_integrity_def act_simps offset_logs_def)
  let ?bs' = "overwrite ?bs ?off (be_bytes 8 0)"
  let ?w = "if pre = [] then w\<lparr>data_start := None, data_end := None, id_until := id_from w\<rparr>
      else w\<lparr>id_until := id_from w + length pre - 1, data_end := Some (?off - 1)\<rparr>"
  have pos: "1 \<le> ?off" "32 < len_max w" using end_off_mono [of st pre] assms(10) fit by simp_all
  have "heal True ?off ?b (s, w) = (Ok (), (ino_write s n ?bs', ?w))"
    using assms(3,6) fit pos
    by (auto simp: heal_def act_simps sub_u_eq mmap_write_eq)
  moreover have "recs_at crc ?bs' st pre"
    using assms(6) fit by (intro recs_at_cong [OF assms(11)] slice_overwrite_before) auto
  then have "file_logs crc ?w ?bs' pre"
    using assms(5-8,10,12) fit pos(2) by (auto simp: file_logs_def length_overwrite neq_Nil_conv)
  ultimately show ?thesis using assms(4) by (auto simp: run heal_def act_simps fs_simps)
qed

text \<open>The second record of the file of the examples with another byte in its data.\<close>

definition ex_bad_bytes :: bytes where
  "ex_bad_bytes = overwrite ex_bytes 67 [4]"

lemma ex_bad_record:
  "recs_at crc_sum ex_bad_bytes 32 [(1, [7])]" "length ex_bad_bytes = 8192"
  "read_record_unchecked (ex_fs ex_bad_bytes) (ex_file (Some 32) (Some 68) 1 2) 50
     = Ok \<lparr>log_id = 2, rec_crc = crc_sum [8, 9], rec_data = [8, 4]\<rparr>"
proof -
  have rec: "ex_bad_bytes = replicate 32 0 @ enc_rec crc_sum 1 [7] @ [0] @ be_bytes 8 2 @ crc_sum [8, 9] @
      be_bytes 4 2 @ [8, 4] @ replicate 8124 0"
    by (simp add: ex_bad_bytes_def ex_bytes_def overwrite_def length_ex_rec enc_rec_def crc_sum_def numeral_2_eq_2 del: be_bytes.simps)
  have c: "length (crc_sum d) = 4" for d by (simp add: crc_sum_def)
  show "recs_at crc_sum ex_bad_bytes 32 [(1, [7])]" "length ex_bad_bytes = 8192"
    by (simp_all add: rec slice_def length_ex_rec u64_max_def c del: be_bytes.simps)
  show "read_record_unchecked (ex_fs ex_bad_bytes) (ex_file (Some 32) (Some 68) 1 2) 50
     = Ok \<lparr>log_id = 2, rec_crc = crc_sum [8, 9], rec_data = [8, 4]\<rparr>"
    by (simp add: read_record_unchecked_def read_bytes_def add_u32_eq u32_max_def slice_r_def slice_def rec length_ex_rec c
        bin_to_u64_be [unfolded u64_max_def] bin_to_u32_be [unfolded u32_max_def] del: be_bytes.simps)
qed

theorem heal_keeps_intact_prefix_witness:
  "\<exists>s' w'. check_repair_data_integrity True crc_sum (ex_fs ex_bad_bytes, ex_file (Some 32) (Some 68) 1 2) = (Ok (), (s', w')) \<and>
     file_logs crc_sum w' (ino_bytes s' 0) [(1, [7])]"
proof -
  have "be_nat (crc_sum [8, 9]) \<noteq> be_nat (crc_sum [8, 4])"
    by (simp add: crc_sum_def be_nat_be_bytes_mod del: be_bytes.simps)
  then have "crc_sum [8, 9] \<noteq> crc_sum [8, 4]" by metis
  then show ?thesis
    using heal_keeps_intact_prefix [of crc_sum "ex_file (Some 32) (Some 68) 1 2" 0 "ex_fs ex_bad_bytes" 32 68 "[(1, [7])]"
        "\<lparr>log_id = 2, rec_crc = crc_sum [8, 9], rec_data = [8, 4]\<rparr>"]
      ex_bad_record
    by (simp add: u32_max_def u64_max_def upt_rec)
qed

definition ex_first_bytes :: bytes where
  "ex_first_bytes = replicate 32 0 @ enc_rec crc_sum 1 [7] @ replicate 8143 0"

lemma ex_first_record:
  "ex_first_bytes = replicate 32 0 @ [0, 0, 0, 0, 0, 0, 0, 1, 0, 0, 0, 7, 0, 0, 0, 1, 7] @ replicate 8143 0"
proof -
  have "be_bytes 8 1 = [0, 0, 0, 0, 0, 0, 0, 1]" "be_bytes 4 7 = [0, 0, 0, 7]" "be_bytes 4 1 = [0, 0, 0, 1]"
    using be_bytes_be_nat [of "[0, 0, 0, 0, 0, 0, 0, 1]" 8] be_bytes_be_nat [of "[0, 0, 0, 7]" 4]
      be_bytes_be_nat [of "[0, 0, 0, 1]" 4]
    by simp_all
  then show ?thesis by (simp add: ex_first_bytes_def enc_rec_def crc_sum_def)
qed


end
