(* ===== verification/Raft_Log.thy ===== *)
theory Raft_Log
  imports Hql_Prelude
begin

text \<open>
  What openraft expects of a log storage, as an abstract specification: the log is a list of entries with
  consecutive ids, an append extends it, a truncation drops a suffix, a purge drops a prefix, and a read
  returns a part of it. The locale \<open>raft_log_storage\<close> is the interface: a storage whose operations refine the
  abstract ones one at a time refines every sequence of them. It is interpreted on
  the log in memory; \<^verbatim>\<open>Wal_Store_Props\<close> relates the store on the write-ahead log to a list of entries.
\<close>

section \<open>Ids and ranges\<close>

text \<open>The log id of openraft and a bound of a range of the standard library.\<close>

record log_id_rec =
  lid_term :: nat
  lid_node :: nat
  lid_index :: nat

datatype bound = Included nat | Excluded nat | Unbounded

section \<open>The abstract log\<close>

type_synonym 'd rlog = "(nat \<times> 'd) list"

datatype 'd log_op = LAppend "'d rlog" | LTruncate nat | LPurge nat

definition contiguous :: "'d rlog \<Rightarrow> bool" where
  "contiguous L \<longleftrightarrow> L = [] \<or> map fst L = [fst (hd L)..<fst (hd L) + length L]"

definition continues :: "'d rlog \<Rightarrow> 'd rlog \<Rightarrow> bool" where
  "continues L es \<longleftrightarrow> contiguous es \<and> (L \<noteq> [] \<longrightarrow> es \<noteq> [] \<longrightarrow> fst (hd es) = Suc (fst (last L)))"

text \<open>\<open>keep\<close> tells whether a purge keeps the entry it names.\<close>

fun spec_op :: "bool \<Rightarrow> 'd log_op \<Rightarrow> 'd rlog \<Rightarrow> 'd rlog" where
  "spec_op keep (LAppend es) L = L @ es"
| "spec_op keep (LTruncate k) L = filter (\<lambda>e. fst e < k) L"
| "spec_op keep (LPurge k) L = filter (\<lambda>e. if keep then k \<le> fst e else k < fst e) L"

fun op_ok :: "'d rlog \<Rightarrow> 'd log_op \<Rightarrow> bool" where
  "op_ok L (LAppend es) = continues L es"
| "op_ok L (LTruncate k) = True"
| "op_ok L (LPurge k) = True"

definition between :: "nat \<Rightarrow> nat \<Rightarrow> 'd rlog \<Rightarrow> 'd rlog" where
  "between a b L = filter (\<lambda>e. a \<le> fst e \<and> fst e \<le> b) L"

fun run_ops :: "('o \<Rightarrow> 's \<Rightarrow> 's option) \<Rightarrow> 'o list \<Rightarrow> 's \<Rightarrow> 's option" where
  "run_ops exec [] s = Some s"
| "run_ops exec (x # xs) s = (case exec x s of None \<Rightarrow> None | Some s' \<Rightarrow> run_ops exec xs s')"

section \<open>Facts on contiguous logs\<close>

lemma contiguous_Nil [simp]: "contiguous []"
  by (simp add: contiguous_def)

lemma contiguousI: "map fst L = [a..<a + length L] \<Longrightarrow> contiguous L"
  by (cases L) (auto simp: contiguous_def upt_conv_Cons simp del: upt_Suc)

lemma contiguousE:
  assumes "contiguous L"
  obtains a where "map fst L = [a..<a + length L]" "L \<noteq> [] \<Longrightarrow> a = fst (hd L)"
  using assms by (auto simp: contiguous_def)

lemma contiguous_last:
  assumes "map fst L = [a..<a + length L]" and "L \<noteq> []"
  shows "fst (last L) = a + length L - 1"
proof -
  have "fst (last L) = last (map fst L)" using assms(2) by (simp add: last_map)
  then show ?thesis using assms by (simp add: last_upt)
qed

lemma contiguous_append:
  assumes "contiguous L" and "continues L es"
  shows "contiguous (L @ es)"
proof (cases "L = [] \<or> es = []")
  case True
  then show ?thesis using assms by (auto simp: continues_def)
next
  case False
  obtain a where a: "map fst L = [a..<a + length L]" using assms(1) by (rule contiguousE)
  obtain b where b: "map fst es = [b..<b + length es]" "b = fst (hd es)"
    using assms(2) False by (auto simp: continues_def elim: contiguousE)
  have "b = a + length L"
    using assms(2) b(2) contiguous_last [OF a] False by (simp add: continues_def)
  then have "map fst (L @ es) = [a..<a + length (L @ es)]"
    using a b(1) upt_add_eq_append [of a "a + length L" "length es"] by (simp add: add.assoc)
  then show ?thesis by (rule contiguousI)
qed

lemma filter_upt_map:
  assumes "map fst L = [a..<a + length L]"
  shows "filter (\<lambda>e. k \<le> fst e) L = drop (k - a) L" and "filter (\<lambda>e. fst e < k) L = take (k - a) L"
proof -
  have "filter (\<lambda>e. k \<le> fst e) L = drop (k - a) L \<and> filter (\<lambda>e. fst e < k) L = take (k - a) L"
    using assms
  proof (induction L arbitrary: a)
    case Nil
    then show ?case by simp
  next
    case (Cons x L)
    have x: "fst x = a" "map fst L = [Suc a..<Suc a + length L]"
      using Cons.prems by (simp_all add: upt_conv_Cons del: upt_Suc)
    show ?case
    proof (cases "k \<le> a")
      case True
      then show ?thesis using Cons.IH [OF x(2)] x(1) by simp
    next
      case False
      then have "k - a = Suc (k - Suc a)" by simp
      then show ?thesis using Cons.IH [OF x(2)] x(1) False by simp
    qed
  qed
  then show "filter (\<lambda>e. k \<le> fst e) L = drop (k - a) L" and "filter (\<lambda>e. fst e < k) L = take (k - a) L" by auto
qed

lemma contiguous_drop: "contiguous L \<Longrightarrow> contiguous (drop n L)"
proof (erule contiguousE)
  fix a assume a: "map fst L = [a..<a + length L]"
  then have "map fst (drop n L) = [a + n..<a + length L]" by (simp add: drop_map [symmetric])
  then show ?thesis by (intro contiguousI [of _ "a + n"]) (cases "n \<le> length L"; simp)
qed

lemma contiguous_take: "contiguous L \<Longrightarrow> contiguous (take n L)"
proof (erule contiguousE)
  fix a assume a: "map fst L = [a..<a + length L]"
  then have "map fst (take n L) = [a..<a + min n (length L)]" by (simp add: take_map [symmetric] min_def)
  then show ?thesis by (intro contiguousI [of _ a]) (simp add: min.commute)
qed

lemma contiguous_filter:
  assumes "contiguous L"
  shows "contiguous (filter (\<lambda>e. k \<le> fst e) L)" and "contiguous (filter (\<lambda>e. fst e < k) L)"
    and "contiguous (filter (\<lambda>e. k < fst e) L)"
proof -
  obtain a where a: "map fst L = [a..<a + length L]" using assms by (rule contiguousE)
  show ge: "contiguous (filter (\<lambda>e. k \<le> fst e) L)" for k
    using contiguous_drop [OF assms] by (simp add: filter_upt_map(1) [OF a])
  show "contiguous (filter (\<lambda>e. fst e < k) L)"
    using contiguous_take [OF assms] by (simp add: filter_upt_map(2) [OF a])
  show "contiguous (filter (\<lambda>e. k < fst e) L)"
    using ge [of "Suc k"] by (simp add: Suc_le_eq)
qed

lemma contiguous_spec: "contiguous L \<Longrightarrow> op_ok L x \<Longrightarrow> contiguous (spec_op keep x L)"
  by (cases x; cases keep) (auto simp: contiguous_append contiguous_filter)

section \<open>The interface\<close>

fun spec_run :: "bool \<Rightarrow> 'd log_op list \<Rightarrow> 'd rlog \<Rightarrow> 'd rlog" where
  "spec_run keep [] L = L"
| "spec_run keep (x # xs) L = spec_run keep xs (spec_op keep x L)"

text \<open>A sequence is admissible when each operation is, in the state the ones before it lead to.\<close>

fun ok_run :: "bool \<Rightarrow> ('d log_op \<Rightarrow> 's \<Rightarrow> bool) \<Rightarrow> ('d log_op \<Rightarrow> 's \<Rightarrow> 's option) \<Rightarrow> 'd log_op list \<Rightarrow> 's \<Rightarrow> 'd rlog \<Rightarrow> bool" where
  "ok_run keep pre exec [] s L = True"
| "ok_run keep pre exec (x # xs) s L = (op_ok L x \<and> pre x s \<and>
     (case exec x s of None \<Rightarrow> True | Some s' \<Rightarrow> ok_run keep pre exec xs s' (spec_op keep x L)))"

locale raft_log_storage =
  fixes keep :: bool
    and rep :: "'s \<Rightarrow> 'd rlog \<Rightarrow> bool"
    and pre :: "'d log_op \<Rightarrow> 's \<Rightarrow> bool"
    and exec :: "'d log_op \<Rightarrow> 's \<Rightarrow> 's option"
    and get :: "nat \<Rightarrow> nat \<Rightarrow> 's \<Rightarrow> 'd list option"
  assumes exec_refines: "rep s L \<Longrightarrow> op_ok L x \<Longrightarrow> pre x s \<Longrightarrow> \<exists>s'. exec x s = Some s' \<and> rep s' (spec_op keep x L)"
    and get_refines: "rep s L \<Longrightarrow> a \<in> fst ` set L \<Longrightarrow> b \<in> fst ` set L \<Longrightarrow> a \<le> b \<Longrightarrow>
      get a b s = Some (map snd (between a b L))"
    and rep_contiguous: "rep s L \<Longrightarrow> contiguous L"
begin

lemma run_refines:
  assumes "rep s L" and "ok_run keep pre exec xs s L"
  shows "\<exists>s'. run_ops exec xs s = Some s' \<and> rep s' (spec_run keep xs L)"
  using assms
proof (induction xs arbitrary: s L)
  case Nil
  then show ?case by simp
next
  case (Cons x xs)
  obtain s' where s': "exec x s = Some s'" "rep s' (spec_op keep x L)"
    using exec_refines [OF Cons.prems(1), of x] Cons.prems(2) by auto
  with Cons.IH [OF s'(2)] Cons.prems(2) show ?case by simp
qed

lemma run_then_get:
  assumes "rep s L" and "ok_run keep pre exec xs s L"
    and "a \<in> fst ` set (spec_run keep xs L)" "b \<in> fst ` set (spec_run keep xs L)" "a \<le> b"
  shows "\<exists>s'. run_ops exec xs s = Some s' \<and> get a b s' = Some (map snd (between a b (spec_run keep xs L))) \<and>
    contiguous (spec_run keep xs L)"
  using run_refines [OF assms(1,2)] get_refines [OF _ assms(3-5)] rep_contiguous by blast

end

end
