(* ===== verification/Wal_Writer.thy ===== *)
theory Wal_Writer
  imports Wal_Set_Props Wal_Meta Raft_Log
begin

text \<open>
  The writer of the write-ahead log, \<^verbatim>\<open>hiqlite-wal/src/writer.rs\<close>: the requests it serves, one at a time
  in the order of its channel, on the file system, the metadata, its own set of files and the copy of
  that set it shares with the readers. Acknowledgements and the completion callback are recorded in
  the order they are sent. This theory has the definitions; \<^verbatim>\<open>Wal_Writer_Props\<close> has what they satisfy.
\<close>

section \<open>Requests and configuration\<close>

datatype log_sync = Immediate | ImmediateAsync | IntervalMillis nat

definition log_sync_try_from :: "string \<Rightarrow> (wal_error, log_sync) res" where
  "log_sync_try_from v =
     (if v = ''immediate'' then Ok Immediate
      else if v = ''immediate_async'' then Ok ImmediateAsync
      else (case strip_prefix v ''interval_'' of
              Some ms \<Rightarrow>
                (case parse_uint u64_max ms of
                   Some n \<Rightarrow> Ok (IntervalMillis n)
                 | None \<Rightarrow> Err (Generic ''Invalid value for log_sync interval, cannot parse as u64''))
            | None \<Rightarrow> Err (Generic ''Cannot parse LogSync - invalid value'')))"

datatype w_action =
    Append logs
  | Remove nat nat "bytes option"
  | VoteAction bytes
  | Sync
  | Shutdown

text \<open>What the writer sends back: the acknowledgement of a request, the completion callback of an append
  and the acknowledgement of the shutdown.\<close>

datatype w_event = Ack "(wal_error, unit) res" | Callback "(wal_error, unit) res" | ShutdownAck

record wal_cfg =
  cfg_crc :: "bytes \<Rightarrow> bytes"
  cfg_ser :: "metadata \<Rightarrow> (wal_error, bytes) res"
  cfg_size :: nat
  cfg_sync :: log_sync
  cfg_oversized_error :: bool

record writer_st =
  w_fs :: fs
  w_meta :: metadata
  w_locked :: wal_set
  w_set :: wal_set
  is_dirty :: bool
  w_out :: "w_event list"

definition on_set :: "(sst, wal_error, 'a) act \<Rightarrow> (writer_st, wal_error, 'a) act" where
  "on_set m = (\<lambda>st. case m (w_fs st, w_set st) of
     (r, (s, ws)) \<Rightarrow> (r, st\<lparr>w_fs := s, w_set := ws\<rparr>))"

definition on_fs :: "(fs, wal_error, 'a) act \<Rightarrow> (writer_st, wal_error, 'a) act" where
  "on_fs m = (\<lambda>st. case m (w_fs st) of (r, s) \<Rightarrow> (r, st\<lparr>w_fs := s\<rparr>))"

definition send :: "w_event \<Rightarrow> (writer_st, wal_error, unit) act" where
  "send ev = amod (\<lambda>st. st\<lparr>w_out := w_out st @ [ev]\<rparr>)"

section \<open>Flushing and publishing\<close>

definition flush_blocking :: "(writer_st, wal_error, unit) act" where
  "flush_blocking =
     abind aget (\<lambda>st.
     if \<not> is_dirty st then aret ()
     else
       athen (on_set (on_active (athen update_header flush)))
       (amod (\<lambda>st. st\<lparr>is_dirty := False\<rparr>)))"

text \<open>The two ways the shared copy is brought up to date: all files, or only the active one.\<close>

definition publish_files :: "(writer_st, wal_error, unit) act" where
  "publish_files =
     abind aget (\<lambda>st.
     abind (alift (clone_files_from_no_mmap ((w_locked st)\<lparr>active := active (w_set st)\<rparr>) (files (w_set st))))
       (\<lambda>lock. amod (\<lambda>st. st\<lparr>w_locked := lock\<rparr>)))"

definition publish_active :: "(writer_st, wal_error, unit) act" where
  "publish_active =
     abind aget (\<lambda>st.
     athen (aassert (\<lambda>_. active (w_locked st) = active (w_set st)))
     (abind (alift (active_idx (w_locked st))) (\<lambda>i.
      abind (alift (active_idx (w_set st))) (\<lambda>j.
      abind (alift (clone_from_no_mmap (files (w_locked st) ! i) (files (w_set st) ! j))) (\<lambda>w.
      amod (\<lambda>st. st\<lparr>w_locked := (w_locked st)\<lparr>files := (files (w_locked st))[i := w]\<rparr>\<rparr>))))))"

section \<open>Appending\<close>

definition active_space :: "nat \<Rightarrow> (writer_st, wal_error, bool) act" where
  "active_space n = on_set (on_active (\<lambda>(s, w). (has_space w n, (s, w))))"

text \<open>The loop over the entries of one request. Its value is the result that is acknowledged; the action
  itself fails where the source leaves the task with \<^verbatim>\<open>?\<close> or panics.\<close>

fun append_entries :: "wal_cfg \<Rightarrow> nat \<Rightarrow> logs \<Rightarrow> (writer_st, wal_error, (wal_error, unit) res) act" where
  "append_entries cfg limit [] = aret (Ok ())"
| "append_entries cfg limit ((i, d) # rest) =
     (if length d > limit then
        (if cfg_oversized_error cfg
         then aret (Err (WalSizeExceeded ''data length must not exceed wal_size''))
         else apanic ''data length must not exceed wal_size'')
      else
        abind (active_space (length d)) (\<lambda>space.
        athen (if space then aret ()
               else athen (on_set (roll_over (cfg_size cfg))) publish_files)
        (\<lambda>st. case on_set (on_active (append_log (cfg_crc cfg) i d)) st of
           (Err e, st') \<Rightarrow> (Ok (Err e), st')
         | (Panic p, st') \<Rightarrow> (Panic p, st')
         | (Ok _, st') \<Rightarrow>
             athen (on_set (on_active (aassert (\<lambda>(s, w). id_until w = i))))
               (append_entries cfg limit rest) st')))"

definition catch_cb :: "(wal_error, unit) res \<Rightarrow> (writer_st, wal_error, unit) act \<Rightarrow>
    (writer_st, wal_error, (wal_error, unit) res) act" where
  "catch_cb res m = (\<lambda>st. case m st of
     (Ok _, st') \<Rightarrow> (Ok res, st')
   | (Err e, st') \<Rightarrow> (Ok (Err e), st')
   | (Panic p, st') \<Rightarrow> (Panic p, st'))"

definition sync_after_append :: "log_sync \<Rightarrow> (wal_error, unit) res \<Rightarrow>
    (writer_st, wal_error, (wal_error, unit) res) act" where
  "sync_after_append sync res = (case sync of
     Immediate \<Rightarrow> catch_cb res flush_blocking
   | ImmediateAsync \<Rightarrow> catch_cb res (on_set (on_active flush_async))
   | IntervalMillis _ \<Rightarrow> aret res)"

definition handle_append :: "wal_cfg \<Rightarrow> nat \<Rightarrow> logs \<Rightarrow> (writer_st, wal_error, unit) act" where
  "handle_append cfg limit entries =
     abind (append_entries cfg limit entries) (\<lambda>res.
     athen publish_active
     (athen (send (Ack res))
     (athen (amod (\<lambda>st. st\<lparr>is_dirty := True\<rparr>))
     (abind (sync_after_append (cfg_sync cfg) res) (\<lambda>res_cb.
      athen (send (Callback res_cb))
     (abind (on_set (on_active (\<lambda>(s, w). (space_left w, (s, w))))) (\<lambda>left.
      if left < 4 * 1024
      then athen (on_set (roll_over (cfg_size cfg))) publish_files
      else aret ())))))))"

section \<open>Removing, voting and stopping\<close>

definition write_meta :: "wal_cfg \<Rightarrow> (writer_st, wal_error, unit) act" where
  "write_meta cfg = abind aget (\<lambda>st.
     on_fs (meta_write (cfg_crc cfg) (cfg_ser cfg) (w_meta st) (base_path (w_set st))))"

definition set_purged :: "bytes option \<Rightarrow> (writer_st, wal_error, unit) act" where
  "set_purged v = amod (\<lambda>st. st\<lparr>w_meta := (w_meta st)\<lparr>last_purged_log_id := v\<rparr>\<rparr>)"

definition handle_remove :: "wal_cfg \<Rightarrow> nat \<Rightarrow> nat \<Rightarrow> bytes option \<Rightarrow> (writer_st, wal_error, unit) act" where
  "handle_remove cfg from til last_log = (\<lambda>st.
     case flush_blocking st of
       (Err e, st1) \<Rightarrow> send (Ack (Err e)) st1
     | (Panic p, st1) \<Rightarrow> (Panic p, st1)
     | (Ok _, st1) \<Rightarrow>
         athen (if last_log \<noteq> None then athen (set_purged last_log) (write_meta cfg) else aret ())
         (\<lambda>st2. case on_set (shift_delete_logs (cfg_crc cfg) from til (cfg_size cfg)) st2 of
            (Ok _, st3) \<Rightarrow> athen publish_files (send (Ack (Ok ()))) st3
          | (Panic p, st3) \<Rightarrow> (Panic p, st3)
          | (Err e, st3) \<Rightarrow>
              (if last_log \<noteq> None then
                 athen (set_purged (last_purged_log_id (w_meta st1)))
                   (abind (catch_cb (Ok ()) (write_meta cfg)) (\<lambda>_. send (Ack (Err e)))) st3
               else send (Ack (Err e)) st3)) st1)"

definition handle_vote :: "wal_cfg \<Rightarrow> bytes \<Rightarrow> (writer_st, wal_error, unit) act" where
  "handle_vote cfg value =
     athen flush_blocking
     (athen (amod (\<lambda>st. st\<lparr>w_meta := (w_meta st)\<lparr>vote := Some value\<rparr>\<rparr>))
     (abind (catch_cb (Ok ()) (write_meta cfg)) (\<lambda>res. send (Ack res))))"

definition handle_action :: "wal_cfg \<Rightarrow> nat \<Rightarrow> w_action \<Rightarrow> (writer_st, wal_error, unit) act" where
  "handle_action cfg limit a = (case a of
     Append entries \<Rightarrow> handle_append cfg limit entries
   | Remove from til last_log \<Rightarrow> handle_remove cfg from til last_log
   | VoteAction value \<Rightarrow> handle_vote cfg value
   | Sync \<Rightarrow> flush_blocking
   | Shutdown \<Rightarrow> aret ())"

fun run_loop :: "wal_cfg \<Rightarrow> nat \<Rightarrow> w_action list \<Rightarrow> (writer_st, wal_error, bool) act" where
  "run_loop cfg limit [] = aret False"
| "run_loop cfg limit (a # as) =
     (if a = Shutdown then aret True
      else athen (handle_action cfg limit a) (run_loop cfg limit as))"

definition run_exit :: "wal_cfg \<Rightarrow> bool \<Rightarrow> (writer_st, wal_error, unit) act" where
  "run_exit cfg shutdown_ack =
     athen (on_set (on_active (athen update_header flush)))
     (athen (write_meta cfg)
     (athen (abind aget (\<lambda>st. expect (on_fs (lock_remove (base_path (w_set st))))))
     (if shutdown_ack then send ShutdownAck else aret ())))"

definition run_writer :: "wal_cfg \<Rightarrow> w_action list \<Rightarrow> (writer_st, wal_error, unit) act" where
  "run_writer cfg actions =
     abind aget (\<lambda>st.
     abind (alift (rbind (active_idx (w_set st)) (\<lambda>i. offset_logs (files (w_set st) ! i)))) (\<lambda>hdr.
     abind (alift (rbind (sub_u (cfg_size cfg) hdr) (\<lambda>n. sub_u n 2))) (\<lambda>limit.
     athen (on_set (on_active map_file_mut))
     (abind (run_loop cfg limit actions) (\<lambda>shutdown_ack. run_exit cfg shutdown_ack)))))"

text \<open>The limit as \<^verbatim>\<open>run\<close> computes it, for files of the only version there is.\<close>

definition data_len_limit :: "wal_cfg \<Rightarrow> nat" where
  "data_len_limit cfg = cfg_size cfg - 32 - 2"

section \<open>Starting\<close>

text \<open>The encoding of the log id that the entries carry is bincode's.\<close>

definition purged_fix :: "wal_cfg \<Rightarrow> (bytes \<Rightarrow> (wal_error, log_id_rec) res) \<Rightarrow>
    (log_id_rec \<Rightarrow> (wal_error, bytes) res) \<Rightarrow> (writer_st, wal_error, unit) act" where
  "purged_fix cfg de_log ser_log =
     abind aget (\<lambda>st.
     if last_purged_log_id (w_meta st) = None \<and> files (w_set st) \<noteq> [] \<and>
        wal_no (hd (files (w_set st))) > 1 \<and> id_from (hd (files (w_set st))) > 2
     then
       abind (on_set (on_file 0 (athen map_file
               (abind aget (\<lambda>(s, w).
                alift (read_logs (cfg_crc cfg) s w (id_from w) (id_until w) None)))))) (\<lambda>(off, memo, buf).
       abind (alift (case buf of [] \<Rightarrow> Panic ''unwrap on None'' | (_, bs) # _ \<Rightarrow> de_log bs)) (\<lambda>log.
       abind (alift (sub_u (lid_index log) 1)) (\<lambda>idx.
       athen (on_set (on_file 0 (amod (\<lambda>(s, w). (s, mmap_drop w)))))
       (abind (alift (ser_log (log\<lparr>lid_index := idx\<rparr>))) (\<lambda>bs.
        athen (set_purged (Some bs)) (write_meta cfg))))))
     else aret ())"

definition spawn_writer :: "wal_cfg \<Rightarrow> bool \<Rightarrow> string option \<Rightarrow> (bytes \<Rightarrow> (wal_error, log_id_rec) res) \<Rightarrow>
    (log_id_rec \<Rightarrow> (wal_error, bytes) res) \<Rightarrow> string \<Rightarrow> bool \<Rightarrow> metadata \<Rightarrow>
    (fs, wal_error, writer_st) act" where
  "spawn_writer cfg auto_heal env de_log ser_log base deep meta =
     abind (read_set base (cfg_size cfg)) (\<lambda>set s.
     case athen (check_integrity auto_heal (cfg_crc cfg) env deep)
            (abind aget (\<lambda>(s, ws). if files ws = [] then add_file (cfg_size cfg) else aret ())) (s, set) of
       (Err e, (s', ws)) \<Rightarrow> (Err e, s')
     | (Panic p, (s', ws)) \<Rightarrow> (Panic p, s')
     | (Ok _, (s', ws)) \<Rightarrow>
         (case purged_fix cfg de_log ser_log
                 \<lparr>w_fs = s', w_meta = meta, w_locked = clone_no_map ws, w_set = ws,
                  is_dirty = False, w_out = []\<rparr> of
            (Err e, st) \<Rightarrow> (Err e, w_fs st)
          | (Panic p, st) \<Rightarrow> (Panic p, w_fs st)
          | (Ok _, st) \<Rightarrow> (Ok st, w_fs st)))"

end
