(* ===== verification/Wal_Meta_Props.thy ===== *)
theory Wal_Meta_Props
  imports Wal_Meta Wal_Set_Props
begin

text \<open>
  What the metadata file and the lock file promise. A write of the metadata either replaces the file,
  with its new content durable before it becomes visible, or leaves the old file as it was; it never
  touches a file of the write-ahead log. The lock keeps a second process out.
\<close>

text \<open>\<open>meta_frame base s s'\<close>: only the metadata file and its temporary file differ.\<close>

definition meta_frame :: "string \<Rightarrow> fs \<Rightarrow> fs \<Rightarrow> bool" where
  "meta_frame base s s' \<longleftrightarrow> fs_ok s' \<and> faulty s' = faulty s \<and>
     (\<forall>p. p \<noteq> meta_path base \<and> p \<noteq> meta_tmp_path base \<longrightarrow> fs_lookup s' p = fs_lookup s p) \<and>
     (\<forall>p i. p \<noteq> meta_path base \<and> p \<noteq> meta_tmp_path base \<and> fs_lookup s p = Some i \<longrightarrow>
        ino_bytes s' i = ino_bytes s i \<and> ino_durable s' i = ino_durable s i)"

lemma meta_tmp_neq: "meta_tmp_path base \<noteq> meta_path base"
  by (simp add: meta_tmp_path_def)

definition meta_content :: "(bytes \<Rightarrow> bytes) \<Rightarrow> bytes \<Rightarrow> bytes" where
  "meta_content crc d = magic_no_meta @ [1] @ crc d @ d"

text \<open>Every step of the write but the last touches the temporary file only. \<open>tmp_only\<close> says so, with \<open>i\<close>
  the inode of the temporary file.\<close>

definition tmp_only :: "string \<Rightarrow> nat \<Rightarrow> fs \<Rightarrow> fs \<Rightarrow> bool" where
  "tmp_only base i s s' \<longleftrightarrow> fs_ok s' \<and> faulty s' = faulty s \<and> fs_lookup s' (meta_tmp_path base) = Some i \<and>
     inodes s' i \<noteq> None \<and>
     (\<forall>p. p \<noteq> meta_tmp_path base \<longrightarrow> fs_lookup s' p = fs_lookup s p \<and> fs_lookup s p \<noteq> Some i) \<and>
     (\<forall>j. j \<noteq> i \<longrightarrow> ino_bytes s' j = ino_bytes s j \<and> ino_durable s' j = ino_durable s j)"

lemma file_create_tmp:
  assumes "fs_ok s" and "\<not> faulty s (OpCreate (meta_tmp_path base))"
  obtains i s' where "file_create (meta_tmp_path base) s = (Ok i, s')" "tmp_only base i s s'" "ino_bytes s' i = []"
proof (cases "fs_lookup s (meta_tmp_path base)")
  case None
  have "fs_lookup s p \<noteq> Some (next_ino s)" for p using fs_ok_fresh [OF assms(1)] .
  then show thesis
    using None assms by (intro that [of "next_ino s" "fs_create s (meta_tmp_path base) []"])
      (auto simp: file_create_def tmp_only_def fs_simps fs_ok_create)
next
  case (Some i)
  have "fs_lookup s p \<noteq> Some i" if "p \<noteq> meta_tmp_path base" for p
    using that Some assms(1) unfolding fs_ok_def by blast
  moreover have "inodes s i \<noteq> None" using Some assms(1) unfolding fs_ok_def by blast
  ultimately show thesis
    using Some assms by (intro that [of i "ino_write s i []"])
      (auto simp: file_create_def tmp_only_def fs_simps)
qed

lemma tmp_only_write:
  "tmp_only base i s s' \<Longrightarrow> tmp_only base i s (ino_write s' i bs)"
  by (simp add: tmp_only_def fs_simps)

lemma tmp_only_sync: "tmp_only base i s s' \<Longrightarrow> tmp_only base i s (ino_sync s' i)"
  by (simp add: tmp_only_def fs_simps)

lemma tmp_only_frame:
  assumes "tmp_only base i s s'"
  shows "meta_frame base s s'"
  using assms by (auto simp: tmp_only_def meta_frame_def)

lemma rename_tmp:
  assumes t: "tmp_only base i s s'"
  shows "meta_frame base s (fs_rename s' (meta_tmp_path base) (meta_path base))"
    and "fs_lookup (fs_rename s' (meta_tmp_path base) (meta_path base)) (meta_path base) = Some i"
proof -
  let ?s = "fs_rename s' (meta_tmp_path base) (meta_path base)"
  have tl: "fs_lookup s' (meta_tmp_path base) = Some i" using t by (simp add: tmp_only_def)
  have look: "fs_lookup ?s r = (if r = meta_path base then Some i else if r = meta_tmp_path base then None
      else fs_lookup s' r)" for r
    using tl meta_tmp_neq by (simp add: fs_simps)
  then show "fs_lookup ?s (meta_path base) = Some i" by simp
  have "fs_ok ?s"
    using t unfolding fs_ok_def look fs_simps
    by (auto simp: tmp_only_def fs_ok_def split: if_splits)
  then show "meta_frame base s ?s"
    using t look unfolding meta_frame_def by (auto simp: tmp_only_def fs_simps)
qed

lemma meta_write_unchecked_spec:
  assumes ok: "fs_ok s"
  obtains s' i where "meta_write_unchecked crc d base s = (Ok (), s')" "meta_frame base s s'"
      "fs_lookup s' (meta_path base) = Some i" "ino_bytes s' i = meta_content crc d"
      "ino_durable s' i = meta_content crc d"
  | s' where "meta_write_unchecked crc d base s = (Err IO, s')" "meta_frame base s s'" "\<not> no_faults s"
      "fs_lookup s' (meta_path base) = fs_lookup s (meta_path base)"
      "\<And>i. fs_lookup s (meta_path base) = Some i \<Longrightarrow> ino_bytes s' i = ino_bytes s i \<and> ino_durable s' i = ino_durable s i"
proof (cases "faulty s (OpCreate (meta_tmp_path base))")
  case True
  then show thesis
    using ok by (intro that(2) [of s])
      (auto simp: meta_write_unchecked_def Let_def act_simps file_create_def meta_frame_def no_faults_def)
next
  case False
  obtain i s0 where c: "file_create (meta_tmp_path base) s = (Ok i, s0)" "tmp_only base i s s0" "ino_bytes s0 i = []"
    using file_create_tmp [OF ok False] .
  note failed = that(2)
  have old: thesis
    if e: "meta_write_unchecked crc d base s = (Err IO, s')" and t: "tmp_only base i s s'" and nf: "\<not> no_faults s" for s'
  proof (rule failed [OF e tmp_only_frame [OF t] nf])
    show "fs_lookup s' (meta_path base) = fs_lookup s (meta_path base)"
      using t meta_tmp_neq [of base] by (metis tmp_only_def)
    show "ino_bytes s' j = ino_bytes s j \<and> ino_durable s' j = ino_durable s j"
      if "fs_lookup s (meta_path base) = Some j" for j
      using t meta_tmp_neq [of base] that by (metis tmp_only_def)
  qed
  have ino: "inodes s0 i \<noteq> None" "faulty s0 = faulty s" using c(2) by (simp_all add: tmp_only_def)
  define s1 where "s1 = ino_write s0 i (meta_content crc d)"
  have s1: "tmp_only base i s s1" "ino_bytes s1 i = meta_content crc d"
    using c(2) ino by (simp_all add: s1_def tmp_only_write fs_simps)
  show thesis
  proof (cases "faulty s (OpWrite (meta_tmp_path base))")
    case True
    then have "meta_write_unchecked crc d base s = (Err IO, s0)"
      by (simp add: meta_write_unchecked_def Let_def act_simps c file_write_all_def ino)
    then show thesis using c(2) True by (intro old [of s0]) (auto simp: no_faults_def)
  next
    case False
    have w: "athen (file_write_all (meta_tmp_path base) i magic_no_meta)
       (athen (file_write_all (meta_tmp_path base) i [1])
       (athen (file_write_all (meta_tmp_path base) i (crc d))
       (athen (file_write_all (meta_tmp_path base) i d) m))) s0 = m s1" for m :: "(fs, wal_error, unit) act"
      using False ino c(3)
      by (simp add: act_simps file_write_all_def fs_simps s1_def meta_content_def)
    then have run: "meta_write_unchecked crc d base s =
        athen (file_sync_data i) (file_rename (meta_tmp_path base) (meta_path base)) s1"
      by (simp add: meta_write_unchecked_def Let_def abind_apply c(1))
    have fs1: "faulty s1 = faulty s" using s1(1) by (simp add: tmp_only_def)
    define s2 where "s2 = ino_sync s1 i"
    have s2: "tmp_only base i s s2" "ino_bytes s2 i = meta_content crc d" "ino_durable s2 i = meta_content crc d"
      using s1 by (simp_all add: s2_def tmp_only_sync fs_simps)
    have ren: "fs_lookup s2 (meta_tmp_path base) = Some i" "faulty s2 = faulty s" using s2(1) by (simp_all add: tmp_only_def)
    consider (sync) "faulty s (OpSync i)"
      | (rename) "\<not> faulty s (OpSync i)" "faulty s (OpRename (meta_tmp_path base) (meta_path base))"
      | (fine) "\<not> faulty s (OpSync i)" "\<not> faulty s (OpRename (meta_tmp_path base) (meta_path base))" by blast
    then show thesis
    proof cases
      case sync
      then show thesis
        using s1(1) by (intro old [of s1]) (auto simp: run act_simps file_sync_data_def fs1 no_faults_def)
    next
      case rename
      then show thesis
        using s2(1) by (intro old [of s2])
          (auto simp: run act_simps file_sync_data_def file_rename_def fs1 s2_def fs_simps no_faults_def)
    next
      case fine
      then have "meta_write_unchecked crc d base s = (Ok (), fs_rename s2 (meta_tmp_path base) (meta_path base))"
        using ren by (simp add: run act_simps file_sync_data_def file_rename_def fs1 s2_def [symmetric])
      then show thesis
        using rename_tmp [OF s2(1)] s2(2,3) 
        by (intro that(1) [of "fs_rename s2 (meta_tmp_path base) (meta_path base)" i]) (simp_all add: fs_rename_inodes)
    qed
  qed
qed

section \<open>The write-ahead log does not notice\<close>

lemma wal_path_not_meta: "wal_path base no \<noteq> meta_path base" "wal_path base no \<noteq> meta_tmp_path base"
proof -
  have "rev (wal_path base no) \<noteq> rev (meta_path base)" "rev (wal_path base no) \<noteq> rev (meta_tmp_path base)"
    by (simp_all add: wal_path_def meta_path_def meta_tmp_path_def)
  then show "wal_path base no \<noteq> meta_path base" "wal_path base no \<noteq> meta_tmp_path base" by auto
qed

lemma file_in_meta:
  assumes "file_in crc s base w l" and "meta_frame base s s'"
  shows "file_in crc s' base w l"
proof -
  have p: "path w \<noteq> meta_path base" "path w \<noteq> meta_tmp_path base"
    using assms(1) wal_path_not_meta by (auto simp: file_in_def)
  obtain i where i: "fs_lookup s (path w) = Some i" using assms(1) by (auto simp: file_in_def)
  then have "fs_lookup s' (path w) = Some i" "ino_bytes s' i = ino_bytes s i"
    using assms(2) p unfolding meta_frame_def by (metis, metis)
  then show ?thesis using assms(1) i by (auto simp: file_in_def)
qed

lemma dur_meta:
  assumes "dur crc s w l" and "meta_frame base s s'" and "path w = wal_path base (wal_no w)"
  shows "dur crc s' w l"
proof (cases "l = []")
  case False
  then obtain i where i: "fs_lookup s (path w) = Some i" "file_logs crc w (ino_durable s i) l"
    using assms(1) by (auto simp: dur_def)
  then have "fs_lookup s' (path w) = Some i" "ino_durable s' i = ino_durable s i"
    using assms(2,3) wal_path_not_meta unfolding meta_frame_def by (metis, metis)
  then show ?thesis using i by (simp add: dur_def)
qed (simp add: dur_def)

lemma set_inv_meta:
  assumes inv: "set_inv crc s ws lss" and fr: "meta_frame (base_path ws) s s'"
  shows "set_inv crc s' ws lss"
    and "dur crc s (last (files ws)) (last lss) \<Longrightarrow> dur crc s' (last (files ws)) (last lss)"
proof -
  have ok: "set_ok crc s ws lss" using inv by (simp add: set_inv_def)
  have path: "path w = wal_path (base_path ws) (wal_no w)" if "w \<in> set (files ws)" for w
    using set_ok_file_in [OF ok that] by (auto simp: file_in_def)
  have "list_all2 (file_in crc s' (base_path ws)) (files ws) lss"
    using ok unfolding set_ok_def by (elim conjE list_all2_imp) (use file_in_meta [OF _ fr] in blast)
  moreover have "dir_ok s' ws"
    using ok fr wal_path_not_meta by (simp add: set_ok_def dir_ok_def meta_frame_def)
  ultimately have "set_ok crc s' ws lss" using ok fr by (simp add: set_ok_def meta_frame_def)
  moreover have "sealed crc s' ws lss"
    using inv unfolding set_inv_def sealed_def
    by (elim conjE list_all2_imp) (use dur_meta [OF _ fr] path in_set_butlastD in metis)
  ultimately show "set_inv crc s' ws lss" using inv by (simp add: set_inv_def)
  show "dur crc s' (last (files ws)) (last lss)" if "dur crc s (last (files ws)) (last lss)"
    using dur_meta [OF that fr] path ok by (simp add: set_ok_def)
qed

section \<open>Reading back\<close>

definition codec_ok :: "(metadata \<Rightarrow> (wal_error, bytes) res) \<Rightarrow> (bytes \<Rightarrow> (wal_error, metadata) res) \<Rightarrow> bool" where
  "codec_ok ser de \<longleftrightarrow> (\<forall>m. \<exists>d. ser m = Ok d \<and> 2 \<le> length d \<and> de d = Ok m)"

text \<open>The file system after a power loss: every file has the bytes that were durable.\<close>

definition fs_crash :: "fs \<Rightarrow> fs" where
  "fs_crash s = s\<lparr>inodes := (\<lambda>i. map_option (\<lambda>n. n\<lparr>contents := durable n\<rparr>) (inodes s i))\<rparr>"

lemma fs_crash_simps [fs_simps]:
  "ino_bytes (fs_crash s) i = ino_durable s i" "fs_lookup (fs_crash s) p = fs_lookup s p"
  "faulty (fs_crash s) = faulty s"
  by (simp_all add: fs_crash_def ino_bytes_def ino_durable_def fs_lookup_def option.case_eq_if option.map_sel)

lemma meta_decode_content:
  assumes "crc_ok crc" and "2 \<le> length d"
  shows "meta_decode crc de (meta_content crc d) = de d"
proof -
  have "length magic_no_meta = 7" by (simp add: magic_no_meta_def)
  moreover have "length (crc d) = 4" using assms(1) by (simp add: crc_ok_def)
  ultimately show ?thesis
    using assms(2) by (simp add: meta_decode_def meta_content_def slice_def)
qed

lemma meta_read_content:
  assumes "fs_lookup s (meta_path base) = Some i" and "ino_bytes s i = meta_content crc d"
    and "crc_ok crc" and "2 \<le> length d" and "no_faults s"
  shows "meta_read_or_create crc ser de base s = (de d, s)"
  using assms by (simp add: meta_read_or_create_def no_faults_def meta_decode_content)

lemma meta_write_Ok:
  assumes "fs_ok s" and "codec_ok ser de" and "no_faults s"
  obtains s' i d where "meta_write crc ser m base s = (Ok (), s')" "meta_frame base s s'" "ser m = Ok d"
    "2 \<le> length d" "de d = Ok m" "fs_lookup s' (meta_path base) = Some i"
    "ino_bytes s' i = meta_content crc d" "ino_durable s' i = meta_content crc d"
proof -
  obtain d where d: "ser m = Ok d" "2 \<le> length d" "de d = Ok m"
    using assms(2) unfolding codec_ok_def by blast
  show thesis
  proof (cases rule: meta_write_unchecked_spec [OF assms(1), of crc d base])
    case (1 s' i)
    then show thesis using d by (intro that [of s' d i]) (simp_all add: meta_write_def act_simps)
  next
    case (2 s')
    then show thesis using assms(3) by simp
  qed
qed


text \<open>An encoding of the metadata for the examples: a byte is preceded by one, a string of bytes is closed by
  zero.\<close>

definition opt_enc :: "bytes option \<Rightarrow> bytes" where
  "opt_enc x = (case x of None \<Rightarrow> [0] | Some bs \<Rightarrow> 1 # concat (map (\<lambda>b. [1, b]) bs) @ [0])"

fun str_dec :: "bytes \<Rightarrow> bytes \<times> bytes" where
  "str_dec (t # b # rest) = (if t = 1 then (case str_dec rest of (s, r) \<Rightarrow> (b # s, r)) else ([], b # rest))"
| "str_dec [t] = ([], [])"
| "str_dec [] = ([], [])"

definition opt_dec :: "bytes \<Rightarrow> bytes option \<times> bytes" where
  "opt_dec bs = (case bs of
     t # rest \<Rightarrow> if t = 1 then (case str_dec rest of (s, r) \<Rightarrow> (Some s, r)) else (None, rest)
   | [] \<Rightarrow> (None, []))"

definition meta_enc :: "metadata \<Rightarrow> (wal_error, bytes) res" where
  "meta_enc m = Ok (opt_enc (last_purged_log_id m) @ opt_enc (vote m))"

definition meta_dec :: "bytes \<Rightarrow> (wal_error, metadata) res" where
  "meta_dec bs = (case opt_dec bs of (p, r) \<Rightarrow> Ok \<lparr>last_purged_log_id = p, vote = fst (opt_dec r)\<rparr>)"

lemma str_dec_enc: "str_dec (concat (map (\<lambda>b. [1, b]) bs) @ 0 # r) = (bs, r)"
proof (induction bs)
  case Nil
  then show ?case by (cases r) simp_all
qed simp

lemma opt_dec_enc: "opt_dec (opt_enc x @ r) = (x, r)"
  by (cases x) (simp_all add: opt_dec_def opt_enc_def str_dec_enc)

lemma codec_ok_enc [simp]: "codec_ok meta_enc meta_dec"
proof -
  have len: "1 \<le> length (opt_enc x)" for x by (simp add: opt_enc_def split: option.split)
  have "2 \<le> length (opt_enc x @ opt_enc y)" for x y using len [of x] len [of y] by simp
  then show ?thesis
    using opt_dec_enc [of _ "[]"] by (auto simp: codec_ok_def meta_enc_def meta_dec_def opt_dec_enc)
qed


text \<open>Atomicity of the metadata: a write that fails, at whatever step, leaves the metadata file and its
  durable bytes as they were, so that the vote and the purge frontier of before are what is read.\<close>

theorem meta_write_atomic:
  assumes "fs_ok s" and "meta_write_unchecked crc d base s = (Err e, s')"
  shows "fs_lookup s' (meta_path base) = fs_lookup s (meta_path base) \<and>
     (\<forall>i. fs_lookup s (meta_path base) = Some i \<longrightarrow>
        ino_bytes s' i = ino_bytes s i \<and> ino_durable s' i = ino_durable s i)"
proof (cases rule: meta_write_unchecked_spec [OF assms(1), of crc d base])
  case (1 s'' i)
  then show ?thesis using assms(2) by simp
next
  case (2 s'')
  then show ?thesis using assms(2) by simp
qed

theorem meta_write_atomic_witness:
  "fs_lookup (fs_create fs_empty ''d/meta.hql~'' []) (meta_path ''d'') = None"
proof -
  let ?s = "fs_empty\<lparr>faulty := (\<lambda>op. op = OpWrite ''d/meta.hql~'')\<rparr>"
  have ok: "fs_ok ?s" using fs_ok_empty by (simp add: fs_ok_def fs_lookup_def fs_empty_def)
  have "meta_write_unchecked crc_sum [7, 7] ''d'' ?s = (Err IO, fs_create ?s ''d/meta.hql~'' [])"
    by (simp add: meta_write_unchecked_def Let_def act_simps file_create_def file_write_all_def meta_tmp_path_def
        meta_path_def fs_create_def fs_lookup_def fs_empty_def)
  from meta_write_atomic [OF ok this] show ?thesis
    by (simp add: fs_lookup_def fs_create_def fs_empty_def)
qed

end
