(* ===== verification/Wal_Writer_Props.thy ===== *)
theory Wal_Writer_Props
  imports Wal_Writer Wal_Meta_Props
begin

text \<open>
  What the writer promises. \<open>writer_inv cfg st lss\<close> is its invariant between requests, where \<open>lss\<close> are
  the entries of each file and \<open>concat lss\<close> is the log. An append extends the log by its entries, a
  removal drops a prefix or a suffix, and with the synchronisation level \<open>Immediate\<close> every entry is
  durable before the completion callback reports success.
\<close>

section \<open>Appending to the set\<close>

lemma on_active_last:
  assumes "active ws = Some (length vs)" and "files ws = vs @ [w]"
  shows "on_active m (s, ws) = (case m (s, w) of (r, (s', w')) \<Rightarrow> (r, (s', ws\<lparr>files := vs @ [w']\<rparr>)))"
  using assms by (simp add: on_active_eq list_update_append split: prod.split)

lemma set_ok_active: "set_ok crc s ws lss \<Longrightarrow> files ws = vs @ [w] \<Longrightarrow> active ws = Some (length vs)"
  by (simp add: set_ok_def)

lemma set_inv_append:
  assumes crc: "crc_ok crc" and inv: "set_inv crc s ws (pre @ [l])" and fs: "files ws = vs @ [w]"
    and space: "has_space w (length d) = Ok True" and d: "d \<noteq> []" and i: "i \<le> u64_max"
    and nxt: "l \<noteq> [] \<Longrightarrow> i = Suc (id_until w)" "vs \<noteq> [] \<Longrightarrow> l = [] \<Longrightarrow> i = id_from w"
  obtains s' where "on_active (append_log crc i d) (s, ws) =
      (Ok (), (s', ws\<lparr>files := vs @ [appended i d w]\<rparr>))"
    "set_inv crc s' (ws\<lparr>files := vs @ [appended i d w]\<rparr>) (pre @ [l @ [(i, d)]])" "faulty s' = faulty s"
proof -
  have ok: "set_ok crc s ws (pre @ [l])" and sl: "sealed crc s ws (pre @ [l])"
    using inv by (simp_all add: set_inv_def)
  obtain n where n: "fs_lookup s (path w) = Some n" "mmap_mut w = Some n" "inodes s n \<noteq> None"
      "mmap w = None" "file_fd w = Some n" "file_logs crc w (ino_bytes s n) l" "0 < wal_no w"
      "path w = wal_path (base_path ws) (wal_no w)"
    using set_inv_last [OF inv fs refl] by blast
  obtain bs' where eq: "append_log crc i d (s, w) = (Ok (), (ino_write s n bs', appended i d w))"
    and logs: "file_logs crc (appended i d w) bs' (l @ [(i, d)])"
    using append_log_spec [OF crc n(2,3,6) space d i nxt(1)] by blast
  have sb: "same_but s (ino_write s n bs') n" by (simp add: same_but_write)
  have "file_in crc (ino_write s n bs') (base_path ws) (appended i d w) (l @ [(i, d)])"
    using n logs by (simp add: file_in_def fs_simps)
  moreover have "id_from (appended i d w) = id_from w" if "vs \<noteq> []"
    using that nxt(2) n(6) by (cases "l = []") (auto simp: appended_def file_logs_def)
  ultimately have "set_ok crc (ino_write s n bs') (ws\<lparr>files := vs @ [appended i d w]\<rparr>) (pre @ [l @ [(i, d)]])"
    by (intro set_ok_update_last [OF ok fs n(1) sb]) simp_all
  moreover have "sealed crc (ino_write s n bs') (ws\<lparr>files := vs @ [appended i d w]\<rparr>) (pre @ [l @ [(i, d)]])"
    by (rule sealed_update_last [OF ok fs n(1) sb sl])
  ultimately show thesis
    using eq n(2) by (intro that [of "ino_write s n bs'"])
      (simp_all add: on_active_last [OF set_ok_active [OF ok fs] fs] set_inv_def fs_simps)
qed

section \<open>The shared copy\<close>

definition shadow :: "wal_file \<Rightarrow> wal_file \<Rightarrow> bool" where
  "shadow a b \<longleftrightarrow> version a = version b \<and> wal_no a = wal_no b \<and> path a = path b \<and> len_max a = len_max b \<and>
     mmap a = None \<and> mmap_mut a = None \<and> file_fd a = None"

lemma shadow_clone [simp]: "shadow (clone_no_mmap w) w"
  by (simp add: shadow_def clone_no_mmap_def)

lemma shadow_update:
  "shadow a b \<Longrightarrow> a\<lparr>id_from := id_from b, id_until := id_until b, data_start := data_start b,
     data_end := data_end b\<rparr> = clone_no_mmap b"
  by (cases a; cases b) (simp add: shadow_def clone_no_mmap_def)

lemma update_clones_shadow:
  "list_all2 shadow as bs \<Longrightarrow> update_clones as (bs @ cs) = Ok (map clone_no_mmap (bs @ cs))"
proof (induction rule: list_all2_induct)
  case Nil
  then show ?case by simp
next
  case (Cons a as b bs)
  then show ?case by (simp add: shadow_update) (simp add: shadow_def)
qed

lemma clone_files_shadow:
  assumes "list_all2 shadow (filter (\<lambda>f. \<exists>upd \<in> set other. wal_no upd = wal_no f) (files ws)) bs"
    and "other = bs @ cs"
  shows "clone_files_from_no_mmap ws other = Ok (ws\<lparr>files := map clone_no_mmap other\<rparr>)"
  using update_clones_shadow [OF assms(1), of cs] assms(2)
  by (simp add: clone_files_from_no_mmap_def list_ex_iff)

text \<open>While a request is being served the shared copy may lag behind in the active file only.\<close>

definition lagging :: "wal_set \<Rightarrow> wal_set \<Rightarrow> bool" where
  "lagging lock ws \<longleftrightarrow> active lock = active ws \<and> base_path lock = base_path ws \<and>
     list_all2 shadow (files lock) (files ws) \<and>
     butlast (files lock) = map clone_no_mmap (butlast (files ws))"

lemma lagging_clone [simp]: "lagging (clone_no_map ws) ws"
  by (simp add: lagging_def clone_no_map_def list_all2_map1 list_all2_same map_butlast)

lemma lagging_update_last:
  assumes "lagging lock ws" and "files ws = vs @ [w]" and "shadow (clone_no_mmap w) w'"
  shows "lagging lock (ws\<lparr>files := vs @ [w']\<rparr>)"
proof -
  obtain ls a where "files lock = ls @ [a]" "list_all2 shadow ls vs" "shadow a w"
    using assms(1,2) by (auto simp: lagging_def list_all2_append2 list_all2_Cons2)
  then show ?thesis
    using assms by (auto simp: lagging_def list_all2_snoc shadow_def clone_no_mmap_def)
qed

lemma publish_files_roll:
  assumes lag: "lagging (w_locked st) ws" and fs: "files ws = vs @ [w]"
    and new: "files (w_set st) = vs @ [w0, nw]" "shadow (clone_no_mmap w) w0"
    and base: "base_path (w_set st) = base_path ws"
  shows "publish_files st = (Ok (), st\<lparr>w_locked := clone_no_map (w_set st)\<rparr>)"
proof -
  let ?lock = "(w_locked st)\<lparr>active := active (w_set st)\<rparr>"
  obtain ls a where ls: "files (w_locked st) = ls @ [a]" "list_all2 shadow ls vs" "shadow a w"
    using lag fs by (auto simp: lagging_def list_all2_append2 list_all2_Cons2)
  have sh: "list_all2 shadow (files ?lock) (vs @ [w0])"
    using ls new(2) by (auto simp: list_all2_snoc shadow_def clone_no_mmap_def)
  have "filter (\<lambda>f. \<exists>upd \<in> set (files (w_set st)). wal_no upd = wal_no f) (files ?lock) = files ?lock"
  proof (rule filter_True, rule ballI)
    fix f assume "f \<in> set (files ?lock)"
    with sh obtain g where "g \<in> set (vs @ [w0])" "shadow f g" by (rule list_all2_obtain)
    then show "\<exists>upd \<in> set (files (w_set st)). wal_no upd = wal_no f"
      using new(1) by (auto simp: shadow_def)
  qed
  then have "clone_files_from_no_mmap ?lock (files (w_set st))
      = Ok (?lock\<lparr>files := map clone_no_mmap (files (w_set st))\<rparr>)"
    using sh new(1) by (intro clone_files_shadow [of _ _ "vs @ [w0]" "[nw]"]) simp_all
  moreover have "?lock\<lparr>files := map clone_no_mmap (files (w_set st))\<rparr> = clone_no_map (w_set st)"
    using lag base by (cases "w_locked st") (auto simp: lagging_def clone_no_map_def)
  ultimately show ?thesis by (simp add: publish_files_def act_simps)
qed

lemma publish_active_spec:
  assumes lag: "lagging (w_locked st) (w_set st)" and act: "active (w_set st) = Some (length vs)"
    and fs: "files (w_set st) = vs @ [w]"
  shows "publish_active st = (Ok (), st\<lparr>w_locked := clone_no_map (w_set st)\<rparr>)"
proof -
  obtain ls a where ls: "files (w_locked st) = ls @ [a]" "list_all2 shadow ls vs" "shadow a w"
    using lag fs by (auto simp: lagging_def list_all2_append2 list_all2_Cons2)
  have len: "length ls = length vs" using ls(2) by (rule list_all2_lengthD)
  have "clone_from_no_mmap a w = Ok (clone_no_mmap w)"
    using ls(3) shadow_update [OF ls(3)] by (simp add: clone_from_no_mmap_def shadow_def)
  moreover have "(w_locked st)\<lparr>files := ls @ [clone_no_mmap w]\<rparr> = clone_no_map (w_set st)"
    using lag fs ls(1) by (cases "w_locked st") (auto simp: lagging_def clone_no_map_def)
  ultimately show ?thesis
    using lag act fs ls(1) len
    by (simp add: publish_active_def act_simps active_idx_def lagging_def nth_append list_update_append)
qed

section \<open>The loop over the entries of a request\<close>

text \<open>The invariant of the writer while it serves a request: the set is well formed and its sealed files
  are durable, the shared copy lags in the active file only, and no file is smaller than the
  configured size, which the first file has (\<open>sizes_ok\<close>). \<open>next_log lss i\<close>: \<open>i\<close> continues the log.\<close>

definition sizes_ok :: "nat \<Rightarrow> wal_set \<Rightarrow> bool" where
  "sizes_ok n ws \<longleftrightarrow> (\<forall>w \<in> set (files ws). n \<le> len_max w \<and> (wal_no w = 1 \<longrightarrow> len_max w = n))"

definition loop_inv :: "wal_cfg \<Rightarrow> writer_st \<Rightarrow> logs list \<Rightarrow> bool" where
  "loop_inv cfg st lss \<longleftrightarrow> set_inv (cfg_crc cfg) (w_fs st) (w_set st) lss \<and>
     lagging (w_locked st) (w_set st) \<and>
     sizes_ok (cfg_size cfg) (w_set st)"

definition next_log :: "logs list \<Rightarrow> nat \<Rightarrow> bool" where
  "next_log lss i \<longleftrightarrow> concat lss \<noteq> [] \<longrightarrow> i = Suc (fst (last (concat lss)))"

definition room :: "wal_set \<Rightarrow> nat \<Rightarrow> bool" where
  "room ws n \<longleftrightarrow> wal_no (last (files ws)) + n < 10 ^ 16"

definition entry_ok :: "wal_cfg \<Rightarrow> nat \<times> bytes \<Rightarrow> bool" where
  "entry_ok cfg e \<longleftrightarrow> snd e \<noteq> [] \<and> fst e < u64_max \<and> length (snd e) + 49 < cfg_size cfg"

lemma file_logs_last:
  assumes "file_logs crc w bs l" and "l \<noteq> []"
  shows "fst (last l) = id_until w"
proof -
  have "last (map fst l) = id_until w"
    using assms file_logs_ids(2) [OF assms] by (auto simp: file_logs_def)
  then show ?thesis using assms(2) by (simp add: last_map)
qed

lemma next_log_last:
  assumes ok: "set_ok crc s ws (pre @ [l])" and fs: "files ws = vs @ [w]" and nx: "next_log (pre @ [l]) i"
  shows "l \<noteq> [] \<Longrightarrow> i = Suc (id_until w)" and "vs \<noteq> [] \<Longrightarrow> l = [] \<Longrightarrow> i = id_from w"
proof -
  have fin: "list_all2 (file_in crc s (base_path ws)) vs pre" "file_in crc s (base_path ws) w l"
    using ok fs by (simp_all add: set_ok_def list_all2_snoc)
  then obtain b where b: "file_logs crc w b l" by (auto simp: file_in_def)
  show "i = Suc (id_until w)" if "l \<noteq> []"
    using nx that file_logs_last [OF b that] by (simp add: next_log_def)
  show "i = id_from w" if ne: "vs \<noteq> []" and le: "l = []"
  proof -
    obtain us v where us: "vs = us @ [v]" using ne by (cases vs rule: rev_cases) auto
    then obtain ps p where ps: "pre = ps @ [p]" "file_in crc s (base_path ws) v p"
      using fin(1) by (auto simp: list_all2_append1 list_all2_Cons1)
    have nf: "next_file v w" using ok fs us by (simp add: set_ok_def successively_append_iff)
    obtain c where c: "file_logs crc v c p" using ps(2) by (auto simp: file_in_def)
    then have "p \<noteq> []" using nf by (auto simp: file_logs_def next_file_def)
    then show ?thesis
      using nx file_logs_last [OF c] nf le ps(1) by (simp add: next_log_def next_file_def)
  qed
qed

lemma concat_snoc_append: "concat (pre @ [l @ xs]) = concat (pre @ [l]) @ xs"
  by simp

lemma next_log_snoc: "next_log (pre @ [l @ [(i, d)]]) j \<longleftrightarrow> j = Suc i"
  by (simp add: next_log_def)

lemma has_space_total: "version w = 1 \<Longrightarrow> \<exists>b. has_space w n = Ok b"
  by (cases "data_end w") (simp_all add: has_space_def end_or_header_def offset_logs_def)

lemma has_space_empty:
  "version w = 1 \<Longrightarrow> data_end w = None \<Longrightarrow> n + 49 < len_max w \<Longrightarrow> has_space w n = Ok True"
  by (simp add: has_space_def end_or_header_def offset_logs_def)

lemma active_space_eq:
  assumes "active (w_set st) = Some (length vs)" and "files (w_set st) = vs @ [w]"
  shows "active_space n st = (has_space w n, st)"
  using assms by (simp add: active_space_def on_set_def on_active_last [OF assms] assms(2) [symmetric])

text \<open>\<open>frame st st'\<close>: the parts of the state that serving the entries of a request leaves alone.\<close>

definition frame :: "writer_st \<Rightarrow> writer_st \<Rightarrow> bool" where
  "frame st st' \<longleftrightarrow> faulty (w_fs st') = faulty (w_fs st) \<and> w_out st' = w_out st \<and> w_meta st' = w_meta st"

lemma frame_trans: "frame a b \<Longrightarrow> frame b c \<Longrightarrow> frame a c"
  by (simp add: frame_def)

lemma frame_faults: "frame a b \<Longrightarrow> no_faults (w_fs b) = no_faults (w_fs a)"
  by (simp add: frame_def no_faults_def)

lemma roll_publish:
  assumes inv: "loop_inv cfg st (pre @ [l])" and n: "size_ok (cfg_size cfg)" and ne: "l \<noteq> []"
    and rm: "room (w_set st) 1" and vs: "files (w_set st) = vs @ [w]" and til: "id_until w < u64_max"
  defines "m \<equiv> athen (on_set (roll_over (cfg_size cfg))) publish_files"
  obtains st' where "m st = (Err IO, st')" "\<not> no_faults (w_fs st)"
  | st' w0 nw where "m st = (Ok (), st')" "loop_inv cfg st' (pre @ [l, []])"
      "w_locked st' = clone_no_map (w_set st')" "files (w_set st') = vs @ [w0, nw]" "frame st st'"
      "wal_no nw = Suc (wal_no w)" "len_max nw = cfg_size cfg" "version nw = 1" "data_end nw = None"
      "mmap_mut w0 = None"
proof -
  have si: "set_inv (cfg_crc cfg) (w_fs st) (w_set st) (pre @ [l])"
    and lag: "lagging (w_locked st) (w_set st)"
    using inv by (simp_all add: loop_inv_def)
  from rm vs have no: "Suc (wal_no w) < 10 ^ 16" by (simp add: room_def)
  show thesis
  proof (cases rule: roll_over_spec [OF si vs ne n no til])
    case failed: (1 s' ws')
    then show thesis
      by (intro that(1) [of "st\<lparr>w_fs := s', w_set := ws'\<rparr>"]) (simp_all add: m_def act_simps on_set_def)
  next
    case rolled: (2 s' ws' w0 nw)
    let ?st1 = "st\<lparr>w_fs := s', w_set := ws'\<rparr>"
    let ?st = "?st1\<lparr>w_locked := clone_no_map ws'\<rparr>"
    have "shadow (clone_no_mmap w) w0"
      using rolled(10) by (simp add: shadow_def clone_no_mmap_def)
    then have pub: "publish_files ?st1 = (Ok (), ?st)"
      using publish_files_roll [of ?st1 "w_set st" vs w w0 nw] lag vs rolled by simp
    then have run: "m st = (Ok (), ?st)"
      using rolled(1) by (simp add: m_def act_simps on_set_def)
    have inv': "loop_inv cfg ?st (pre @ [l, []])"
      using rolled(2,3,4,5,10) inv vs by (auto simp: loop_inv_def sizes_ok_def)
    have "file_in (cfg_crc cfg) s' (base_path ws') nw []"
      using rolled(2,3)
      by (simp add: set_inv_def set_ok_def list_all2_snoc [of _ "vs @ [w0]" nw "pre @ [l]", simplified])
    then have "version nw = 1" "data_end nw = None" by (auto simp: file_in_def file_logs_def)
    then show thesis
      by (intro that(2) [OF run inv', of w0 nw]) (use rolled in \<open>simp_all add: frame_def\<close>)
  qed
qed

text \<open>Making room: when the active file has no space for the entry the writer rolls over.\<close>

lemma make_room:
  assumes inv: "loop_inv cfg st lss" and e: "entry_ok cfg (i, d)" and n: "size_ok (cfg_size cfg)"
    and nx: "next_log lss i" and rm: "room (w_set st) 1" and vs: "files (w_set st) = vs @ [w]"
    and sp: "has_space w (length d) = Ok b"
  defines "m \<equiv> (if b then aret () else athen (on_set (roll_over (cfg_size cfg))) publish_files)"
  obtains st' where "m st = (Err IO, st')" "\<not> no_faults (w_fs st)"
  | st' lss' vs' w' where "m st = (Ok (), st')" "loop_inv cfg st' lss'" "concat lss' = concat lss"
      "files (w_set st') = vs' @ [w']" "has_space w' (length d) = Ok True" "next_log lss' i"
      "frame st st'" "wal_no w' \<le> Suc (wal_no w)"
proof (cases b)
  case True
  then show thesis using that(2) [of st lss vs w] assms by (simp add: act_simps frame_def)
next
  case False
  have ok: "set_ok (cfg_crc cfg) (w_fs st) (w_set st) lss"
    using inv by (simp add: loop_inv_def set_inv_def)
  obtain pre l where lss: "lss = pre @ [l]" "file_in (cfg_crc cfg) (w_fs st) (base_path (w_set st)) w l"
    using set_ok_snocE [OF ok] vs by (metis append1_eq_conv)
  then obtain bs where bs: "file_logs (cfg_crc cfg) w bs l" by (auto simp: file_in_def)
  have ne: "l \<noteq> []"
  proof
    assume "l = []"
    then have "version w = 1" "data_end w = None" "length d + 49 < len_max w"
      using bs inv e lss vs by (auto simp: file_logs_def loop_inv_def entry_ok_def sizes_ok_def)
    then show False using has_space_empty sp False by simp
  qed
  have til: "id_until w < u64_max"
    using next_log_last(1) [OF ok [unfolded lss(1)] vs nx [unfolded lss(1)] ne] e by (simp add: entry_ok_def)
  show thesis
  proof (cases rule: roll_publish [OF inv [unfolded lss(1)] n ne rm vs til])
    case (1 st')
    then show thesis using False by (intro that(1) [of st']) (simp_all add: m_def)
  next
    case (2 st' w0 nw)
    moreover have "has_space nw (length d) = Ok True"
      using e 2(7-9) by (intro has_space_empty) (simp_all add: entry_ok_def)
    ultimately show thesis
      using False nx lss by (intro that(2) [of st' "pre @ [l, []]" "vs @ [w0]" nw])
        (simp_all add: m_def next_log_def)
  qed
qed

lemma append_one:
  assumes crc: "crc_ok (cfg_crc cfg)" and inv: "loop_inv cfg st lss" and e: "entry_ok cfg (i, d)"
    and nx: "next_log lss i" and vs: "files (w_set st) = vs @ [w]" and sp: "has_space w (length d) = Ok True"
  obtains st' lss' where "on_set (on_active (append_log (cfg_crc cfg) i d)) st = (Ok (), st')"
    "loop_inv cfg st' lss'" "concat lss' = concat lss @ [(i, d)]" "frame st st'"
    "files (w_set st') = vs @ [appended i d w]" "next_log lss' (Suc i)"
    "lss' = butlast lss @ [last lss @ [(i, d)]]"
proof -
  have si: "set_inv (cfg_crc cfg) (w_fs st) (w_set st) lss" and lag: "lagging (w_locked st) (w_set st)"
    using inv by (simp_all add: loop_inv_def)
  then have ok: "set_ok (cfg_crc cfg) (w_fs st) (w_set st) lss" by (simp add: set_inv_def)
  obtain pre l where lss: "lss = pre @ [l]" using set_ok_snocE [OF ok] by metis
  note nxt = next_log_last [OF ok [unfolded lss] vs nx [unfolded lss]]
  obtain s' where s': "on_active (append_log (cfg_crc cfg) i d) (w_fs st, w_set st) =
      (Ok (), (s', (w_set st)\<lparr>files := vs @ [appended i d w]\<rparr>))"
    "set_inv (cfg_crc cfg) s' ((w_set st)\<lparr>files := vs @ [appended i d w]\<rparr>) (pre @ [l @ [(i, d)]])"
    "faulty s' = faulty (w_fs st)"
    using e by (rule_tac set_inv_append [OF crc si [unfolded lss] vs sp _ _ nxt]) (auto simp: entry_ok_def)
  have lag': "lagging (w_locked st) ((w_set st)\<lparr>files := vs @ [appended i d w]\<rparr>)"
    using lag vs by (rule lagging_update_last) (simp add: shadow_def clone_no_mmap_def)
  show thesis
    by (rule that [of "st\<lparr>w_fs := s', w_set := (w_set st)\<lparr>files := vs @ [appended i d w]\<rparr>\<rparr>"
          "pre @ [l @ [(i, d)]]"])
       (use s' lag' lss inv vs in \<open>simp_all add: on_set_def loop_inv_def frame_def next_log_snoc sizes_ok_def\<close>)
qed

lemma assert_id:
  assumes "active (w_set st) = Some (length vs)" and "files (w_set st) = vs @ [w]" and "id_until w = i"
  shows "on_set (on_active (aassert (\<lambda>(s, w). id_until w = i))) st = (Ok (), st)"
  using assms(3)
  by (simp add: on_set_def on_active_last [OF assms(1,2)] assms(2) [symmetric] act_simps rassert_def)

lemma append_entries_spec:
  assumes crc: "crc_ok (cfg_crc cfg)" and n: "size_ok (cfg_size cfg)"
    and lim: "\<And>e. entry_ok cfg e \<Longrightarrow> length (snd e) \<le> limit"
    and inv: "loop_inv cfg st lss" and es: "\<forall>e \<in> set es. entry_ok cfg e"
    and ids: "map fst es = [k..<k + length es]" "next_log lss k"
    and rm: "room (w_set st) (length es)"
  shows "(\<exists>st'. append_entries cfg limit es st = (Err IO, st') \<and> \<not> no_faults (w_fs st)) \<or>
     (\<exists>st' lss'. append_entries cfg limit es st = (Ok (Ok ()), st') \<and> loop_inv cfg st' lss' \<and>
        concat lss' = concat lss @ es \<and> frame st st' \<and>
        wal_no (last (files (w_set st'))) \<le> wal_no (last (files (w_set st))) + length es)"
  using inv es ids rm
proof (induction es arbitrary: st lss k)
  case Nil
  then show ?case by (auto simp: act_simps frame_def)
next
  case (Cons e es)
  obtain d where e: "e = (k, d)"
    using Cons.prems(3) by (cases e) (simp add: upt_conv_Cons del: upt_Suc)
  have ids': "map fst es = [Suc k..<Suc k + length es]"
    using Cons.prems(3) by (simp add: e upt_conv_Cons del: upt_Suc)
  have eok: "entry_ok cfg (k, d)" and rest: "\<forall>e \<in> set es. entry_ok cfg e"
    using Cons.prems(2) by (simp_all add: e)
  have ok: "set_ok (cfg_crc cfg) (w_fs st) (w_set st) lss"
    using Cons.prems(1) by (simp add: loop_inv_def set_inv_def)
  obtain vs w pre l where vs: "files (w_set st) = vs @ [w]"
      "file_in (cfg_crc cfg) (w_fs st) (base_path (w_set st)) w l" "active (w_set st) = Some (length vs)"
    using ok by (rule set_ok_snocE)
  obtain b where sp: "has_space w (length d) = Ok b"
    using has_space_total [of w "length d"] vs(2) by (auto simp: file_in_def file_logs_def)
  define m where "m = (if b then aret () else athen (on_set (roll_over (cfg_size cfg))) publish_files)"
  have run: "append_entries cfg limit (e # es) st = athen m
      (\<lambda>st. case on_set (on_active (append_log (cfg_crc cfg) k d)) st of
           (Err e, st') \<Rightarrow> (Ok (Err e), st')
         | (Panic p, st') \<Rightarrow> (Panic p, st')
         | (Ok _, st') \<Rightarrow>
             athen (on_set (on_active (aassert (\<lambda>(s, w). id_until w = k))))
               (append_entries cfg limit es) st') st"
    using lim [OF eok] by (simp add: e m_def act_simps active_space_eq [OF vs(3,1)] sp)
  have rm1: "room (w_set st) 1" using Cons.prems(5) by (simp add: room_def)
  show ?case
  proof (cases rule: make_room [OF Cons.prems(1) eok n Cons.prems(4) rm1 vs(1) sp])
    case (1 st')
    then show ?thesis by (simp add: run act_simps m_def)
  next
    case 2: (2 st1 lss1 vs1 w1)
    obtain st2 lss2 where st2: "on_set (on_active (append_log (cfg_crc cfg) k d)) st1 = (Ok (), st2)"
        "loop_inv cfg st2 lss2" "concat lss2 = concat lss1 @ [(k, d)]" "frame st1 st2"
        "files (w_set st2) = vs1 @ [appended k d w1]" "next_log lss2 (Suc k)"
      using append_one [OF crc 2(2) eok 2(6,4,5)] by blast
    have fr: "frame st st2"
      using 2(7) st2(4) by (rule frame_trans)
    have "active (w_set st2) = Some (length vs1)"
      using st2(2,5) by (simp add: loop_inv_def set_inv_def set_ok_def)
    then have "on_set (on_active (aassert (\<lambda>(s, w). id_until w = k))) st2 = (Ok (), st2)"
      using st2(5) by (rule assert_id) simp
    then have run2: "append_entries cfg limit (e # es) st = append_entries cfg limit es st2"
      using 2(1) st2(1) by (simp add: run m_def act_simps)
    have "room (w_set st2) (length es)"
      using Cons.prems(5) 2(8) vs(1) st2(5) by (simp add: room_def)
    from Cons.IH [OF st2(2) rest ids' st2(6) this]
    show ?thesis
    proof (elim disjE exE conjE)
      fix st' assume "append_entries cfg limit es st2 = (Err IO, st')" "\<not> no_faults (w_fs st2)"
      then show ?thesis using run2 frame_faults [OF fr] by auto
    next
      fix st' lss' assume IH: "append_entries cfg limit es st2 = (Ok (Ok ()), st')" "loop_inv cfg st' lss'"
        "concat lss' = concat lss2 @ es" "frame st2 st'"
        "wal_no (last (files (w_set st'))) \<le> wal_no (last (files (w_set st2))) + length es"
      have "wal_no (last (files (w_set st'))) \<le> wal_no (last (files (w_set st))) + length (e # es)"
        using IH(5) 2(8) st2(5) vs(1) by simp
      then show ?thesis
        using run2 IH(1-3) frame_trans [OF fr IH(4)] st2(3) 2(3) by (auto simp: e)
    qed
  qed
qed

lemma file_logs_header:
  assumes "file_logs crc w bs l"
  shows "file_logs crc w (overwrite bs 0 (header w')) l"
  using assms
  by (cases "l = []")
     (auto simp: file_logs_def length_overwrite length_header recs_at_overwrite_header simp del: upt_Suc)

section \<open>Flushing\<close>

lemma flush_blocking_spec:
  assumes inv: "set_inv (cfg_crc cfg) (w_fs st) (w_set st) lss"
    and clean: "\<not> is_dirty st \<Longrightarrow> dur (cfg_crc cfg) (w_fs st) (last (files (w_set st))) (last lss)"
  obtains r st' where "flush_blocking st = (r, st')" "r = Ok () \<or> r = Err IO \<and> \<not> no_faults (w_fs st)"
    "set_inv (cfg_crc cfg) (w_fs st') (w_set st) lss" "w_set st' = w_set st" "w_locked st' = w_locked st"
    "frame st st'"
    "r = Ok () \<Longrightarrow> \<not> is_dirty st' \<and> dur (cfg_crc cfg) (w_fs st') (last (files (w_set st))) (last lss)"
    "is_dirty st' \<Longrightarrow> is_dirty st" "\<not> is_dirty st' \<Longrightarrow> r = Ok ()"
proof (cases "is_dirty st")
  case False
  then show thesis using that [of "Ok ()" st] assms by (simp add: flush_blocking_def act_simps frame_def)
next
  case True
  let ?crc = "cfg_crc cfg"
  have ok: "set_ok ?crc (w_fs st) (w_set st) lss" and sl: "sealed ?crc (w_fs st) (w_set st) lss"
    using inv by (simp_all add: set_inv_def)
  obtain vs w pre l where vs: "files (w_set st) = vs @ [w]" "lss = pre @ [l]" "active (w_set st) = Some (length vs)"
    using ok by (rule set_ok_snocE)
  obtain i where i: "fs_lookup (w_fs st) (path w) = Some i" "mmap_mut w = Some i" "inodes (w_fs st) i \<noteq> None"
      "mmap w = None" "file_fd w = Some i" "file_logs ?crc w (ino_bytes (w_fs st) i) l" "0 < wal_no w"
      "path w = wal_path (base_path (w_set st)) (wal_no w)" "l = [] \<longrightarrow> id_until w = id_from w"
    using set_inv_last [OF inv vs(1,2)] by blast
  let ?bs = "overwrite (ino_bytes (w_fs st) i) 0 (header w)"
  let ?s1 = "ino_write (w_fs st) i ?bs"
  define s2 where "s2 = (if faulty (w_fs st) (OpSync i) then ?s1 else ino_sync ?s1 i)"
  have s2: "fs_lookup s2 p = fs_lookup (w_fs st) p" "ino_bytes s2 i = ?bs" "faulty s2 = faulty (w_fs st)"
      "\<not> faulty (w_fs st) (OpSync i) \<Longrightarrow> ino_durable s2 i = ?bs" for p
    using i(3) by (simp_all add: s2_def fs_simps)
  have logs: "file_logs ?crc w ?bs l" using i(6) by (rule file_logs_header)
  have same: "(w_set st)\<lparr>files := vs @ [w]\<rparr> = w_set st" by (simp add: vs(1) [symmetric])
  have upd: "update_header (w_fs st, w) = (Ok (), (?s1, w))"
    using i(6) by (intro update_header_eq [OF i(2)]) (auto simp: file_logs_def)
  have sb: "same_but (w_fs st) s2 i" by (simp add: s2_def same_but_sync same_but_write)
  have "file_in ?crc s2 (base_path (w_set st)) w l"
    using i logs by (simp add: file_in_def s2)
  then have "set_ok ?crc s2 ((w_set st)\<lparr>files := vs @ [w]\<rparr>) (pre @ [l])"
    by (rule set_ok_update_last [OF ok [unfolded vs(2)] vs(1) i(1) sb refl refl])
  moreover have "sealed ?crc s2 ((w_set st)\<lparr>files := vs @ [w]\<rparr>) (pre @ [l])"
    by (rule sealed_update_last [OF ok [unfolded vs(2)] vs(1) i(1) sb sl [unfolded vs(2)]])
  ultimately have inv': "set_inv ?crc s2 (w_set st) lss"
    using vs i(2) by (simp add: set_inv_def same)
  have run: "flush_blocking st = (if faulty (w_fs st) (OpSync i) then (Err IO, st\<lparr>w_fs := s2\<rparr>)
      else (Ok (), st\<lparr>w_fs := s2, is_dirty := False\<rparr>))"
    using True
    by (simp add: flush_blocking_def act_simps on_set_def on_active_last [OF vs(3,1)] upd flush_eq [OF i(2)]
        fs_simps same s2_def)
  show thesis
  proof (cases "faulty (w_fs st) (OpSync i)")
    case True
    then show thesis
      using \<open>is_dirty st\<close> inv' run
      by (intro that [of "Err IO" "st\<lparr>w_fs := s2\<rparr>"]) (auto simp: frame_def no_faults_def s2)
  next
    case False
    have "dur ?crc s2 w l" using False i(1) logs by (simp add: dur_def s2)
    then show thesis
      using False inv' run vs
      by (intro that [of "Ok ()" "st\<lparr>w_fs := s2, is_dirty := False\<rparr>"])
         (auto simp: frame_def s2)
  qed
qed

section \<open>The invariant between requests\<close>

definition writer_inv :: "wal_cfg \<Rightarrow> writer_st \<Rightarrow> logs list \<Rightarrow> bool" where
  "writer_inv cfg st lss \<longleftrightarrow> set_inv (cfg_crc cfg) (w_fs st) (w_set st) lss \<and>
     w_locked st = clone_no_map (w_set st) \<and>
     sizes_ok (cfg_size cfg) (w_set st) \<and>
     (\<forall>e \<in> set (concat lss). fst e < u64_max) \<and>
     (\<not> is_dirty st \<longrightarrow> dur (cfg_crc cfg) (w_fs st) (last (files (w_set st))) (last lss))"

definition all_durable :: "wal_cfg \<Rightarrow> writer_st \<Rightarrow> logs list \<Rightarrow> bool" where
  "all_durable cfg st lss \<longleftrightarrow> list_all2 (dur (cfg_crc cfg) (w_fs st)) (files (w_set st)) lss"

definition cfg_ok :: "wal_cfg \<Rightarrow> bool" where
  "cfg_ok cfg \<longleftrightarrow> crc_ok (cfg_crc cfg) \<and> size_ok (cfg_size cfg)"

lemma sealed_durable:
  assumes "set_inv (cfg_crc cfg) (w_fs st) (w_set st) lss"
    and "dur (cfg_crc cfg) (w_fs st) (last (files (w_set st))) (last lss)"
  shows "all_durable cfg st lss"
proof -
  have ok: "set_ok (cfg_crc cfg) (w_fs st) (w_set st) lss" using assms(1) by (simp add: set_inv_def)
  obtain vs w pre l where vs: "files (w_set st) = vs @ [w]" "lss = pre @ [l]"
    using ok by (rule set_ok_snocE)
  show ?thesis
    using assms vs by (simp add: all_durable_def set_inv_def sealed_def list_all2_snoc)
qed

lemma sync_after_append_spec:
  assumes inv: "set_inv (cfg_crc cfg) (w_fs st) (w_set st) lss" and d: "is_dirty st"
  obtains r st' where "sync_after_append sync (Ok ()) st = (Ok r, st')"
    "r = Ok () \<or> r = Err IO \<and> \<not> no_faults (w_fs st)"
    "set_inv (cfg_crc cfg) (w_fs st') (w_set st) lss" "w_set st' = w_set st" "w_locked st' = w_locked st"
    "frame st st'"
    "sync = Immediate \<Longrightarrow> r = Ok () \<Longrightarrow> dur (cfg_crc cfg) (w_fs st') (last (files (w_set st))) (last lss)"
    "\<not> is_dirty st' \<Longrightarrow> dur (cfg_crc cfg) (w_fs st') (last (files (w_set st))) (last lss)"
proof (cases sync)
  case Immediate
  obtain r st' where f: "flush_blocking st = (r, st')" "r = Ok () \<or> r = Err IO \<and> \<not> no_faults (w_fs st)"
    "set_inv (cfg_crc cfg) (w_fs st') (w_set st) lss" "w_set st' = w_set st" "w_locked st' = w_locked st"
    "frame st st'"
    "r = Ok () \<Longrightarrow> \<not> is_dirty st' \<and> dur (cfg_crc cfg) (w_fs st') (last (files (w_set st))) (last lss)"
    "\<not> is_dirty st' \<Longrightarrow> r = Ok ()"
    using flush_blocking_spec [OF inv] d by metis
  then show thesis
    using Immediate by (intro that [of r st']) (auto simp: sync_after_append_def catch_cb_def)
next
  case ImmediateAsync
  have ok: "set_ok (cfg_crc cfg) (w_fs st) (w_set st) lss" using inv by (simp add: set_inv_def)
  obtain vs w pre l where vs: "files (w_set st) = vs @ [w]" "lss = pre @ [l]" "active (w_set st) = Some (length vs)"
    using ok by (rule set_ok_snocE)
  obtain i where i: "mmap_mut w = Some i" "file_fd w = Some i"
    using set_inv_last [OF inv vs(1,2)] by blast
  have "on_set (on_active flush_async) st = (if faulty (w_fs st) (OpWriteback i) then Err IO else Ok (), st)"
    by (simp add: on_set_def on_active_last [OF vs(3,1)] flush_async_def i act_simps vs(1) [symmetric])
  then show thesis
    using ImmediateAsync inv d
    by (intro that [of "if faulty (w_fs st) (OpWriteback i) then Err IO else Ok ()" st])
       (auto simp: sync_after_append_def catch_cb_def no_faults_def frame_def)
next
  case (IntervalMillis n)
  then show thesis
    using inv d by (intro that [of "Ok ()" st]) (simp_all add: sync_after_append_def act_simps frame_def)
qed

lemma active_space_left:
  assumes "active (w_set st) = Some (length vs)" and "files (w_set st) = vs @ [w]" and "version w = 1"
  shows "on_set (on_active (\<lambda>(s, w). (space_left w, (s, w)))) st
     = (Ok (len_max w - (case data_end w of Some e \<Rightarrow> e | None \<Rightarrow> 32)), st)"
  using assms(3)
  by (simp add: on_set_def on_active_last [OF assms(1,2)] assms(2) [symmetric] space_left_def
      end_or_header_def offset_logs_def split: option.split)

section \<open>Serving an append\<close>

lemma writer_loop_inv: "writer_inv cfg st lss \<Longrightarrow> loop_inv cfg st lss"
  by (simp add: writer_inv_def loop_inv_def)

lemma limit_ok: "entry_ok cfg e \<Longrightarrow> length (snd e) \<le> data_len_limit cfg"
  by (auto simp: entry_ok_def data_len_limit_def)

text \<open>The roll-over ahead of time at the end of a request.\<close>

lemma preemptive_roll:
  assumes cfg: "cfg_ok cfg" and inv: "writer_inv cfg st lss" and rm: "room (w_set st) 1"
    and dur: "D \<Longrightarrow> all_durable cfg st lss"
  defines "m \<equiv> abind (on_set (on_active (\<lambda>(s, w). (space_left w, (s, w))))) (\<lambda>left.
      if left < 4 * 1024 then athen (on_set (roll_over (cfg_size cfg))) publish_files else aret ())"
  shows "(\<exists>st'. m st = (Err IO, st') \<and> \<not> no_faults (w_fs st)) \<or>
     (\<exists>st' lss'. m st = (Ok (), st') \<and> writer_inv cfg st' lss' \<and> concat lss' = concat lss \<and> frame st st' \<and>
        (D \<longrightarrow> all_durable cfg st' lss'))"
proof -
  have li: "loop_inv cfg st lss" using inv by (rule writer_loop_inv)
  then have ok: "set_ok (cfg_crc cfg) (w_fs st) (w_set st) lss" by (simp add: loop_inv_def set_inv_def)
  obtain vs w pre l where vs: "files (w_set st) = vs @ [w]" "lss = pre @ [l]"
      "file_in (cfg_crc cfg) (w_fs st) (base_path (w_set st)) w l" "active (w_set st) = Some (length vs)"
    using ok by (rule set_ok_snocE)
  then obtain bs where bs: "file_logs (cfg_crc cfg) w bs l" by (auto simp: file_in_def)
  define left where "left = len_max w - (case data_end w of Some e \<Rightarrow> e | None \<Rightarrow> 32)"
  have run: "m st = (if left < 4 * 1024 then athen (on_set (roll_over (cfg_size cfg))) publish_files st
      else (Ok (), st))"
    using bs by (simp add: m_def act_simps active_space_left [OF vs(4,1)] left_def file_logs_def)
  show ?thesis
  proof (cases "left < 4 * 1024")
    case False
    then show ?thesis using run inv dur by (auto simp: frame_def)
  next
    case True
    have ne: "l \<noteq> []"
    proof
      assume "l = []"
      then have "cfg_size cfg \<le> len_max w" "data_end w = None"
        using li bs vs by (simp_all add: loop_inv_def file_logs_def sizes_ok_def)
      then show False
        using True cfg by (auto simp: left_def cfg_ok_def size_ok_def min_wal_size_def)
    qed
    have til: "id_until w < u64_max"
      using inv file_logs_last [OF bs ne] last_in_set [OF ne] vs(2) by (force simp: writer_inv_def)
    have n: "size_ok (cfg_size cfg)" using cfg by (simp add: cfg_ok_def)
    show ?thesis
    proof (cases rule: roll_publish [OF li [unfolded vs(2)] n ne rm vs(1) til])
      case (1 st')
      then show ?thesis using True run by auto
    next
      case ok: (2 st' w0 nw)
      have "dur (cfg_crc cfg) (w_fs st') (last (files (w_set st'))) (last (pre @ [l, []]))"
        by (simp add: dur_def)
      then have "writer_inv cfg st' (pre @ [l, []])" "all_durable cfg st' (pre @ [l, []])"
        using ok(2,3) inv vs(2) by (auto simp: writer_inv_def loop_inv_def intro: sealed_durable)
      then show ?thesis using True run ok(1,5) vs(2) by auto
    qed
  qed
qed


lemma handle_append_spec:
  assumes cfg: "cfg_ok cfg" and inv: "writer_inv cfg st lss" and es: "\<forall>e \<in> set es. entry_ok cfg e"
    and ids: "map fst es = [k..<k + length es]" "next_log lss k"
    and rm: "room (w_set st) (Suc (length es))"
  shows "(\<exists>st'. handle_append cfg (data_len_limit cfg) es st = (Err IO, st') \<and> \<not> no_faults (w_fs st)) \<or>
     (\<exists>st' lss' r. handle_append cfg (data_len_limit cfg) es st = (Ok (), st') \<and> writer_inv cfg st' lss' \<and>
        concat lss' = concat lss @ es \<and> w_out st' = w_out st @ [Ack (Ok ()), Callback r] \<and>
        w_meta st' = w_meta st \<and> faulty (w_fs st') = faulty (w_fs st) \<and>
        (r = Ok () \<or> r = Err IO \<and> \<not> no_faults (w_fs st)) \<and>
        (cfg_sync cfg = Immediate \<longrightarrow> r = Ok () \<longrightarrow> all_durable cfg st' lss'))"
proof -
  have crc: "crc_ok (cfg_crc cfg)" and n: "size_ok (cfg_size cfg)" using cfg by (simp_all add: cfg_ok_def)
  have rm0: "room (w_set st) (length es)" using rm by (simp add: room_def)
  have "(\<exists>st'. append_entries cfg (data_len_limit cfg) es st = (Err IO, st') \<and> \<not> no_faults (w_fs st)) \<or>
     (\<exists>st' lss'. append_entries cfg (data_len_limit cfg) es st = (Ok (Ok ()), st') \<and> loop_inv cfg st' lss' \<and>
        concat lss' = concat lss @ es \<and> frame st st' \<and>
        wal_no (last (files (w_set st'))) \<le> wal_no (last (files (w_set st))) + length es)"
    by (rule append_entries_spec [OF crc n _ writer_loop_inv [OF inv] es ids rm0]) (rule limit_ok)
  then show ?thesis
  proof (elim disjE exE conjE)
    fix st' assume "append_entries cfg (data_len_limit cfg) es st = (Err IO, st')" "\<not> no_faults (w_fs st)"
    then show ?thesis by (simp add: handle_append_def act_simps)
  next
    fix st1 lss1 assume a: "append_entries cfg (data_len_limit cfg) es st = (Ok (Ok ()), st1)"
      "loop_inv cfg st1 lss1" "concat lss1 = concat lss @ es" "frame st st1"
      "wal_no (last (files (w_set st1))) \<le> wal_no (last (files (w_set st))) + length es"
    have ok: "set_ok (cfg_crc cfg) (w_fs st1) (w_set st1) lss1"
      and lag: "lagging (w_locked st1) (w_set st1)"
      using a(2) by (simp_all add: loop_inv_def set_inv_def)
    obtain vs w where vs: "files (w_set st1) = vs @ [w]" "active (w_set st1) = Some (length vs)"
      using ok by (rule set_ok_snocE)
    define st2 where "st2 = st1\<lparr>w_locked := clone_no_map (w_set st1), w_out := w_out st1 @ [Ack (Ok ())], is_dirty := True\<rparr>"
    have inv2: "set_inv (cfg_crc cfg) (w_fs st2) (w_set st2) lss1" "is_dirty st2"
      using a(2) by (simp_all add: st2_def loop_inv_def)
    obtain r st3 where s: "sync_after_append (cfg_sync cfg) (Ok ()) st2 = (Ok r, st3)"
        "r = Ok () \<or> r = Err IO \<and> \<not> no_faults (w_fs st2)"
        "set_inv (cfg_crc cfg) (w_fs st3) (w_set st2) lss1" "w_set st3 = w_set st2" "w_locked st3 = w_locked st2"
        "frame st2 st3"
        "cfg_sync cfg = Immediate \<Longrightarrow> r = Ok () \<Longrightarrow> dur (cfg_crc cfg) (w_fs st3) (last (files (w_set st2))) (last lss1)"
        "\<not> is_dirty st3 \<Longrightarrow> dur (cfg_crc cfg) (w_fs st3) (last (files (w_set st2))) (last lss1)"
      using sync_after_append_spec [OF inv2, of "cfg_sync cfg"] by blast
    define st4 where "st4 = st3\<lparr>w_out := w_out st3 @ [Callback r]\<rparr>"
    have inv4: "writer_inv cfg st4 lss1"
      using a(2,3) inv es s by (auto simp: writer_inv_def loop_inv_def st4_def st2_def entry_ok_def)
    have rm4: "room (w_set st4) 1" using rm a(5) s(4) by (simp add: room_def st4_def st2_def)
    have dur4: "all_durable cfg st4 lss1" if "cfg_sync cfg = Immediate \<and> r = Ok ()"
      using that s(3,4,7) by (intro sealed_durable) (simp_all add: st4_def)
    have run: "handle_append cfg (data_len_limit cfg) es st =
        abind (on_set (on_active (\<lambda>(s, w). (space_left w, (s, w))))) (\<lambda>left.
          if left < 4 * 1024 then athen (on_set (roll_over (cfg_size cfg))) publish_files else aret ()) st4"
      using s(1) by (simp add: handle_append_def act_simps a(1) publish_active_spec [OF lag vs(2,1)] send_def
          st2_def st4_def)
    have fr: "faulty (w_fs st4) = faulty (w_fs st)" "w_meta st4 = w_meta st"
        "w_out st4 = w_out st @ [Ack (Ok ()), Callback r]" "no_faults (w_fs st2) = no_faults (w_fs st)"
      using a(4) s(6) by (simp_all add: frame_def st4_def st2_def no_faults_def)
    from preemptive_roll [OF cfg inv4 rm4, of "cfg_sync cfg = Immediate \<and> r = Ok ()"] dur4
    show ?thesis
      unfolding run [symmetric] using a(3) fr s(2) by (fastforce simp: frame_def no_faults_def)
  qed
qed

section \<open>A store that has just been created\<close>

definition ex_cfg :: "log_sync \<Rightarrow> wal_cfg" where
  "ex_cfg sync = \<lparr>cfg_crc = crc_sum, cfg_ser = meta_enc, cfg_size = 8192, cfg_sync = sync,
     cfg_oversized_error = False\<rparr>"

definition ex_set :: "fs \<times> wal_set" where
  "ex_set = snd (refill 8192 (fs_empty, \<lparr>active = None, base_path = ''d'', files = []\<rparr>))"

definition ex_start :: writer_st where
  "ex_start = \<lparr>w_fs = fst ex_set, w_meta = \<lparr>last_purged_log_id = None, vote = None\<rparr>,
     w_locked = clone_no_map (snd ex_set), w_set = snd ex_set, is_dirty = False, w_out = []\<rparr>"

lemma cfg_ok_ex [simp]: "cfg_ok (ex_cfg sync)"
  by (simp add: cfg_ok_def ex_cfg_def size_ok_def min_wal_size_def u32_max_def)

lemma ex_start_facts:
  "writer_inv (ex_cfg sync) ex_start [[]]" "no_faults (w_fs ex_start)" "fs_ok (w_fs ex_start)"
  "wal_no (last (files (w_set ex_start))) = 1" "base_path (w_set ex_start) = ''d''"
  "length (files (w_set ex_start)) = 1" "id_from (hd (files (w_set ex_start))) = 0"
  "len_max (hd (files (w_set ex_start))) = 8192"
proof -
  let ?ws = "\<lparr>active = None, base_path = ''d'', files = []\<rparr>"
  have "size_ok 8192" by (simp add: size_ok_def min_wal_size_def u32_max_def)
  then obtain s' nw where r: "refill 8192 (fs_empty, ?ws) = (Ok (), (s', ?ws\<lparr>files := [nw], active := Some 0\<rparr>))"
    "set_inv crc_sum s' (?ws\<lparr>files := [nw], active := Some 0\<rparr>) [[]]" "faulty s' = faulty fs_empty"
    "wal_no nw = 1" "len_max nw = 8192" "data_end nw = None" "id_from nw = 0"
    using refill_empty [of ?ws 8192 fs_empty crc_sum] by (auto simp: no_faults_def)
  have ex: "w_fs ex_start = s'" "w_set ex_start = ?ws\<lparr>files := [nw], active := Some 0\<rparr>"
      "w_locked ex_start = clone_no_map (w_set ex_start)"
    by (simp_all add: ex_start_def ex_set_def r(1))
  show "writer_inv (ex_cfg sync) ex_start [[]]"
    using r by (simp add: writer_inv_def ex ex_cfg_def dur_def sizes_ok_def)
  show "no_faults (w_fs ex_start)" using r(3) by (simp add: ex no_faults_def)
  show "fs_ok (w_fs ex_start)" using r(2) by (simp add: ex set_inv_def set_ok_def)
  show "wal_no (last (files (w_set ex_start))) = 1" "base_path (w_set ex_start) = ''d''"
    "length (files (w_set ex_start)) = 1" "id_from (hd (files (w_set ex_start))) = 0"
    "len_max (hd (files (w_set ex_start))) = 8192"
    using r by (simp_all add: ex)
qed

lemma ex_entries:
  "\<forall>e \<in> set [(1, [7]), (2, [8, 9])]. entry_ok (ex_cfg sync) e"
  by (simp add: entry_ok_def ex_cfg_def u64_max_def)

section \<open>What an append promises\<close>

text \<open>C1. Functional correctness of an append. On a file system without faults, a request whose entries
  continue the log and fit into a file is acknowledged and completed with success, the log is the old
  log followed by the entries (whatever number of roll-overs to new files that takes), the invariant of
  the writer is kept, and the copy shared with the readers is up to date.\<close>

theorem handle_append_extends_log:
  assumes "cfg_ok cfg" and "writer_inv cfg st lss" and "\<forall>e \<in> set es. entry_ok cfg e"
    and "map fst es = [k..<k + length es]" and "next_log lss k"
    and "room (w_set st) (Suc (length es))" and "no_faults (w_fs st)"
  shows "\<exists>st' lss'. handle_append cfg (data_len_limit cfg) es st = (Ok (), st') \<and>
     concat lss' = concat lss @ es \<and> writer_inv cfg st' lss' \<and> w_locked st' = clone_no_map (w_set st') \<and>
     w_out st' = w_out st @ [Ack (Ok ()), Callback (Ok ())]"
proof -
  from handle_append_spec [OF assms(1-6)] assms(7)
  obtain st' lss' r where a: "handle_append cfg (data_len_limit cfg) es st = (Ok (), st')" "writer_inv cfg st' lss'"
      "concat lss' = concat lss @ es" "w_out st' = w_out st @ [Ack (Ok ()), Callback r]" "r = Ok ()"
    by blast
  then show ?thesis by (intro exI [of _ st'] exI [of _ lss']) (simp add: writer_inv_def)
qed

theorem handle_append_extends_log_witness:
  "\<exists>st' lss'. handle_append (ex_cfg Immediate) (data_len_limit (ex_cfg Immediate)) [(1, [7]), (2, [8, 9])] ex_start
       = (Ok (), st') \<and> concat lss' = [(1, [7]), (2, [8, 9])] \<and> writer_inv (ex_cfg Immediate) st' lss'"
  using handle_append_extends_log [OF cfg_ok_ex ex_start_facts(1) [of Immediate] ex_entries, of 1]
    ex_start_facts(2,4)
  by (auto simp: room_def next_log_def upt_rec)



section \<open>Publishing a removal\<close>

lemma filter_unique:
  assumes "distinct (map f xs)"
  shows "filter (\<lambda>x. f x = k) xs = [] \<or> (\<exists>x \<in> set xs. f x = k \<and> filter (\<lambda>x. f x = k) xs = [x])"
  using assms
proof (induction xs)
  case Nil
  then show ?case by simp
next
  case (Cons x xs)
  show ?case
  proof (cases "f x = k")
    case True
    then have "filter (\<lambda>x. f x = k) xs = []" using Cons.prems by (auto simp: filter_empty_conv image_iff eq_commute)
    then show ?thesis using True by simp
  next
    case False
    then show ?thesis using Cons by auto
  qed
qed

lemma same_file_shadow: "same_file w w' \<Longrightarrow> shadow (clone_no_mmap w) w'"
  by (simp add: same_file_def shadow_def clone_no_mmap_def)

lemma clone_wal_no [simp]: "wal_no (clone_no_mmap w) = wal_no w"
  by (simp add: clone_no_mmap_def)

lemma removed_prefix:
  assumes rem: "removed n ws ws'" and ok: "set_ok crc s ws lss" and ok': "set_ok crc s' ws' lss'"
    and len: "\<forall>w \<in> set (files ws). wal_no w = 1 \<longrightarrow> len_max w = n"
  obtains bs cs where "files ws' = bs @ cs"
    "list_all2 shadow (filter (\<lambda>f. \<exists>upd \<in> set (files ws'). wal_no upd = wal_no f) (map clone_no_mmap (files ws))) bs"
proof -
  have base: "base_path ws' = base_path ws" using rem by (simp add: removed_def)
  consider (fresh) nw where "files ws' = [nw]" "wal_no nw = 1" "len_max nw = n"
    | (part) as qs bs where "files ws = as @ qs @ bs" "list_all2 same_file qs (files ws')"
    using rem unfolding removed_def by blast
  then show thesis
  proof cases
    case fresh
    let ?F = "filter (\<lambda>f. wal_no f = 1) (files ws)"
    have F: "filter (\<lambda>f. \<exists>upd \<in> set (files ws'). wal_no upd = wal_no f) (map clone_no_mmap (files ws))
        = map clone_no_mmap ?F"
      using fresh by (simp add: filter_map o_def eq_commute)
    from filter_unique [OF set_ok_distinct(2) [OF ok], of 1] show thesis
    proof (elim disjE bexE conjE)
      assume "?F = []"
      then show thesis using that [of "[]" "files ws'"] F by simp
    next
      fix f assume f: "f \<in> set (files ws)" "wal_no f = 1" "?F = [f]"
      obtain l l' where "file_in crc s (base_path ws) f l" "file_in crc s' (base_path ws') nw l'"
        using set_ok_file_in [OF ok f(1)] set_ok_file_in [OF ok', of nw] fresh(1) by auto
      then have "same_file f nw"
        using f(1,2) fresh len base by (auto simp: same_file_def file_in_def file_logs_def)
      then show thesis using that [of "[nw]" "[]"] F f(3) fresh(1) same_file_shadow by simp
    qed
  next
    case part
    have nos: "wal_no ` set (files ws') = wal_no ` set qs"
    proof -
      have "map wal_no (files ws') = map wal_no qs"
        using part(2) by (induction rule: list_all2_induct) (auto simp: same_file_def)
      then show ?thesis by (metis list.set_map)
    qed
    have out: "wal_no f \<notin> wal_no ` set qs" if "f \<in> set as \<union> set bs" for f
      using set_ok_distinct(2) [OF ok] part(1) that by auto
    have "filter (\<lambda>f. wal_no f \<in> wal_no ` set qs) (files ws) = qs"
      using out by (simp add: part(1) filter_empty_conv filter_id_conv)
    then have F: "filter (\<lambda>f. \<exists>upd \<in> set (files ws'). wal_no upd = wal_no f) (map clone_no_mmap (files ws))
        = map clone_no_mmap qs"
      using nos by (simp add: filter_map o_def image_iff [symmetric] eq_commute)
    have "list_all2 shadow (map clone_no_mmap qs) (files ws')"
      using part(2) same_file_shadow by (simp add: list_all2_map1 list_all2_mono)
    then show thesis using that [of "files ws'" "[]"] F by simp
  qed
qed

lemma publish_files_removed:
  assumes lock: "w_locked st = clone_no_map ws" and rem: "removed n ws (w_set st)"
    and ok: "set_ok crc s ws lss" and ok': "set_ok crc s' (w_set st) lss'"
    and len: "\<forall>w \<in> set (files ws). wal_no w = 1 \<longrightarrow> len_max w = n"
  shows "publish_files st = (Ok (), st\<lparr>w_locked := clone_no_map (w_set st)\<rparr>)"
proof -
  let ?lock = "(w_locked st)\<lparr>active := active (w_set st)\<rparr>"
  obtain bs cs where "files (w_set st) = bs @ cs"
    "list_all2 shadow (filter (\<lambda>f. \<exists>upd \<in> set (files (w_set st)). wal_no upd = wal_no f)
       (map clone_no_mmap (files ws))) bs"
    using removed_prefix [OF rem ok ok' len] .
  then have "clone_files_from_no_mmap ?lock (files (w_set st))
      = Ok (?lock\<lparr>files := map clone_no_mmap (files (w_set st))\<rparr>)"
    using lock by (intro clone_files_shadow [of _ _ bs cs]) (simp_all add: clone_no_map_def)
  moreover have "?lock\<lparr>files := map clone_no_mmap (files (w_set st))\<rparr> = clone_no_map (w_set st)"
    using lock rem by (simp add: clone_no_map_def removed_def)
  ultimately show ?thesis by (simp add: publish_files_def act_simps)
qed


lemma sizes_removed:
  assumes "sizes_ok n ws" and "removed n ws ws'"
  shows "sizes_ok n ws'"
proof -
  consider nw where "files ws' = [nw]" "wal_no nw = 1" "len_max nw = n"
    | as qs bs where "files ws = as @ qs @ bs" "list_all2 same_file qs (files ws')"
    using assms(2) unfolding removed_def by blast
  then show ?thesis
  proof cases
    case 1
    then show ?thesis by (simp add: sizes_ok_def)
  next
    case 2
    show ?thesis unfolding sizes_ok_def
    proof
      fix w' assume "w' \<in> set (files ws')"
      then obtain w where "w \<in> set qs" "same_file w w'"
        using 2(2) by (metis in_set_conv_nth list_all2_conv_all_nth)
      moreover have "n \<le> len_max w \<and> (wal_no w = 1 \<longrightarrow> len_max w = n)"
        using assms(1) 2(1) calculation(1) by (simp add: sizes_ok_def)
      ultimately show "n \<le> len_max w' \<and> (wal_no w' = 1 \<longrightarrow> len_max w' = n)"
        by (simp add: same_file_def)
    qed
  qed
qed

section \<open>Serving a removal\<close>

text \<open>Writing the metadata touches nothing of the log.\<close>

lemma write_meta_spec:
  assumes inv: "set_inv (cfg_crc cfg) (w_fs st) (w_set st) lss" and cd: "codec_ok (cfg_ser cfg) de"
    and nf: "no_faults (w_fs st)" and crc: "crc_ok (cfg_crc cfg)"
  obtains s' where "write_meta cfg st = (Ok (), st\<lparr>w_fs := s'\<rparr>)" "meta_frame (base_path (w_set st)) (w_fs st) s'"
    "meta_read_or_create (cfg_crc cfg) (cfg_ser cfg) de (base_path (w_set st)) (fs_crash s') = (Ok (w_meta st), fs_crash s')"
proof -
  have "fs_ok (w_fs st)" using inv by (simp add: set_inv_def set_ok_def)
  then obtain s' i d where w: "meta_write (cfg_crc cfg) (cfg_ser cfg) (w_meta st) (base_path (w_set st)) (w_fs st) = (Ok (), s')"
      "meta_frame (base_path (w_set st)) (w_fs st) s'" "2 \<le> length d" "de d = Ok (w_meta st)"
      "fs_lookup s' (meta_path (base_path (w_set st))) = Some i" "ino_durable s' i = meta_content (cfg_crc cfg) d"
    using cd nf by (rule meta_write_Ok)
  have "no_faults (fs_crash s')" using w(2) nf by (simp add: meta_frame_def no_faults_def fs_simps)
  then show thesis
    using w by (intro that [of s']) (simp_all add: write_meta_def act_simps on_fs_def meta_read_content [OF _ _ crc] fs_simps)
qed


text \<open>What a removal does once the files are gone: \<open>shift\<close> is what the deletion guarantees from a state that
  was just flushed.\<close>

lemma flush_blocking_Ok:
  assumes inv: "writer_inv cfg st lss" and nf: "no_faults (w_fs st)"
  obtains st' where "flush_blocking st = (Ok (), st')" "set_inv (cfg_crc cfg) (w_fs st') (w_set st) lss"
    "w_set st' = w_set st" "w_locked st' = w_locked st" "frame st st'"
    "dur (cfg_crc cfg) (w_fs st') (last (files (w_set st))) (last lss)" "\<not> is_dirty st'"
proof (rule flush_blocking_spec [of cfg st lss])
  show "set_inv (cfg_crc cfg) (w_fs st) (w_set st) lss" using inv by (simp add: writer_inv_def)
  show "dur (cfg_crc cfg) (w_fs st) (last (files (w_set st))) (last lss)" if "\<not> is_dirty st"
    using inv that by (simp add: writer_inv_def)
qed (use that nf in auto)

lemma purge_meta:
  assumes inv: "set_inv (cfg_crc cfg) (w_fs st) ws lss" and ws: "w_set st = ws" and nf: "no_faults (w_fs st)"
    and crc: "crc_ok (cfg_crc cfg)" and cd: "ll = None \<or> codec_ok (cfg_ser cfg) de"
    and d: "dur (cfg_crc cfg) (w_fs st) (last (files ws)) (last lss)"
    and m: "m = (if ll = None then w_meta st else (w_meta st)\<lparr>last_purged_log_id := ll\<rparr>)"
  obtains s' where "(if ll \<noteq> None then athen (set_purged ll) (write_meta cfg) else aret ()) st
        = (Ok (), st\<lparr>w_meta := m, w_fs := s'\<rparr>)"
    "set_inv (cfg_crc cfg) s' ws lss" "no_faults s'" "dur (cfg_crc cfg) s' (last (files ws)) (last lss)"
proof (cases ll)
  case None
  then show thesis using inv nf d m that [of "w_fs st"] by (simp add: act_simps)
next
  case (Some l)
  let ?st = "st\<lparr>w_meta := m\<rparr>"
  have cd': "codec_ok (cfg_ser cfg) de" using cd Some by simp
  obtain s' where w: "write_meta cfg ?st = (Ok (), ?st\<lparr>w_fs := s'\<rparr>)" "meta_frame (base_path ws) (w_fs st) s'"
    using write_meta_spec [of cfg ?st, OF _ cd' _ crc] inv ws nf by auto
  then show thesis
    using Some nf m set_inv_meta [OF inv w(2)] d
    by (intro that [of s']) (simp_all add: set_purged_def act_simps meta_frame_def no_faults_def)
qed

lemma handle_remove_run:
  assumes cfg: "cfg_ok cfg" and inv: "writer_inv cfg st lss" and nf: "no_faults (w_fs st)"
    and cd: "ll = None \<or> codec_ok (cfg_ser cfg) de"
    and shift: "\<And>s. set_inv (cfg_crc cfg) s (w_set st) lss \<Longrightarrow> no_faults s \<Longrightarrow>
      dur (cfg_crc cfg) s (last (files (w_set st))) (last lss) \<Longrightarrow>
      \<exists>s' ws' lss'. shift_delete_logs (cfg_crc cfg) from til (cfg_size cfg) (s, w_set st) = (Ok (), (s', ws')) \<and>
        set_ok (cfg_crc cfg) s' ws' lss' \<and> faulty s' = faulty s \<and> removed (cfg_size cfg) (w_set st) ws' \<and> Q s' ws' lss'"
  shows "\<exists>st' lss'. handle_remove cfg from til ll st = (Ok (), st') \<and> Q (w_fs st') (w_set st') lss' \<and>
    set_ok (cfg_crc cfg) (w_fs st') (w_set st') lss' \<and> w_locked st' = clone_no_map (w_set st') \<and>
    sizes_ok (cfg_size cfg) (w_set st') \<and> no_faults (w_fs st') \<and> w_out st' = w_out st @ [Ack (Ok ())] \<and>
    w_meta st' = (if ll = None then w_meta st else (w_meta st)\<lparr>last_purged_log_id := ll\<rparr>)"
proof -
  let ?crc = "cfg_crc cfg" and ?ws = "w_set st"
  have crc: "crc_ok ?crc" and sz: "sizes_ok (cfg_size cfg) ?ws" and lock: "w_locked st = clone_no_map ?ws"
    using inv cfg by (simp_all add: writer_inv_def cfg_ok_def)
  obtain st1 where f: "flush_blocking st = (Ok (), st1)" "set_inv ?crc (w_fs st1) ?ws lss" "w_set st1 = ?ws"
      "w_locked st1 = w_locked st" "frame st st1" "dur ?crc (w_fs st1) (last (files ?ws)) (last lss)" "\<not> is_dirty st1"
    by (rule flush_blocking_Ok [OF inv nf])
  have nf1: "no_faults (w_fs st1)" using frame_faults [OF f(5)] nf by simp
  define m1 where "m1 = (if ll = None then w_meta st else (w_meta st)\<lparr>last_purged_log_id := ll\<rparr>)"
  obtain s2 where s2: "(if ll \<noteq> None then athen (set_purged ll) (write_meta cfg) else aret ()) st1
        = (Ok (), st1\<lparr>w_meta := m1, w_fs := s2\<rparr>)"
      "set_inv ?crc s2 ?ws lss" "no_faults s2" "dur ?crc s2 (last (files ?ws)) (last lss)"
    by (rule purge_meta [OF f(2,3) nf1 crc cd f(6), of m1]) (use f(5) in \<open>simp_all add: m1_def frame_def\<close>)
  obtain s3 ws3 lss3 where s3: "shift_delete_logs ?crc from til (cfg_size cfg) (s2, ?ws) = (Ok (), (s3, ws3))"
      "set_ok ?crc s3 ws3 lss3" "faulty s3 = faulty s2" "removed (cfg_size cfg) ?ws ws3" "Q s3 ws3 lss3"
    using shift [OF s2(2-4)] by blast
  define st3 where "st3 = st1\<lparr>w_meta := m1, w_fs := s3, w_set := ws3\<rparr>"
  have "publish_files st3 = (Ok (), st3\<lparr>w_locked := clone_no_map (w_set st3)\<rparr>)"
    using s2(2) s3(2,4) f(4) lock sz
    by (intro publish_files_removed [of _ ?ws "cfg_size cfg" ?crc s2 lss s3 lss3])
       (simp_all add: st3_def set_inv_def sizes_ok_def)
  then have run: "handle_remove cfg from til ll st
      = (Ok (), st3\<lparr>w_locked := clone_no_map ws3, w_out := w_out st @ [Ack (Ok ())]\<rparr>)" (is "_ = (_, ?st')")
    using f(1,3,5) s2(1) s3(1)
    by (simp add: handle_remove_def act_simps on_set_def st3_def send_def frame_def)
  have "no_faults s3" using s3(3) s2(3) by (simp add: no_faults_def)
  then show ?thesis
    using run s3(2,5) sizes_removed [OF sz s3(4)]
    by (intro exI [of _ ?st'] exI [of _ lss3]) (simp add: st3_def m1_def)
qed

lemma handle_remove_spec:
  assumes cfg: "cfg_ok cfg" and inv: "writer_inv cfg st lss" and nf: "no_faults (w_fs st)"
    and cd: "ll = None \<or> codec_ok (cfg_ser cfg) de"
    and shift: "\<And>s. set_inv (cfg_crc cfg) s (w_set st) lss \<Longrightarrow> no_faults s \<Longrightarrow>
      dur (cfg_crc cfg) s (last (files (w_set st))) (last lss) \<Longrightarrow>
      \<exists>s' ws' lss'. shift_delete_logs (cfg_crc cfg) from til (cfg_size cfg) (s, w_set st) = (Ok (), (s', ws')) \<and>
        set_inv (cfg_crc cfg) s' ws' lss' \<and> concat lss' = filter P (concat lss) \<and> faulty s' = faulty s \<and>
        removed (cfg_size cfg) (w_set st) ws' \<and> dur (cfg_crc cfg) s' (last (files ws')) (last lss')"
  shows "\<exists>st' lss'. handle_remove cfg from til ll st = (Ok (), st') \<and> writer_inv cfg st' lss' \<and>
    concat lss' = filter P (concat lss) \<and> all_durable cfg st' lss' \<and> no_faults (w_fs st') \<and>
    w_out st' = w_out st @ [Ack (Ok ())] \<and>
    w_meta st' = (if ll = None then w_meta st else (w_meta st)\<lparr>last_purged_log_id := ll\<rparr>)"
proof -
  let ?Q = "\<lambda>s ws ls. set_inv (cfg_crc cfg) s ws ls \<and> dur (cfg_crc cfg) s (last (files ws)) (last ls) \<and>
      concat ls = filter P (concat lss)"
  have Q: "\<exists>s' ws' lss'. shift_delete_logs (cfg_crc cfg) from til (cfg_size cfg) (s, w_set st) = (Ok (), (s', ws')) \<and>
        set_ok (cfg_crc cfg) s' ws' lss' \<and> faulty s' = faulty s \<and> removed (cfg_size cfg) (w_set st) ws' \<and> ?Q s' ws' lss'"
    if "set_inv (cfg_crc cfg) s (w_set st) lss" "no_faults s"
      "dur (cfg_crc cfg) s (last (files (w_set st))) (last lss)" for s
    using shift [OF that] unfolding set_inv_def by blast
  obtain st' lss' where st': "handle_remove cfg from til ll st = (Ok (), st')" "?Q (w_fs st') (w_set st') lss'"
      "w_locked st' = clone_no_map (w_set st')" "sizes_ok (cfg_size cfg) (w_set st')" "no_faults (w_fs st')"
      "w_out st' = w_out st @ [Ack (Ok ())]"
      "w_meta st' = (if ll = None then w_meta st else (w_meta st)\<lparr>last_purged_log_id := ll\<rparr>)"
    using handle_remove_run [OF cfg inv nf cd, of "from" til ?Q] Q by blast
  have "writer_inv cfg st' lss'"
    using st'(2-4) inv by (simp add: writer_inv_def del: set_concat)
  moreover have "all_durable cfg st' lss'" using st'(2) by (intro sealed_durable) simp_all
  ultimately show ?thesis using st' by blast
qed

section \<open>A log in three files\<close>

lemma writer_of_loop:
  assumes "loop_inv cfg st lss" and "\<forall>e \<in> set (concat lss). fst e < u64_max"
  shows "writer_inv cfg (st\<lparr>w_locked := clone_no_map (w_set st), is_dirty := True\<rparr>) lss"
  using assms by (simp add: loop_inv_def writer_inv_def)

lemma grow_append:
  assumes "loop_inv (ex_cfg y) st (pre @ [l])" "no_faults (w_fs st)" "files (w_set st) = vs @ [w]"
    and "entry_ok (ex_cfg y) (i, d)" "next_log (pre @ [l]) i" "append_pos w + 17 + length d < 8192"
  shows "\<exists>st' w'. loop_inv (ex_cfg y) st' (pre @ [l @ [(i, d)]]) \<and> no_faults (w_fs st') \<and>
    files (w_set st') = vs @ [w'] \<and> append_pos w' = append_pos w + 17 + length d \<and> wal_no w' = wal_no w \<and>
    len_max w' = len_max w"
proof -
  have ok: "set_ok crc_sum (w_fs st) (w_set st) (pre @ [l])" and sz: "sizes_ok 8192 (w_set st)"
    using assms(1) by (simp_all add: loop_inv_def set_inv_def ex_cfg_def)
  have "file_in crc_sum (w_fs st) (base_path (w_set st)) w l"
    using ok assms(3) by (simp add: set_ok_def list_all2_snoc)
  then have "version w = 1" by (auto simp: file_in_def file_logs_def)
  then have "has_space w (length d) = Ok True"
    using assms(3,6) sz
    by (auto simp: has_space_def end_or_header_def offset_logs_def sizes_ok_def append_pos_def split: option.splits)
  moreover have "crc_ok (cfg_crc (ex_cfg y))" using cfg_ok_ex by (simp add: cfg_ok_def)
  ultimately obtain st' lss' where st': "loop_inv (ex_cfg y) st' lss'" "frame st st'"
      "files (w_set st') = vs @ [appended i d w]" "lss' = butlast (pre @ [l]) @ [last (pre @ [l]) @ [(i, d)]]"
    by (rule_tac append_one [OF _ assms(1,4,5,3)])
  then show ?thesis
    using frame_faults [OF st'(2)] assms(2)
    by (intro exI [of _ st'] exI [of _ "appended i d w"]) (simp_all add: append_pos_def appended_def)
qed

lemma grow_roll:
  assumes "loop_inv (ex_cfg y) st (pre @ [l])" "no_faults (w_fs st)" "files (w_set st) = vs @ [w]"
    and "l \<noteq> []" "wal_no w < 9" "id_until w < u64_max"
  shows "\<exists>st' w0 w'. loop_inv (ex_cfg y) st' (pre @ [l, []]) \<and> no_faults (w_fs st') \<and>
    files (w_set st') = vs @ [w0, w'] \<and> append_pos w' = 32 \<and> wal_no w' = Suc (wal_no w) \<and> mmap_mut w0 = None \<and>
    len_max w' = 8192"
proof -
  have n: "size_ok (cfg_size (ex_cfg y))" using cfg_ok_ex by (simp add: cfg_ok_def)
  have rm: "room (w_set st) 1" using assms(3,5) by (simp add: room_def)
  show ?thesis
  proof (cases rule: roll_publish [OF assms(1) n assms(4) rm assms(3,6)])
    case (1 st')
    then show ?thesis using assms(2) by simp
  next
    case (2 st' w0 nw)
    then show ?thesis
      using frame_faults [OF 2(5)] assms(2) by (auto simp: append_pos_def ex_cfg_def)
  qed
qed

lemma ids_of_file:
  assumes "set_ok crc s ws lss" and "files ws = vs @ w # us" and "lss = pre @ l # post" and "length pre = length vs"
    and "l \<noteq> []"
  shows "id_from w = fst (hd l)" and "id_until w = fst (last l)"
proof -
  have "file_in crc s (base_path ws) w l"
    using assms by (simp add: set_ok_def list_all2_append)
  then obtain bs where bs: "file_logs crc w bs l" by (auto simp: file_in_def)
  have "hd (map fst l) = id_from w"
    using file_logs_ids(3) [OF bs assms(5)] assms(5) by (simp add: hd_upt)
  then show "id_from w = fst (hd l)" using assms(5) by (simp add: hd_map)
  show "id_until w = fst (last l)" using file_logs_last [OF bs assms(5)] by simp
qed

definition ex_logs :: "logs list" where
  "ex_logs = [[(1, [7]), (2, [8, 9])], [(3, [5])], [(4, [6])]]"

lemma ex_three:
  obtains st a b c where "writer_inv (ex_cfg Immediate) st ex_logs" "no_faults (w_fs st)"
    "files (w_set st) = [a, b, c]" "mmap_mut b = None" "wal_no c = 3" "len_max c = 8192"
    "id_from a = 1" "id_from b = 3" "id_from c = 4" "id_until c = 4"
proof -
  let ?c = "ex_cfg Immediate"
  have e: "entry_ok ?c (1, [7])" "entry_ok ?c (2, [8, 9])" "entry_ok ?c (3, [5])" "entry_ok ?c (4, [6])"
    by (simp_all add: entry_ok_def ex_cfg_def u64_max_def)
  have s0: "loop_inv ?c ex_start [[]]" using ex_start_facts(1) by (rule writer_loop_inv)
  obtain w where w: "files (w_set ex_start) = [w]" "wal_no w = 1"
    using ex_start_facts(4,6) by (cases "files (w_set ex_start)") auto
  then have p: "append_pos w = 32"
    using s0 by (auto simp: append_pos_def loop_inv_def set_inv_def set_ok_def file_in_def file_logs_def)
  obtain s1 w1 where s1: "loop_inv ?c s1 [[(1, [7])]]" "no_faults (w_fs s1)" "files (w_set s1) = [w1]"
      "append_pos w1 = 50" "wal_no w1 = 1"
    using grow_append [of Immediate ex_start "[]" "[]" "[]" w 1 "[7]"] s0 ex_start_facts(2) w p e(1)
    by (auto simp: next_log_def)
  obtain s2 w2 where s2: "loop_inv ?c s2 [[(1, [7]), (2, [8, 9])]]" "no_faults (w_fs s2)" "files (w_set s2) = [w2]"
      "wal_no w2 = 1"
    using grow_append [of Immediate s1 "[]" "[(1, [7])]" "[]" w1 2 "[8, 9]"] s1 e(2)
    by (auto simp: next_log_def)
  have "id_until w2 = 2"
    using ids_of_file(2) [of crc_sum "w_fs s2" "w_set s2" "[[(1, [7]), (2, [8, 9])]]" "[]" w2 "[]" "[]"
        "[(1, [7]), (2, [8, 9])]" "[]"] s2
    by (simp add: loop_inv_def set_inv_def ex_cfg_def)
  then obtain s3 a w3 where s3: "loop_inv ?c s3 [[(1, [7]), (2, [8, 9])], []]" "no_faults (w_fs s3)"
      "files (w_set s3) = [a, w3]" "append_pos w3 = 32" "wal_no w3 = 2"
    using grow_roll [of Immediate s2 "[]" "[(1, [7]), (2, [8, 9])]" "[]" w2] s2 by (auto simp: u64_max_def)
  obtain s4 w4 where s4: "loop_inv ?c s4 [[(1, [7]), (2, [8, 9])], [(3, [5])]]" "no_faults (w_fs s4)"
      "files (w_set s4) = [a, w4]" "wal_no w4 = 2"
    using grow_append [of Immediate s3 "[[(1, [7]), (2, [8, 9])]]" "[]" "[a]" w3 3 "[5]"] s3 e(3)
    by (auto simp: next_log_def)
  have "id_until w4 = 3"
    using ids_of_file(2) [of crc_sum "w_fs s4" "w_set s4" "[[(1, [7]), (2, [8, 9])], [(3, [5])]]" "[a]" w4 "[]"
        "[[(1, [7]), (2, [8, 9])]]" "[(3, [5])]" "[]"] s4
    by (simp add: loop_inv_def set_inv_def ex_cfg_def)
  then obtain s5 b w5 where s5: "loop_inv ?c s5 [[(1, [7]), (2, [8, 9])], [(3, [5])], []]" "no_faults (w_fs s5)"
      "files (w_set s5) = [a, b, w5]" "append_pos w5 = 32" "wal_no w5 = 3" "mmap_mut b = None" "len_max w5 = 8192"
    using grow_roll [of Immediate s4 "[[(1, [7]), (2, [8, 9])]]" "[(3, [5])]" "[a]" w4] s4 by (auto simp: u64_max_def)
  obtain s6 c where s6: "loop_inv ?c s6 ex_logs" "no_faults (w_fs s6)" "files (w_set s6) = [a, b, c]" "wal_no c = 3"
      "len_max c = 8192"
    using grow_append [of Immediate s5 "[[(1, [7]), (2, [8, 9])], [(3, [5])]]" "[]" "[a, b]" w5 4 "[6]"] s5 e(4)
    by (auto simp: next_log_def ex_logs_def)
  have ok: "set_ok crc_sum (w_fs s6) (w_set s6) ex_logs"
    using s6(1) by (simp add: loop_inv_def set_inv_def ex_cfg_def)
  have "writer_inv ?c (s6\<lparr>w_locked := clone_no_map (w_set s6), is_dirty := True\<rparr>) ex_logs"
    using s6(1) by (rule writer_of_loop) (simp add: ex_logs_def u64_max_def)
  then show thesis
    using s6 s5(6) ids_of_file(1) [OF ok, of "[]" a "[b, c]" "[]" "[(1, [7]), (2, [8, 9])]" "[[(3, [5])], [(4, [6])]]"]
      ids_of_file(1) [OF ok, of "[a]" b "[c]" "[[(1, [7]), (2, [8, 9])]]" "[(3, [5])]" "[[(4, [6])]]"]
      ids_of_file [OF ok, of "[a, b]" c "[]" "[[(1, [7]), (2, [8, 9])], [(3, [5])]]" "[(4, [6])]" "[]"]
    by (intro that [of "s6\<lparr>w_locked := clone_no_map (w_set s6), is_dirty := True\<rparr>" a b c])
       (simp_all add: ex_logs_def)
qed


section \<open>What a removal promises\<close>

text \<open>C16. Functional correctness of a purge. On a file system without faults, purging up to \<open>til\<close> is
  acknowledged, keeps exactly the entries from \<open>til\<close> on, records the purge frontier in the metadata,
  keeps the invariant of the writer, and leaves every remaining entry durable.\<close>

theorem purge_keeps_suffix:
  assumes "cfg_ok cfg" and "writer_inv cfg st lss" and "no_faults (w_fs st)" and "codec_ok (cfg_ser cfg) de"
  shows "\<exists>st' lss'. handle_remove cfg 0 til (Some ll) st = (Ok (), st') \<and> writer_inv cfg st' lss' \<and>
    concat lss' = filter (\<lambda>e. til \<le> fst e) (concat lss) \<and> all_durable cfg st' lss' \<and>
    w_out st' = w_out st @ [Ack (Ok ())] \<and> w_meta st' = (w_meta st)\<lparr>last_purged_log_id := Some ll\<rparr>"
proof -
  have crc: "crc_ok (cfg_crc cfg)" and n: "size_ok (cfg_size cfg)" using assms(1) by (simp_all add: cfg_ok_def)
  have "\<exists>s' ws' lss'. shift_delete_logs (cfg_crc cfg) 0 til (cfg_size cfg) (s, w_set st) = (Ok (), (s', ws')) \<and>
      set_inv (cfg_crc cfg) s' ws' lss' \<and> concat lss' = filter (\<lambda>e. til \<le> fst e) (concat lss) \<and> faulty s' = faulty s \<and>
      removed (cfg_size cfg) (w_set st) ws' \<and> dur (cfg_crc cfg) s' (last (files ws')) (last lss')"
    if "set_inv (cfg_crc cfg) s (w_set st) lss" "no_faults s"
      "dur (cfg_crc cfg) s (last (files (w_set st))) (last lss)" for s
    by (rule purge_spec [OF crc that(1,2) n, of 0 til]) (use that(3) in blast)+
  from handle_remove_spec [OF assms(1-3) disjI2 [OF assms(4)] this, of "Some ll"] show ?thesis by auto
qed

theorem purge_keeps_suffix_witness:
  "\<exists>st st' lss'. writer_inv (ex_cfg Immediate) st ex_logs \<and>
     handle_remove (ex_cfg Immediate) 0 2 (Some [1]) st = (Ok (), st') \<and> writer_inv (ex_cfg Immediate) st' lss' \<and>
     concat lss' = [(2, [8, 9]), (3, [5]), (4, [6])]"
proof -
  obtain st where st: "writer_inv (ex_cfg Immediate) st ex_logs" "no_faults (w_fs st)" by (rule ex_three)
  have "codec_ok (cfg_ser (ex_cfg Immediate)) meta_dec" by (simp add: ex_cfg_def)
  from purge_keeps_suffix [OF cfg_ok_ex st this, of 2 "[1]"] st(1) show ?thesis
    by (auto simp: ex_logs_def)
qed

lemma last_id_bound:
  assumes inv: "writer_inv cfg st lss" and ne: "concat lss \<noteq> []"
  shows "id_until (last (files (w_set st))) \<le> u64_max"
proof -
  have ok: "set_ok (cfg_crc cfg) (w_fs st) (w_set st) lss" and b: "\<forall>e \<in> set (concat lss). fst e < u64_max"
    using inv by (simp_all add: writer_inv_def set_inv_def)
  obtain vs w pre l where vs: "files (w_set st) = vs @ [w]" "lss = pre @ [l]"
      "file_in (cfg_crc cfg) (w_fs st) (base_path (w_set st)) w l"
    using ok by (rule set_ok_snocE)
  let ?i = "Suc (fst (last (concat lss)))"
  have le: "?i \<le> u64_max" using b last_in_set [OF ne] by force
  have nx: "next_log (pre @ [l]) ?i" using vs(2) by (simp add: next_log_def)
  note nxt = next_log_last [OF ok [unfolded vs(2)] vs(1) nx]
  have "length vs = length pre" using ok vs(1,2) by (auto simp: set_ok_def dest!: list_all2_lengthD)
  then have "l = [] \<Longrightarrow> vs \<noteq> []" using ne vs(2) by auto
  then show ?thesis
    using nxt le vs(1,3) by (cases "l = []") (auto simp: file_in_def)
qed

text \<open>C17. Functional correctness of a truncation. On a file system without faults, truncating from an index
  \<open>k\<close> after the start of the log is acknowledged, keeps exactly the entries before \<open>k\<close> and keeps the
  invariant of the writer, so that the log can be continued from \<open>k\<close>; except when \<open>k\<close> is the first index
  of a sealed file, the case of the next theorem.\<close>

theorem truncate_keeps_prefix:
  assumes "cfg_ok cfg" and "writer_inv cfg st lss" and "no_faults (w_fs st)"
    and "concat lss \<noteq> []" and "id_from (hd (files (w_set st))) < k" and "\<forall>f \<in> set (butlast (files (w_set st))). id_from f \<noteq> k"
  shows "\<exists>st' lss'. handle_remove cfg k u64_max None st = (Ok (), st') \<and> writer_inv cfg st' lss' \<and>
    concat lss' = filter (\<lambda>e. fst e < k) (concat lss) \<and> all_durable cfg st' lss' \<and>
    w_out st' = w_out st @ [Ack (Ok ())] \<and> w_meta st' = w_meta st"
proof -
  have crc: "crc_ok (cfg_crc cfg)" using assms(1) by (simp add: cfg_ok_def)
  have til: "id_until (last (files (w_set st))) \<le> u64_max"
    using assms(2,4) by (rule last_id_bound)
  have "\<exists>s' ws' lss'. shift_delete_logs (cfg_crc cfg) k u64_max (cfg_size cfg) (s, w_set st) = (Ok (), (s', ws')) \<and>
      set_inv (cfg_crc cfg) s' ws' lss' \<and> concat lss' = filter (\<lambda>e. fst e < k) (concat lss) \<and> faulty s' = faulty s \<and>
      removed (cfg_size cfg) (w_set st) ws' \<and> dur (cfg_crc cfg) s' (last (files ws')) (last lss')"
    if "set_inv (cfg_crc cfg) s (w_set st) lss" "no_faults s"
      "dur (cfg_crc cfg) s (last (files (w_set st))) (last lss)" for s
    by (rule truncate_spec [OF crc that(1,2) assms(5) til, of "cfg_size cfg"])
      (use that(3) assms(6) in \<open>unfold set_inv_def, blast\<close>)
  from handle_remove_spec [OF assms(1-3) _ this, of None] show ?thesis by auto
qed


theorem truncate_keeps_prefix_witness:
  "\<exists>st st' lss'. writer_inv (ex_cfg Immediate) st ex_logs \<and>
     handle_remove (ex_cfg Immediate) 2 u64_max None st = (Ok (), st') \<and> writer_inv (ex_cfg Immediate) st' lss' \<and>
     concat lss' = [(1, [7])]"
proof -
  obtain st a b c where st: "writer_inv (ex_cfg Immediate) st ex_logs" "no_faults (w_fs st)"
      "files (w_set st) = [a, b, c]" "id_from a = 1" "id_from b = 3"
    by (rule ex_three)
  have "concat ex_logs \<noteq> []" "id_from (hd (files (w_set st))) < 2"
      "\<forall>f \<in> set (butlast (files (w_set st))). id_from f \<noteq> 2"
    using st by (simp_all add: ex_logs_def)
  from truncate_keeps_prefix [OF cfg_ok_ex st(1,2) this] st(1) show ?thesis
    by (auto simp: ex_logs_def)
qed

lemma unmapped_append_panics:
  assumes "set_ok (cfg_crc cfg) (w_fs st) (w_set st) lss" and "mmap_mut (last (files (w_set st))) = None"
    and "entry_ok cfg (k, d)"
  shows "\<exists>p st'. handle_append cfg (data_len_limit cfg) ((k, d) # es) st = (Panic p, st')"
proof -
  obtain vs w l where vs: "files (w_set st) = vs @ [w]" "active (w_set st) = Some (length vs)"
      "file_in (cfg_crc cfg) (w_fs st) (base_path (w_set st)) w l"
    using assms(1) by (rule set_ok_snocE)
  obtain b where sp: "has_space w (length d) = Ok b"
    using has_space_total [of w "length d"] vs(3) by (auto simp: file_in_def file_logs_def)
  have lim: "\<not> data_len_limit cfg < length d" using limit_ok [OF assms(3)] by simp
  have "mmap_mut w = None" using assms(2) vs(1) by simp
  then show ?thesis
    using lim vs(1) by (cases b) (auto simp: handle_append_def act_simps active_space_eq [OF vs(2,1)] sp
        on_set_def on_active_last [OF vs(2,1)] append_log_def roll_over_def rassert_def)
qed

text \<open>C33. A truncation from the first index of a sealed file stops the writer. It is acknowledged with
  success, but the file that becomes the active one is not mapped for writing, so that the append that
  continues the log at that index panics.\<close>

theorem truncate_at_file_start_panics:
  assumes "cfg_ok cfg" and "writer_inv cfg st lss" and "no_faults (w_fs st)" and "concat lss \<noteq> []"
    and "id_from (hd (files (w_set st))) < k" and "f \<in> set (butlast (files (w_set st)))"
    and "id_from f = k" and "mmap_mut f = None" and "entry_ok cfg (k, d)"
  shows "\<exists>st' p st''. handle_remove cfg k u64_max None st = (Ok (), st') \<and>
    w_out st' = w_out st @ [Ack (Ok ())] \<and>
    handle_append cfg (data_len_limit cfg) [(k, d)] st' = (Panic p, st'')"
proof -
  have crc: "crc_ok (cfg_crc cfg)" using assms(1) by (simp add: cfg_ok_def)
  have til: "id_until (last (files (w_set st))) \<le> u64_max"
    using assms(2,4) by (rule last_id_bound)
  have "\<exists>s' ws' lss'. shift_delete_logs (cfg_crc cfg) k u64_max (cfg_size cfg) (s, w_set st) = (Ok (), (s', ws')) \<and>
      set_ok (cfg_crc cfg) s' ws' lss' \<and> faulty s' = faulty s \<and> removed (cfg_size cfg) (w_set st) ws' \<and>
      mmap_mut (last (files ws')) = None"
    if "set_inv (cfg_crc cfg) s (w_set st) lss" "no_faults s"
      "dur (cfg_crc cfg) s (last (files (w_set st))) (last lss)" for s
    by (rule truncate_spec [OF crc that(1,2) assms(5) til, of "cfg_size cfg"]) (use assms(6-8) in metis)
  from handle_remove_run [OF assms(1-3) _ this, of None] obtain st' lss' where
    st': "handle_remove cfg k u64_max None st = (Ok (), st')" "w_out st' = w_out st @ [Ack (Ok ())]"
      "set_ok (cfg_crc cfg) (w_fs st') (w_set st') lss'" "mmap_mut (last (files (w_set st'))) = None"
    by auto
  then show ?thesis using unmapped_append_panics [OF st'(3,4) assms(9)] by blast
qed

theorem truncate_at_file_start_panics_witness:
  "\<exists>st st' p st''. writer_inv (ex_cfg Immediate) st ex_logs \<and>
     handle_remove (ex_cfg Immediate) 3 u64_max None st = (Ok (), st') \<and>
     handle_append (ex_cfg Immediate) (data_len_limit (ex_cfg Immediate)) [(3, [5])] st' = (Panic p, st'')"
proof -
  obtain st a b c where st: "writer_inv (ex_cfg Immediate) st ex_logs" "no_faults (w_fs st)"
      "files (w_set st) = [a, b, c]" "mmap_mut b = None" "id_from a = 1" "id_from b = 3"
    by (rule ex_three)
  have ne: "concat ex_logs \<noteq> []" "id_from (hd (files (w_set st))) < 3"
      "b \<in> set (butlast (files (w_set st)))" "entry_ok (ex_cfg Immediate) (3, [5])"
    using st by (simp_all add: ex_logs_def entry_ok_def ex_cfg_def u64_max_def)
  from truncate_at_file_start_panics [OF cfg_ok_ex st(1,2) ne(1-3) st(6,4) ne(4)] st(1) show ?thesis by blast
qed


section \<open>What a vote promises\<close>

text \<open>The disk after a power loss, in a machine whose disk works.\<close>

definition restarted :: "fs \<Rightarrow> fs" where
  "restarted s = (fs_crash s)\<lparr>faulty := (\<lambda>_. False)\<rparr>"

lemma restarted_simps [fs_simps]:
  "ino_bytes (restarted s) i = ino_durable s i" "fs_lookup (restarted s) p = fs_lookup s p" "no_faults (restarted s)"
  using fs_crash_simps by (simp_all add: restarted_def no_faults_def ino_bytes_def fs_lookup_def)

lemma write_meta_any:
  assumes inv: "set_inv (cfg_crc cfg) (w_fs st) (w_set st) lss" and cd: "codec_ok (cfg_ser cfg) de"
    and crc: "crc_ok (cfg_crc cfg)"
  obtains r s' where "write_meta cfg st = (r, st\<lparr>w_fs := s'\<rparr>)" "r = Ok () \<or> r = Err IO"
    "meta_frame (base_path (w_set st)) (w_fs st) s'"
    "r = Ok () \<Longrightarrow> meta_read_or_create (cfg_crc cfg) (cfg_ser cfg) de (base_path (w_set st)) (restarted s')
       = (Ok (w_meta st), restarted s')"
proof -
  have fok: "fs_ok (w_fs st)" using inv by (simp add: set_inv_def set_ok_def)
  obtain d where d: "cfg_ser cfg (w_meta st) = Ok d" "2 \<le> length d" "de d = Ok (w_meta st)"
    using cd unfolding codec_ok_def by blast
  show thesis
  proof (cases rule: meta_write_unchecked_spec [OF fok, of "cfg_crc cfg" d "base_path (w_set st)"])
    case (1 s' i)
    then show thesis
      using d crc by (intro that [of "Ok ()" s'])
        (simp_all add: write_meta_def act_simps on_fs_def meta_write_def fs_simps
          meta_read_content [where d = d and i = i])
  next
    case (2 s')
    then show thesis
      using d by (intro that [of "Err IO" s']) (simp_all add: write_meta_def act_simps on_fs_def meta_write_def)
  qed
qed



section \<open>The length limit\<close>

lemma fresh_file_too_small:
  assumes "version w = 1" and "data_end w = None" and "len_max w = cfg_size cfg" and "cfg_size cfg \<le> length d + 49"
  shows "has_space w (length d) = Ok False"
  using assms by (simp add: has_space_def end_or_header_def offset_logs_def)

lemma used_file_too_small:
  assumes logs: "file_logs crc w bs l" and ne: "l \<noteq> []" and "len_max w = cfg_size cfg" and "cfg_size cfg \<le> length d + 49"
  shows "has_space w (length d) = Ok False"
proof -
  obtain o0 where "data_end w = Some (end_off o0 l - 1)" "32 \<le> o0" "version w = 1"
    using logs ne by (auto simp: file_logs_def)
  moreover have "o0 < end_off o0 l" using ne by (rule end_off_pos)
  ultimately show ?thesis using assms(3,4) by (simp add: has_space_def end_or_header_def)
qed

lemma append_log_no_space:
  assumes "has_space w (length d) = Ok False"
  shows "append_log crc i d (s, w) = (Panic ''assertion failed'', (s, w))"
  using assms by (cases "mmap_mut w = None"; cases "length d \<le> u32_max")
    (simp_all add: append_log_def act_simps rassert_def)

text \<open>C34. The length limit of the writer admits entries that no file can hold. An entry whose length is
  within the limit \<open>wal_size - 32 - 2\<close>, but which is longer than what a fresh file has room for
  (\<open>wal_size - 50\<close>), is not refused with the error for oversized entries: the writer rolls over and then
  panics, whatever the configured treatment of oversized entries.\<close>

theorem entry_within_limit_panics:
  assumes "cfg_ok cfg" and "writer_inv cfg st lss" and "no_faults (w_fs st)" and "last lss \<noteq> []"
    and "len_max (last (files (w_set st))) = cfg_size cfg" and "room (w_set st) 1"
    and "length d \<le> data_len_limit cfg" and "cfg_size cfg \<le> length d + 49"
  shows "\<exists>p st'. handle_append cfg (data_len_limit cfg) [(k, d)] st = (Panic p, st')"
proof -
  have li: "loop_inv cfg st lss" using assms(2) by (rule writer_loop_inv)
  then have ok: "set_ok (cfg_crc cfg) (w_fs st) (w_set st) lss" by (simp add: loop_inv_def set_inv_def)
  obtain vs w pre l where vs: "files (w_set st) = vs @ [w]" "lss = pre @ [l]"
      "file_in (cfg_crc cfg) (w_fs st) (base_path (w_set st)) w l" "active (w_set st) = Some (length vs)"
    using ok by (rule set_ok_snocE)
  then obtain bs where bs: "file_logs (cfg_crc cfg) w bs l" by (auto simp: file_in_def)
  have ne: "l \<noteq> []" using assms(4) vs(2) by simp
  have sp: "has_space w (length d) = Ok False"
    using used_file_too_small [OF bs ne, of cfg d] assms(5,8) vs(1) by simp
  have n: "size_ok (cfg_size cfg)" using assms(1) by (simp add: cfg_ok_def)
  have til: "id_until w < u64_max"
    using assms(2) file_logs_last [OF bs ne] last_in_set [OF ne] vs(2) by (force simp: writer_inv_def)
  show ?thesis
  proof (cases rule: roll_publish [OF li [unfolded vs(2)] n ne assms(6) vs(1) til])
    case (1 st')
    then show ?thesis using assms(3) by simp
  next
    case r: (2 st' w0 nw)
    have act: "active (w_set st') = Some (length (vs @ [w0]))" "files (w_set st') = (vs @ [w0]) @ [nw]"
      using r(2,4) by (simp_all add: loop_inv_def set_inv_def set_ok_def)
    have "has_space nw (length d) = Ok False"
      using r(7-9) assms(8) by (intro fresh_file_too_small [of _ cfg]) simp_all
    then have "\<exists>p st''. on_set (on_active (append_log (cfg_crc cfg) k d)) st' = (Panic p, st'')"
      by (simp add: on_set_def on_active_last [OF act] append_log_no_space)
    then obtain p st'' where "on_set (on_active (append_log (cfg_crc cfg) k d)) st' = (Panic p, st'')" by blast
    then show ?thesis
      using assms(7) r(1) by (simp add: handle_append_def act_simps active_space_eq [OF vs(4,1)] sp)
  qed
qed

theorem entry_within_limit_panics_witness:
  "\<exists>st p st'. writer_inv (ex_cfg Immediate) st ex_logs \<and>
     handle_append (ex_cfg Immediate) (data_len_limit (ex_cfg Immediate)) [(5, replicate 8150 0)] st = (Panic p, st')"
proof -
  obtain st a b c where st: "writer_inv (ex_cfg Immediate) st ex_logs" "no_faults (w_fs st)"
      "files (w_set st) = [a, b, c]" "wal_no c = 3" "len_max c = 8192"
    by (rule ex_three)
  have h: "last ex_logs \<noteq> []" "len_max (last (files (w_set st))) = cfg_size (ex_cfg Immediate)" "room (w_set st) 1"
      "length (replicate 8150 0) \<le> data_len_limit (ex_cfg Immediate)"
      "cfg_size (ex_cfg Immediate) \<le> length (replicate 8150 0) + 49"
    using st by (simp_all add: ex_logs_def room_def ex_cfg_def data_len_limit_def)
  from entry_within_limit_panics [OF cfg_ok_ex st(1,2) h, of 5] st(1) show ?thesis by blast
qed

end
