(* ===== verification/Wal_Reader.thy ===== *)
theory Wal_Reader
  imports Wal_Set Wal_Meta
begin

text \<open>
  The readers of the write-ahead log, \<^verbatim>\<open>hiqlite-wal/src/reader.rs\<close>. A reader has a set of files of its
  own, without writable maps, that it brings up to date from the shared copy before each request, and
  the memo of the position it last read. This theory has the definitions; \<^verbatim>\<open>Wal_Reader_Props\<close> has what
  they satisfy.
\<close>

record reader_st =
  r_set :: wal_set
  r_memo :: "log_read_memo option"

record log_state =
  ls_last_purged :: "bytes option"
  ls_last_log :: "bytes option"

definition refresh :: "wal_set \<Rightarrow> wal_set \<Rightarrow> (wal_error, wal_set) res" where
  "refresh locked ws = clone_files_from_no_mmap (ws\<lparr>active := active locked\<rparr>) (files locked)"

definition reader_map :: "fs \<Rightarrow> wal_file \<Rightarrow> (wal_error, wal_file) res" where
  "reader_map s w = (case map_file (s, w) of
     (Ok _, (_, w')) \<Rightarrow> Ok w'
   | (Err e, _) \<Rightarrow> Panic ''unwrap on Err''
   | (Panic p, _) \<Rightarrow> Panic p)"

text \<open>The loop over the files for the range \<open>from..=til\<close>; its result are the messages sent to the
  requester before the final \<^verbatim>\<open>None\<close>, the memo and the files.\<close>

fun read_files_loop :: "(bytes \<Rightarrow> bytes) \<Rightarrow> fs \<Rightarrow> nat \<Rightarrow> nat \<Rightarrow> log_read_memo option \<Rightarrow> wal_file list \<Rightarrow>
    (wal_error, (wal_error, bytes) res list \<times> log_read_memo option \<times> wal_file list) res" where
  "read_files_loop crc s from til memo [] = Ok ([], memo, [])"
| "read_files_loop crc s from til memo (w # ws) =
     (if id_until w < from then
        rbind (read_files_loop crc s from til memo ws) (\<lambda>(msgs, memo', ws').
        Ok (msgs, memo', w # ws'))
      else
        rbind (reader_map s w) (\<lambda>w1.
        if id_until w1 < til then
          (case read_logs crc s w1 from (id_until w1) memo of
             Panic p \<Rightarrow> Panic p
           | Err e \<Rightarrow> Ok ([Err e], memo, w1 # ws)
           | Ok (off, memo1, buf) \<Rightarrow>
               rbind (rassert (list_all (\<lambda>(i, d). i \<ge> from \<and> i \<le> til) buf)) (\<lambda>_.
               rbind (add_u64 (id_until w1) 1) (\<lambda>from_next.
               rbind (read_files_loop crc s from_next til memo1 ws) (\<lambda>(msgs, memo', ws').
               Ok (map (\<lambda>(i, d). Ok d) buf @ msgs, memo', mmap_drop w1 # ws')))))
        else
          (case read_logs crc s w1 from til memo of
             Panic p \<Rightarrow> Panic p
           | Err e \<Rightarrow> Ok ([Err e], memo, w1 # ws)
           | Ok (off, memo1, buf) \<Rightarrow> Ok (map (\<lambda>(i, d). Ok d) buf, memo1, w1 # ws))))"

definition reader_logs :: "(bytes \<Rightarrow> bytes) \<Rightarrow> fs \<Rightarrow> wal_set \<Rightarrow> nat \<Rightarrow> nat \<Rightarrow> reader_st \<Rightarrow>
    (wal_error, (wal_error, bytes) res list \<times> reader_st) res" where
  "reader_logs crc s locked from til st =
     rbind (refresh locked (r_set st)) (\<lambda>ws.
     rbind (read_files_loop crc s from til (r_memo st) (files ws)) (\<lambda>(msgs, memo, fs).
     Ok (msgs, \<lparr>r_set = ws\<lparr>files := fs\<rparr>, r_memo = memo\<rparr>)))"

definition latest_log_id :: "wal_file list \<Rightarrow> (wal_error, nat option) res" where
  "latest_log_id fs =
     (if fs = [] then Panic ''attempt to subtract with overflow''
      else
        (let f = fs ! (length fs - 1) in
         if data_start f \<noteq> None then Ok (Some (id_until f))
         else if length fs > 1 then Ok (Some (id_until (fs ! (length fs - 2))))
         else Ok None))"

definition unwrap_res :: "('e, 'a) res \<Rightarrow> ('e, 'a) res" where
  "unwrap_res r = (case r of Err e \<Rightarrow> Panic ''unwrap on Err'' | _ \<Rightarrow> r)"

definition first_data :: "logs \<Rightarrow> (wal_error, bytes) res" where
  "first_data buf = (case buf of [] \<Rightarrow> Panic ''swap_remove index out of bounds'' | (_, d) # _ \<Rightarrow> Ok d)"

definition reader_log_state :: "(bytes \<Rightarrow> bytes) \<Rightarrow> fs \<Rightarrow> metadata \<Rightarrow> wal_set \<Rightarrow> reader_st \<Rightarrow>
    (wal_error, log_state \<times> reader_st) res" where
  "reader_log_state crc s meta locked st =
     rbind (refresh locked (r_set st)) (\<lambda>ws.
     rbind (latest_log_id (files ws)) (\<lambda>latest.
     case latest of
       None \<Rightarrow>
         Ok (\<lparr>ls_last_purged = last_purged_log_id meta, ls_last_log = None\<rparr>, st\<lparr>r_set := ws\<rparr>)
     | Some i \<Rightarrow>
         rbind (active_idx ws) (\<lambda>a.
         if data_start (files ws ! a) \<noteq> None then
           rbind (reader_map s (files ws ! a)) (\<lambda>w.
           rbind (unwrap_res (read_logs crc s w i i (r_memo st))) (\<lambda>(off, memo, buf).
           rbind (first_data buf) (\<lambda>d.
           Ok (\<lparr>ls_last_purged = last_purged_log_id meta, ls_last_log = Some d\<rparr>,
               \<lparr>r_set = ws\<lparr>files := (files ws)[a := w]\<rparr>, r_memo = memo\<rparr>))))
         else if length (files ws) > 1 then
           (let b = length (files ws) - 2 in
            rbind (reader_map s (files ws ! b)) (\<lambda>w.
            rbind (unwrap_res (read_logs crc s w i i (r_memo st))) (\<lambda>(off, memo, buf).
            rbind (first_data buf) (\<lambda>d.
            Ok (\<lparr>ls_last_purged = last_purged_log_id meta, ls_last_log = Some d\<rparr>,
                \<lparr>r_set = ws\<lparr>files := (files ws)[b := mmap_drop w]\<rparr>, r_memo = memo\<rparr>)))))
         else Panic ''swap_remove index out of bounds'')))"

definition reader_vote :: "metadata \<Rightarrow> (wal_error, bytes option) res" where
  "reader_vote meta = Ok (vote meta)"

text \<open>A new reader starts from a copy of the shared set.\<close>

definition reader_start :: "wal_set \<Rightarrow> reader_st" where
  "reader_start locked = \<lparr>r_set = clone_no_map locked, r_memo = None\<rparr>"

end
