(* ===== verification/Wal_Reader_Props.thy ===== *)
theory Wal_Reader_Props
  imports Wal_Writer_Props Wal_Reader
begin

text \<open>
  What a reader returns. \<open>reader_file crc s w l\<close> says that the reader's copy \<open>w\<close> of a file describes the
  records \<open>l\<close> and that its map, if it has one, is of the file of that name; \<open>memo_fits\<close> that the memo of the
  last read, if it speaks of one of the files, is right about it. Then a range that the log has is
  answered with exactly the data of that range, over however many files, and the state of the log is the
  last entry of the log.
\<close>

section \<open>A reader's files\<close>

definition reader_file :: "(bytes \<Rightarrow> bytes) \<Rightarrow> fs \<Rightarrow> wal_file \<Rightarrow> logs \<Rightarrow> bool" where
  "reader_file crc s w l \<longleftrightarrow> mmap_mut w = None \<and> file_fd w = None \<and>
     (\<exists>i. fs_lookup s (path w) = Some i \<and> (mmap w = None \<or> mmap w = Some i) \<and> file_logs crc w (ino_bytes s i) l)"

definition memo_fits :: "log_read_memo option \<Rightarrow> wal_file list \<Rightarrow> logs list \<Rightarrow> bool" where
  "memo_fits memo ws lss \<longleftrightarrow> (\<forall>m. memo = Some m \<longrightarrow> list_all2 (\<lambda>w l. memo_ok w l m) ws lss)"

lemma memo_fits_Cons: "memo_fits memo (w # ws) (l # lss) \<longleftrightarrow> (\<forall>m. memo = Some m \<longrightarrow> memo_ok w l m) \<and> memo_fits memo ws lss"
  by (auto simp: memo_fits_def)

lemma memo_fits_foreign:
  assumes "last_wal_no m \<notin> wal_no ` set ws" and "length ws = length lss"
  shows "memo_fits (Some m) ws lss"
  using assms by (auto simp: memo_fits_def list_all2_conv_all_nth memo_ok_def)

lemma reader_file_ids:
  assumes "reader_file crc s w l" and "e \<in> set l"
  shows "id_from w \<le> fst e" and "fst e \<le> id_until w"
proof -
  obtain bs where bs: "file_logs crc w bs l" using assms(1) by (auto simp: reader_file_def)
  then have "map fst l = [id_from w..<Suc (id_until w)]"
    using assms(2) by (auto simp: file_logs_def simp del: upt_Suc split: if_splits)
  then have "fst e \<in> set [id_from w..<Suc (id_until w)]" using assms(2) by (metis image_eqI list.set_map)
  then show "id_from w \<le> fst e" and "fst e \<le> id_until w" by auto
qed

lemma reader_file_data_end: "reader_file crc s w l \<Longrightarrow> data_end w \<noteq> None \<Longrightarrow> l \<noteq> [] \<and> id_from w \<le> id_until w"
proof -
  assume r: "reader_file crc s w l" "data_end w \<noteq> None"
  then obtain bs where bs: "file_logs crc w bs l" by (auto simp: reader_file_def)
  then have "l \<noteq> []" using r(2) by (auto simp: file_logs_def)
  then show ?thesis using file_logs_ids(2) [OF bs] by simp
qed

lemma later_ids:
  assumes "list_all2 (reader_file crc s) ws lss" and "successively next_file (w # ws)"
  shows "\<forall>e \<in> set (concat lss). id_until w < fst e"
  using assms
proof (induction ws lss arbitrary: w rule: list_all2_induct)
  case Nil
  then show ?case by simp
next
  case (Cons v ws l lss)
  have nf: "id_from v = Suc (id_until w)" using Cons.prems by (simp add: next_file_def)
  have "id_until w < fst e" if "e \<in> set l" for e
    using reader_file_ids(1) [OF Cons.hyps(1) that] nf by simp
  moreover have "\<forall>e \<in> set (concat lss). id_until w < fst e"
  proof (cases ws)
    case Nil
    then show ?thesis using Cons.hyps(2) by simp
  next
    case (Cons u us)
    then have "data_end v \<noteq> None" using Cons.prems by (simp add: next_file_def)
    then have "id_until w < id_until v" using reader_file_data_end [OF Cons.hyps(1)] nf by simp
    moreover have "\<forall>e \<in> set (concat lss). id_until v < fst e"
      using Cons.prems by (intro Cons.IH) (cases ws; simp)
    ultimately show ?thesis by fastforce
  qed
  ultimately show ?case by auto
qed

lemma file_logs_mmap [simp]: "file_logs crc (w\<lparr>mmap := x\<rparr>) bs l = file_logs crc w bs l"
  by (simp add: file_logs_def)

section \<open>Reading a range\<close>

lemma reader_map_spec:
  assumes "reader_file crc s w l" and "no_faults s"
  obtains i where "reader_map s w = Ok (w\<lparr>mmap := Some i\<rparr>)" "view s (w\<lparr>mmap := Some i\<rparr>) = Some (ino_bytes s i)"
    "file_logs crc w (ino_bytes s i) l" "reader_file crc s (w\<lparr>mmap := Some i\<rparr>) l"
proof -
  obtain i where i: "fs_lookup s (path w) = Some i" "mmap w = None \<or> mmap w = Some i" "file_logs crc w (ino_bytes s i) l"
      "mmap_mut w = None" "file_fd w = None"
    using assms(1) by (auto simp: reader_file_def)
  have "w\<lparr>mmap := Some i\<rparr> = w" if "mmap w = Some i" using that by (cases w) simp
  then have "reader_map s w = Ok (w\<lparr>mmap := Some i\<rparr>)"
    using i(1,2) assms(2) by (auto simp: reader_map_def map_file_def fs_open_def no_faults_def)
  then show thesis
    using i by (intro that [of i]) (simp_all add: view_def reader_file_def)
qed


lemma map_data_append: "logs_between a b (xs @ ys) = logs_between a b xs @ logs_between a b ys"
  by (simp add: logs_between_def)

lemma logs_between_none: "\<forall>e \<in> set xs. fst e < a \<or> b < fst e \<Longrightarrow> logs_between a b xs = []"
  by (auto simp: logs_between_def filter_empty_conv)

lemma logs_between_from:
  assumes "\<forall>e \<in> set xs. c < fst e" and "a \<le> Suc c"
  shows "logs_between a b xs = logs_between (Suc c) b xs"
  using assms by (auto simp: logs_between_def intro!: filter_cong)

lemma logs_between_til:
  assumes "\<forall>e \<in> set xs. fst e \<le> c" and "c \<le> b"
  shows "logs_between a b xs = logs_between a c xs"
  using assms by (auto simp: logs_between_def intro!: filter_cong)

definition range_result :: "(bytes \<Rightarrow> bytes) \<Rightarrow> fs \<Rightarrow> nat \<Rightarrow> nat \<Rightarrow> log_read_memo option \<Rightarrow> wal_file list \<Rightarrow> logs list \<Rightarrow> bool" where
  "range_result crc s from til memo ws lss \<longleftrightarrow>
     (\<exists>memo' ws'. read_files_loop crc s from til memo ws
          = Ok (map (\<lambda>(i, d). Ok d) (logs_between from til (concat lss)), memo', ws') \<and>
        list_all2 (reader_file crc s) ws' lss \<and> memo_fits memo' ws' lss \<and>
        map clone_no_mmap ws' = map clone_no_mmap ws \<and>
        (memo' = memo \<or> (\<exists>m. memo' = Some m \<and> last_wal_no m \<in> wal_no ` set ws)))"

lemma memo_ok_map [simp]: "memo_ok (w\<lparr>mmap := x\<rparr>) l m = memo_ok w l m"
  by (simp add: memo_ok_def)

lemma reader_file_drop [simp]: "reader_file crc s w l \<Longrightarrow> reader_file crc s (mmap_drop w) l"
  by (auto simp: reader_file_def mmap_drop_def)

text \<open>The three ways a file is treated: it ends before the range, the range goes on after it, or it has the end
  of the range.\<close>

lemma range_before:
  assumes w: "reader_file crc s w l" and before: "id_until w < from"
    and rest: "range_result crc s from til memo ws lss"
    and memo: "memo_fits memo (w # ws) (l # lss)" and no: "wal_no w \<notin> wal_no ` set ws"
  shows "range_result crc s from til memo (w # ws) (l # lss)"
proof -
  obtain memo' ws' where r: "read_files_loop crc s from til memo ws
        = Ok (map (\<lambda>(i, d). Ok d) (logs_between from til (concat lss)), memo', ws')"
      "list_all2 (reader_file crc s) ws' lss" "memo_fits memo' ws' lss" "map clone_no_mmap ws' = map clone_no_mmap ws"
      "memo' = memo \<or> (\<exists>m. memo' = Some m \<and> last_wal_no m \<in> wal_no ` set ws)"
    using rest by (auto simp: range_result_def)
  have none: "logs_between from til l = []"
    using reader_file_ids(2) [OF w] before by (intro logs_between_none) fastforce
  have "\<forall>m. memo' = Some m \<longrightarrow> memo_ok w l m"
  proof (intro allI impI)
    fix m assume m: "memo' = Some m"
    have "memo = Some m" if "last_wal_no m = wal_no w"
      using r(5) m no [folded that] by auto
    then show "memo_ok w l m" using memo by (auto simp: memo_fits_Cons memo_ok_def)
  qed
  then show ?thesis
    using r w before none
    unfolding range_result_def by (intro exI [of _ memo'] exI [of _ "w # ws'"]) (auto simp: map_data_append memo_fits_Cons)
qed

lemma range_end:
  assumes crc: "crc_ok crc" and nf: "no_faults s" and w: "reader_file crc s w l" and ne: "l \<noteq> []"
    and rng: "id_from w \<le> from" "from \<le> til" "til \<le> id_until w"
    and rest: "list_all2 (reader_file crc s) ws lss" "\<forall>e \<in> set (concat lss). id_until w < fst e"
    and memo: "memo_fits memo (w # ws) (l # lss)" and no: "wal_no w \<notin> wal_no ` set ws"
  shows "range_result crc s from til memo (w # ws) (l # lss)"
proof -
  obtain i where i: "reader_map s w = Ok (w\<lparr>mmap := Some i\<rparr>)" "view s (w\<lparr>mmap := Some i\<rparr>) = Some (ino_bytes s i)"
    "file_logs crc w (ino_bytes s i) l" "reader_file crc s (w\<lparr>mmap := Some i\<rparr>) l"
    by (rule reader_map_spec [OF w nf])
  let ?w = "w\<lparr>mmap := Some i\<rparr>"
  have fl: "file_logs crc ?w (ino_bytes s i) l" using i(3) by simp
  obtain off m where m: "read_logs crc s ?w from til memo = Ok (off, Some m, logs_between from til l)"
      "memo_ok ?w l m" "last_wal_no m = wal_no w"
    using read_logs_spec [OF crc i(2) fl ne, of "from" til memo] rng memo by (auto simp: memo_fits_Cons)
  have "logs_between from til (concat lss) = []" using rest(2) rng(3) by (intro logs_between_none) fastforce
  moreover have "memo_fits (Some m) ws lss"
    using m(3) no list_all2_lengthD [OF rest(1)] by (intro memo_fits_foreign) auto
  ultimately show ?thesis
    using i(1,4) m rng rest(1)
    unfolding range_result_def
    by (intro exI [of _ "Some m"] exI [of _ "?w # ws"])
       (auto simp: map_data_append memo_fits_Cons clone_no_mmap_def)
qed


lemma range_through:
  assumes crc: "crc_ok crc" and nf: "no_faults s" and w: "reader_file crc s w l" and ne: "l \<noteq> []"
    and rng: "id_from w \<le> from" "from \<le> id_until w" "id_until w < til" "til \<le> u64_max"
    and later: "\<forall>e \<in> set (concat lss). id_until w < fst e"
    and rest: "\<And>m. last_wal_no m = wal_no w \<Longrightarrow> range_result crc s (Suc (id_until w)) til (Some m) ws lss"
    and memo: "memo_fits memo (w # ws) (l # lss)" and no: "wal_no w \<notin> wal_no ` set ws"
  shows "range_result crc s from til memo (w # ws) (l # lss)"
proof -
  obtain i where i: "reader_map s w = Ok (w\<lparr>mmap := Some i\<rparr>)" "view s (w\<lparr>mmap := Some i\<rparr>) = Some (ino_bytes s i)"
    "file_logs crc w (ino_bytes s i) l" "reader_file crc s (w\<lparr>mmap := Some i\<rparr>) l"
    by (rule reader_map_spec [OF w nf])
  let ?w = "w\<lparr>mmap := Some i\<rparr>" and ?u = "id_until w"
  have fl: "file_logs crc ?w (ino_bytes s i) l" using i(3) by simp
  obtain off m where m: "read_logs crc s ?w from ?u memo = Ok (off, Some m, logs_between from ?u l)"
      "memo_ok ?w l m" "last_wal_no m = wal_no w"
    using read_logs_spec [OF crc i(2) fl ne, of "from" ?u memo] rng memo by (auto simp: memo_fits_Cons)
  obtain memo' ws' where r: "read_files_loop crc s (Suc ?u) til (Some m) ws
        = Ok (map (\<lambda>(i, d). Ok d) (logs_between (Suc ?u) til (concat lss)), memo', ws')"
      "list_all2 (reader_file crc s) ws' lss" "memo_fits memo' ws' lss" "map clone_no_mmap ws' = map clone_no_mmap ws"
      "memo' = Some m \<or> (\<exists>m. memo' = Some m \<and> last_wal_no m \<in> wal_no ` set ws)"
    using rest [OF m(3)] by (auto simp: range_result_def)
  have l1: "logs_between from ?u l = logs_between from til l"
    using reader_file_ids(2) [OF w] rng(3) by (intro logs_between_til [symmetric]) auto
  have l2: "logs_between (Suc ?u) til (concat lss) = logs_between from til (concat lss)"
    using later rng(2) by (intro logs_between_from [symmetric]) simp_all
  have all: "list_all (\<lambda>(i, d). from \<le> i \<and> i \<le> til) (logs_between from til l)"
    by (auto simp: logs_between_def list_all_iff)
  have "\<forall>m'. memo' = Some m' \<longrightarrow> memo_ok w l m'"
  proof (intro allI impI)
    fix m' assume m': "memo' = Some m'"
    have "m' = m" if "last_wal_no m' = wal_no w"
      using r(5) m' no [folded that] by auto
    then show "memo_ok w l m'" using m(2) by (auto simp: memo_ok_def)
  qed
  moreover have "reader_file crc s (w\<lparr>mmap := None\<rparr>) l" using reader_file_drop [OF w] by (simp add: mmap_drop_def)
  ultimately show ?thesis
    using i(1,4) m(1) rng r(1-4) r(5) m(3) all
    unfolding range_result_def
    by (intro exI [of _ memo'] exI [of _ "mmap_drop ?w # ws'"])
       (auto simp: l1 l2 map_data_append memo_fits_Cons clone_no_mmap_def mmap_drop_def add_u64_eq)
qed

lemma read_files_spec:
  assumes crc: "crc_ok crc" and nf: "no_faults s" and til: "til \<le> u64_max"
    and ws: "list_all2 (reader_file crc s) ws lss" "successively next_file ws" "distinct (map wal_no ws)"
    and memo: "memo_fits memo ws lss" and rng: "from \<le> til" "ws \<noteq> [] \<Longrightarrow> id_from (hd ws) \<le> from"
    and til_in: "til \<in> fst ` set (concat lss)"
  shows "range_result crc s from til memo ws lss"
  using ws memo rng til_in
proof (induction ws lss arbitrary: memo "from" rule: list_all2_induct)
  case Nil
  then show ?case by simp
next
  case (Cons w ws l lss)
  note later = later_ids [OF Cons.hyps(2) Cons.prems(1)]
  have no: "wal_no w \<notin> wal_no ` set ws" and suc: "successively next_file ws" "distinct (map wal_no ws)"
    using Cons.prems(1,2) by (auto simp: successively_Cons)
  have hd: "id_from (hd ws) = Suc (id_until w)" "data_end w \<noteq> None" if "ws \<noteq> []"
    using Cons.prems(1) that by (auto simp: successively_Cons next_file_def)
  have ne: "l \<noteq> []" if "from \<le> id_until w"
  proof
    assume "l = []"
    then have "data_end w = None" using Cons.hyps(1) by (auto simp: reader_file_def file_logs_def)
    then have "ws = []" using hd(2) by blast
    then show False using Cons.hyps(2) Cons.prems(6) \<open>l = []\<close> by simp
  qed
  have in_rest: "til \<in> fst ` set (concat lss)" if "id_until w < til"
  proof -
    obtain e where e: "e \<in> set (concat (l # lss))" "til = fst e" using Cons.prems(6) by blast
    then have "e \<notin> set l" using reader_file_ids(2) [OF Cons.hyps(1), of e] that by auto
    then show ?thesis using e by simp
  qed
  consider "id_until w < from" | "from \<le> id_until w" "id_until w < til" | "til \<le> id_until w" by linarith
  then show ?case
  proof cases
    case 1
    have "range_result crc s from til memo ws lss"
    proof (rule Cons.IH [OF suc _ Cons.prems(4)])
      show "memo_fits memo ws lss" using Cons.prems(3) by (simp add: memo_fits_Cons)
      show "id_from (hd ws) \<le> from" if "ws \<noteq> []" using hd(1) [OF that] 1 by simp
      show "til \<in> fst ` set (concat lss)" using 1 Cons.prems(4) in_rest by simp
    qed
    then show ?thesis by (rule range_before [OF Cons.hyps(1) 1 _ Cons.prems(3) no])
  next
    case 2
    have "range_result crc s (Suc (id_until w)) til (Some m) ws lss" if "last_wal_no m = wal_no w" for m
    proof (rule Cons.IH [OF suc])
      show "memo_fits (Some m) ws lss"
        using no list_all2_lengthD [OF Cons.hyps(2)] by (intro memo_fits_foreign) (simp_all add: that)
      show "id_from (hd ws) \<le> Suc (id_until w)" if "ws \<noteq> []" using hd(1) [OF that] by simp
    qed (use 2 in_rest in simp_all)
    then show ?thesis
      using range_through [OF crc nf Cons.hyps(1) ne [OF 2(1)] _ 2 til later _ Cons.prems(3) no] Cons.prems(5) by simp
  next
    case 3
    then show ?thesis
      using range_end [OF crc nf Cons.hyps(1) ne _ Cons.prems(4) 3 Cons.hyps(2) later Cons.prems(3) no]
        Cons.prems(4,5) by simp
  qed
qed


section \<open>Bringing the reader up to date\<close>

text \<open>A reader is in step with the shared copy when the files it still shares with it are the first ones of the
  copy, and its maps are of the files of those names.\<close>

definition r_shadow :: "fs \<Rightarrow> wal_file \<Rightarrow> wal_file \<Rightarrow> bool" where
  "r_shadow s a b \<longleftrightarrow> version a = version b \<and> wal_no a = wal_no b \<and> path a = path b \<and> len_max a = len_max b \<and>
     mmap_mut a = None \<and> file_fd a = None \<and> (mmap a = None \<or> mmap a = fs_lookup s (path b))"

definition in_step :: "fs \<Rightarrow> wal_set \<Rightarrow> wal_set \<Rightarrow> bool" where
  "in_step s locked ws \<longleftrightarrow> (\<exists>bs cs. files locked = bs @ cs \<and>
     list_all2 (r_shadow s) (filter (\<lambda>f. \<exists>upd \<in> set (files locked). wal_no upd = wal_no f) (files ws)) bs)"

definition refreshed :: "fs \<Rightarrow> wal_file \<Rightarrow> wal_file \<Rightarrow> bool" where
  "refreshed s b f \<longleftrightarrow> mmap_mut f = None \<and> file_fd f = None \<and> (mmap f = None \<or> mmap f = fs_lookup s (path b)) \<and>
     clone_no_mmap f = clone_no_mmap b"

lemma clone_clone [simp]: "clone_no_mmap (clone_no_mmap w) = clone_no_mmap w"
  by (simp add: clone_no_mmap_def)

lemma clone_eqD:
  assumes "clone_no_mmap f = clone_no_mmap b"
  shows "version f = version b" "wal_no f = wal_no b" "path f = path b" "id_from f = id_from b" "id_until f = id_until b"
    "data_start f = data_start b" "data_end f = data_end b" "len_max f = len_max b"
  using assms by (cases f; cases b; simp add: clone_no_mmap_def)+

lemma refreshed_clone: "refreshed s b (clone_no_mmap b)"
  by (simp add: refreshed_def clone_no_mmap_def)

lemma refreshed_update:
  "r_shadow s a b \<Longrightarrow> refreshed s b (a\<lparr>id_from := id_from b, id_until := id_until b, data_start := data_start b,
     data_end := data_end b\<rparr>)"
  by (cases a; cases b) (simp add: r_shadow_def refreshed_def clone_no_mmap_def)

lemma update_clones_r:
  "list_all2 (r_shadow s) as bs \<Longrightarrow> \<exists>fs. update_clones as (bs @ cs) = Ok fs \<and> list_all2 (refreshed s) (bs @ cs) fs"
proof (induction rule: list_all2_induct)
  case Nil
  then show ?case by (simp add: list_all2_map2 list_all2_same refreshed_clone)
next
  case (Cons a as b bs)
  then show ?case using refreshed_update [OF Cons.hyps(1)] by (auto simp: r_shadow_def)
qed

lemma reader_file_refreshed:
  assumes "refreshed s (clone_no_mmap w) f" and "file_in crc s base w l"
  shows "reader_file crc s f l"
proof -
  have c: "clone_no_mmap f = clone_no_mmap w" using assms(1) by (simp add: refreshed_def clone_no_mmap_def)
  have "file_logs crc f bs l = file_logs crc w bs l" for bs by (simp add: file_logs_def clone_eqD [OF c])
  then show ?thesis
    using assms clone_eqD(3) [OF c] by (auto simp: refreshed_def reader_file_def file_in_def clone_no_mmap_def)
qed

lemma next_file_clone:
  assumes "clone_no_mmap f = clone_no_mmap a" and "clone_no_mmap g = clone_no_mmap b"
  shows "next_file f g = next_file a b"
  using clone_eqD [OF assms(1)] clone_eqD [OF assms(2)] by (simp add: next_file_def)

lemma map_clone_fields:
  assumes "map clone_no_mmap fs = map clone_no_mmap ws"
  shows "map wal_no fs = map wal_no ws" "successively next_file fs = successively next_file ws"
    "fs \<noteq> [] \<Longrightarrow> id_from (hd fs) = id_from (hd ws)" "memo_fits m fs lss = memo_fits m ws lss"
proof -
  have all: "list_all2 (\<lambda>f w. clone_no_mmap f = clone_no_mmap w) fs ws"
    using assms by (simp add: list_all2_eq list_all2_map1 list_all2_map2 list.rel_eq [symmetric])
  show "map wal_no fs = map wal_no ws"
    using all by (induction rule: list_all2_induct) (auto dest: clone_eqD(2))
  show "successively next_file fs = successively next_file ws"
    using all
  proof (induction rule: list_all2_induct)
    case (Cons f fs w ws)
    then show ?case by (cases fs; cases ws) (auto dest: next_file_clone)
  qed simp
  show "fs \<noteq> [] \<Longrightarrow> id_from (hd fs) = id_from (hd ws)"
    using all by (cases fs; cases ws) (auto dest: clone_eqD(4))
  have "list_all2 (\<lambda>w l. memo_ok w l m') fs lss = list_all2 (\<lambda>w l. memo_ok w l m') ws lss" for m'
    using all
  proof (induction arbitrary: lss rule: list_all2_induct)
    case (Cons f fs w ws)
    then show ?case by (cases lss) (simp_all add: memo_ok_def clone_eqD [OF Cons.hyps(1)])
  qed simp
  then show "memo_fits m fs lss = memo_fits m ws lss" by (simp add: memo_fits_def)
qed


lemma refresh_spec:
  assumes st: "in_step s (clone_no_map ws) rs" and ok: "set_ok crc s ws lss"
  obtains fs where "refresh (clone_no_map ws) rs = Ok (rs\<lparr>active := active ws, files := fs\<rparr>)"
    "list_all2 (reader_file crc s) fs lss" "map clone_no_mmap fs = map clone_no_mmap (files ws)"
proof -
  let ?l = "map clone_no_mmap (files ws)"
  obtain bs cs where bs: "?l = bs @ cs"
      "list_all2 (r_shadow s) (filter (\<lambda>f. \<exists>upd \<in> set (files ws). wal_no upd = wal_no f) (files rs)) bs"
    using st by (auto simp: in_step_def clone_no_map_def)
  from update_clones_r [OF bs(2), of cs] obtain fs where
    fs: "update_clones (filter (\<lambda>f. \<exists>upd \<in> set (files ws). wal_no upd = wal_no f) (files rs)) ?l = Ok fs"
      "list_all2 (refreshed s) ?l fs"
    using bs(1) by auto
  have "refresh (clone_no_map ws) rs = Ok (rs\<lparr>active := active ws, files := fs\<rparr>)"
    using fs(1) by (simp add: refresh_def clone_files_from_no_mmap_def list_ex_iff clone_no_map_def)
  moreover have "list_all2 (\<lambda>w f. refreshed s (clone_no_mmap w) f) (files ws) fs"
    using fs(2) by (simp add: list_all2_map1)
  then have all: "list_all2 (\<lambda>f w. refreshed s (clone_no_mmap w) f) fs (files ws)"
    by (simp add: list_all2_conv_all_nth)
  moreover have "list_all2 (file_in crc s (base_path ws)) (files ws) lss" using ok by (simp add: set_ok_def)
  with all have "list_all2 (reader_file crc s) fs lss"
    by (rule list_all2_trans [rotated]) (rule reader_file_refreshed)
  moreover have "map clone_no_mmap fs = map clone_no_mmap (files ws)"
    using all by (induction rule: list_all2_induct) (simp_all add: refreshed_def clone_no_mmap_def)
  ultimately show thesis using that by blast
qed

lemma in_step_self:
  assumes "map clone_no_mmap fs = map clone_no_mmap (files ws)" and "list_all2 (reader_file crc s) fs lss"
  shows "in_step s (clone_no_map ws) (rs\<lparr>files := fs\<rparr>)"
proof -
  let ?l = "map clone_no_mmap (files ws)"
  have "\<exists>upd \<in> set ?l. wal_no upd = wal_no f" if "f \<in> set fs" for f
    using that assms(1) by (metis clone_wal_no imageI list.set_map)
  then have all: "filter (\<lambda>f. \<exists>upd \<in> set ?l. wal_no upd = wal_no f) fs = fs" by (simp add: filter_id_conv)
  have "r_shadow s f (clone_no_mmap f)" if "f \<in> set fs" for f
  proof -
    obtain l where "reader_file crc s f l"
      using assms(2) \<open>f \<in> set fs\<close> by (metis in_set_conv_nth list_all2_conv_all_nth)
    then show ?thesis by (auto simp: r_shadow_def reader_file_def clone_no_mmap_def)
  qed
  then have "list_all2 (r_shadow s) fs ?l"
    unfolding assms(1) [symmetric] by (simp add: list_all2_map2 list_all2_same)
  then show ?thesis using all by (auto simp: in_step_def clone_no_map_def)
qed


section \<open>What a reader promises\<close>

lemma reader_range:
  assumes "crc_ok crc" and "set_ok crc s ws lss" and "no_faults s" and "in_step s (clone_no_map ws) (r_set st)"
    and "memo_fits (r_memo st) (files ws) lss" and "id_from (hd (files ws)) \<le> from" and "from \<le> til"
    and "til \<in> fst ` set (concat lss)" and "til \<le> u64_max"
  shows "\<exists>st'. reader_logs crc s (clone_no_map ws) from til st
       = Ok (map (\<lambda>(i, d). Ok d) (logs_between from til (concat lss)), st') \<and>
     in_step s (clone_no_map ws) (r_set st') \<and> memo_fits (r_memo st') (files ws) lss"
proof -
  obtain fs where fs: "refresh (clone_no_map ws) (r_set st) = Ok ((r_set st)\<lparr>active := active ws, files := fs\<rparr>)"
      "list_all2 (reader_file crc s) fs lss" "map clone_no_mmap fs = map clone_no_mmap (files ws)"
    by (rule refresh_spec [OF assms(4,2)])
  note same = map_clone_fields [OF fs(3)]
  have suc: "successively next_file fs" "distinct (map wal_no fs)" "memo_fits (r_memo st) fs lss"
    using same assms(2,5) set_ok_distinct(2) [OF assms(2)] by (simp_all add: set_ok_def)
  have hd: "id_from (hd fs) \<le> from" if "fs \<noteq> []" using same(3) [OF that] assms(6) by simp
  have "range_result crc s from til (r_memo st) fs lss"
    by (rule read_files_spec [OF assms(1,3,9) fs(2) suc assms(7) hd assms(8)])
  then obtain memo' ws' where r: "read_files_loop crc s from til (r_memo st) fs
        = Ok (map (\<lambda>(i, d). Ok d) (logs_between from til (concat lss)), memo', ws')"
      "list_all2 (reader_file crc s) ws' lss" "memo_fits memo' ws' lss" "map clone_no_mmap ws' = map clone_no_mmap fs"
    by (auto simp: range_result_def)
  let ?st = "\<lparr>r_set = (r_set st)\<lparr>active := active ws, files := ws'\<rparr>, r_memo = memo'\<rparr>"
  have c: "map clone_no_mmap ws' = map clone_no_mmap (files ws)" using r(4) fs(3) by simp
  have "in_step s (clone_no_map ws) (r_set ?st)"
    using in_step_self [OF c r(2), of "(r_set st)\<lparr>active := active ws\<rparr>"] by simp
  moreover have "memo_fits memo' (files ws) lss" using r(3) map_clone_fields(4) [OF c] by simp
  ultimately show ?thesis using fs(1) r(1) by (intro exI [of _ ?st]) (simp add: reader_logs_def)
qed

text \<open>C8. A read of a range of the log. A reader in step with the shared copy, whose memo is right or is of
  another file, answers a request for the ids \<open>from\<close> to \<open>til\<close> of the log with exactly the data of those
  entries, in order, whatever files they are in; afterwards it is in step and its memo is right again.\<close>

theorem reader_serves_range:
  assumes "crc_ok crc" and "set_ok crc s ws lss" and "no_faults s" and "in_step s (clone_no_map ws) (r_set st)"
    and "memo_fits (r_memo st) (files ws) lss" and "id_from (hd (files ws)) \<le> from" and "from \<le> til"
    and "til \<in> fst ` set (concat lss)" and "til \<le> u64_max"
  shows "\<exists>st'. reader_logs crc s (clone_no_map ws) from til st
       = Ok (map (\<lambda>(i, d). Ok d) (logs_between from til (concat lss)), st') \<and>
     in_step s (clone_no_map ws) (r_set st') \<and> memo_fits (r_memo st') (files ws) lss"
  using assms by (rule reader_range)

lemma reader_file_clone: "file_in crc s base w l \<Longrightarrow> reader_file crc s (clone_no_mmap w) l"
  by (rule reader_file_refreshed [of s w]) (simp_all add: refreshed_def clone_no_mmap_def)

lemma in_step_start: "set_ok crc s ws lss \<Longrightarrow> in_step s (clone_no_map ws) (r_set (reader_start (clone_no_map ws)))"
proof -
  assume ok: "set_ok crc s ws lss"
  let ?fs = "map clone_no_mmap (files ws)"
  have "list_all2 (reader_file crc s) ?fs lss"
    using ok unfolding set_ok_def list_all2_map1
    by (elim conjE list_all2_mono) (rule reader_file_clone)
  then have "in_step s (clone_no_map ws) (ws\<lparr>files := ?fs\<rparr>)"
    by (intro in_step_self) (simp_all add: clone_no_mmap_def)
  then show ?thesis by (simp add: reader_start_def clone_no_map_def o_def)
qed

theorem reader_serves_range_witness:
  "\<exists>st s' . writer_inv (ex_cfg Immediate) st ex_logs \<and>
     reader_logs crc_sum (w_fs st) (w_locked st) 2 4 (reader_start (w_locked st)) = Ok ([Ok [8, 9], Ok [5], Ok [6]], s')"
proof -
  obtain st a b c where st: "writer_inv (ex_cfg Immediate) st ex_logs" "no_faults (w_fs st)"
      "files (w_set st) = [a, b, c]" "id_from a = 1"
    by (rule ex_three)
  have ok: "set_ok crc_sum (w_fs st) (w_set st) ex_logs" and lock: "w_locked st = clone_no_map (w_set st)"
    using st(1) by (simp_all add: writer_inv_def set_inv_def ex_cfg_def)
  have "id_from (hd (files (w_set st))) \<le> 2" "4 \<in> fst ` set (concat ex_logs)"
      "memo_fits (r_memo (reader_start (w_locked st))) (files (w_set st)) ex_logs"
    using st(3,4) by (simp_all add: ex_logs_def memo_fits_def reader_start_def)
  from reader_serves_range [OF crc_ok_sum ok st(2) in_step_start [OF ok] this(3) [unfolded lock] this(1) _ this(2)]
  show ?thesis using st(1) lock by (auto simp: u64_max_def logs_between_def ex_logs_def)
qed


lemma drop_last: "xs \<noteq> [] \<Longrightarrow> drop (length xs - 1) xs = [last xs]"
  by (cases xs rule: rev_cases) simp_all

lemma reader_last:
  assumes crc: "crc_ok crc" and nf: "no_faults s" and w: "reader_file crc s w l" and ne: "l \<noteq> []"
    and memo: "\<And>m. memo = Some m \<Longrightarrow> memo_ok w l m"
  shows "\<exists>w' off m. reader_map s w = Ok w' \<and>
     read_logs crc s w' (id_until w) (id_until w) memo = Ok (off, m, [last l])"
proof -
  obtain i where i: "reader_map s w = Ok (w\<lparr>mmap := Some i\<rparr>)" "view s (w\<lparr>mmap := Some i\<rparr>) = Some (ino_bytes s i)"
    "file_logs crc w (ino_bytes s i) l"
    by (rule reader_map_spec [OF w nf])
  let ?u = "id_until w"
  note ids = file_logs_ids [OF i(3) ne]
  have "?u - id_from w = length l - 1" "Suc ?u - id_from w = length l" using ids(1,2) by simp_all
  then have "logs_between ?u ?u l = [last l]"
    by (simp add: logs_between_upt [OF ids(3)] drop_last [OF ne, simplified])
  moreover have "file_logs crc (w\<lparr>mmap := Some i\<rparr>) (ino_bytes s i) l" using i(3) by simp
  ultimately show ?thesis
    using read_logs_spec [OF crc i(2) _ ne, of ?u ?u memo] ids(2) memo i(1) by auto
qed

text \<open>C24. The state of the log. A reader in step answers a request for the state of the log with the purge
  frontier of the metadata and the data of the last entry of the log, or with no entry when the log is
  empty; also right after a roll-over, when the active file has no entry yet.\<close>

theorem reader_reports_last_log:
  assumes "crc_ok crc" and "set_ok crc s ws lss" and "no_faults s" and "in_step s (clone_no_map ws) (r_set st)"
    and "memo_fits (r_memo st) (files ws) lss"
  shows "\<exists>st'. reader_log_state crc s meta (clone_no_map ws) st
       = Ok (\<lparr>ls_last_purged = last_purged_log_id meta,
              ls_last_log = (if concat lss = [] then None else Some (snd (last (concat lss))))\<rparr>, st')"
proof -
  obtain fs where fs: "refresh (clone_no_map ws) (r_set st) = Ok ((r_set st)\<lparr>active := active ws, files := fs\<rparr>)"
      "list_all2 (reader_file crc s) fs lss" "map clone_no_mmap fs = map clone_no_mmap (files ws)"
    by (rule refresh_spec [OF assms(4,2)])
  note same = map_clone_fields [OF fs(3)]
  have len: "length fs = length (files ws)" using fs(3) map_eq_imp_length_eq by blast
  have suc: "successively next_file fs" "memo_fits (r_memo st) fs lss" and ne: "fs \<noteq> []"
    and act: "active ws = Some (length fs - 1)"
    using same assms(2,5) len by (auto simp: set_ok_def)
  obtain vs w where vs: "fs = vs @ [w]" using ne by (cases fs rule: rev_cases) auto
  then obtain pre l where lss: "lss = pre @ [l]" "list_all2 (reader_file crc s) vs pre" "reader_file crc s w l"
    using fs(2) by (auto simp: list_all2_append1 list_all2_Cons1)
  have memo: "\<And>m. r_memo st = Some m \<Longrightarrow> list_all2 (\<lambda>w l. memo_ok w l m) (vs @ [w]) (pre @ [l])"
    using suc(2) vs lss(1) by (simp add: memo_fits_def)
  have start: "data_start w = None \<longleftrightarrow> l = []" using lss(3) by (auto simp: reader_file_def file_logs_def split: if_splits)
  consider (data) "l \<noteq> []" | (empty) "l = []" "vs = []" | (rolled) us v where "l = []" "vs = us @ [v]"
    by (cases vs rule: rev_cases) auto
  then show ?thesis
  proof cases
    case data
    have "\<And>m. r_memo st = Some m \<Longrightarrow> memo_ok w l m" using memo by (simp add: list_all2_snoc)
    from reader_last [OF assms(1,3) lss(3) data this] obtain w' off m where
      "reader_map s w = Ok w'" "read_logs crc s w' (id_until w) (id_until w) (r_memo st) = Ok (off, m, [last l])" by blast
    then show ?thesis
      using data start fs(1) act vs lss(1)
      by (auto simp: reader_log_state_def latest_log_id_def active_idx_def first_data_def unwrap_res_def nth_append
          case_prod_beta)
  next
    case empty
    then show ?thesis
      using start fs(1) vs lss(1,2) by (auto simp: reader_log_state_def latest_log_id_def)
  next
    case rolled
    then obtain qs q where qs: "pre = qs @ [q]" "reader_file crc s v q" using lss(2)
      by (auto simp: list_all2_append1 list_all2_Cons1)
    have "data_end v \<noteq> None" using suc(1) vs rolled by (simp add: successively_append_iff next_file_def)
    then have q: "q \<noteq> []" using reader_file_data_end [OF qs(2)] by simp
    have "length us = length qs" using lss(2) rolled(2) qs(1) by (auto dest!: list_all2_lengthD)
    then have "\<And>m. r_memo st = Some m \<Longrightarrow> memo_ok v q m"
      using memo by (simp add: rolled(2) qs(1) list_all2_append)
    from reader_last [OF assms(1,3) qs(2) q this] obtain w' off m where
      "reader_map s v = Ok w'" "read_logs crc s w' (id_until v) (id_until v) (r_memo st) = Ok (off, m, [last q])" by blast
    then show ?thesis
      using start fs(1) act vs lss(1) rolled q qs(1)
      by (auto simp: reader_log_state_def latest_log_id_def active_idx_def first_data_def unwrap_res_def nth_append
          case_prod_beta)
  qed
qed


theorem reader_reports_last_log_witness:
  "\<exists>st s'. writer_inv (ex_cfg Immediate) st ex_logs \<and>
     reader_log_state crc_sum (w_fs st) \<lparr>last_purged_log_id = None, vote = None\<rparr> (w_locked st) (reader_start (w_locked st))
       = Ok (\<lparr>ls_last_purged = None, ls_last_log = Some [6]\<rparr>, s')"
proof -
  obtain st where st: "writer_inv (ex_cfg Immediate) st ex_logs" "no_faults (w_fs st)" by (rule ex_three)
  have ok: "set_ok crc_sum (w_fs st) (w_set st) ex_logs" and lock: "w_locked st = clone_no_map (w_set st)"
    using st(1) by (simp_all add: writer_inv_def set_inv_def ex_cfg_def)
  have "memo_fits (r_memo (reader_start (clone_no_map (w_set st)))) (files (w_set st)) ex_logs"
    by (simp add: memo_fits_def reader_start_def)
  from reader_reports_last_log [OF crc_ok_sum ok st(2) in_step_start [OF ok] this,
      of "\<lparr>last_purged_log_id = None, vote = None\<rparr>"]
  show ?thesis using st(1) lock by (auto simp: ex_logs_def)
qed

end
