(* ===== verification/Wal_Store.thy ===== *)
theory Wal_Store
  imports Wal_Writer Wal_Reader
begin

text \<open>
  The log store as openraft sees it, \<^verbatim>\<open>hiqlite-wal/src/log_store.rs\<close>, \<^verbatim>\<open>log_store_impl.rs\<close> and
  \<^verbatim>\<open>shutdown.rs\<close>: a writer task, a reader task and the operations of the storage trait, each of which sends
  one request and waits for its answer. The encodings of entries, log ids and votes are those of bincode and
  the types those of the application, so they are the fields of a record. A task that has ended is a flag:
  a request to it fails at the channel. This theory has the definitions; \<^verbatim>\<open>Wal_Store_Props\<close> has what they
  satisfy.
\<close>

section \<open>State\<close>

record ('e, 'l, 'v) raft_codec =
  ser_entry :: "'e \<Rightarrow> bytes"
  de_entry :: "bytes \<Rightarrow> 'e option"
  entry_index :: "'e \<Rightarrow> nat"
  ser_lid :: "'l \<Rightarrow> bytes"
  de_lid :: "bytes \<Rightarrow> 'l option"
  lid_idx :: "'l \<Rightarrow> nat"
  ser_vote :: "'v \<Rightarrow> bytes"
  de_vote :: "bytes \<Rightarrow> 'v option"

datatype store_error = StoreIO wal_error | StoreDecode | StoreChannel

record log_store =
  sto_writer :: writer_st
  sto_writer_on :: bool
  sto_reader :: reader_st
  sto_reader_on :: bool

section \<open>Ranges\<close>

definition range_start :: "bound \<Rightarrow> nat" where
  "range_start b = (case b of
     Included i \<Rightarrow> i
   | Excluded i \<Rightarrow> if i + 1 \<le> u64_max then i + 1 else u64_max
   | Unbounded \<Rightarrow> 0)"

definition range_end :: "bound \<Rightarrow> ('x, nat) res" where
  "range_end b = (case b of
     Included i \<Rightarrow> Ok i
   | Excluded i \<Rightarrow> Ok (i - 1)
   | Unbounded \<Rightarrow> Panic ''unreachable'')"

section \<open>Reading\<close>

text \<open>The answers of the reader, up to the first that is an error or cannot be decoded.\<close>

fun collect_entries :: "(bytes \<Rightarrow> 'e option) \<Rightarrow> (wal_error, bytes) res list \<Rightarrow> (store_error, 'e list) res" where
  "collect_entries de [] = Ok []"
| "collect_entries de (m # ms) =
     (case m of
        Err e \<Rightarrow> Err (StoreIO e)
      | Panic p \<Rightarrow> Panic p
      | Ok data \<Rightarrow>
          (case de data of
             None \<Rightarrow> Err StoreDecode
           | Some x \<Rightarrow> rbind (collect_entries de ms) (\<lambda>xs. Ok (x # xs))))"

definition try_get_log_entries :: "wal_cfg \<Rightarrow> ('e, 'l, 'v) raft_codec \<Rightarrow> bound \<Rightarrow> bound \<Rightarrow>
    (log_store, store_error, 'e list) act" where
  "try_get_log_entries cfg rc lo hi = (\<lambda>st.
     let from = range_start lo in
     case range_end hi of
       Err e \<Rightarrow> (Err e, st)
     | Panic p \<Rightarrow> (Panic p, st)
     | Ok til \<Rightarrow>
         if from > til then (Ok [], st)
         else if til - from + 1 > u64_max then (Panic ''attempt to add with overflow'', st)
         else if \<not> sto_reader_on st then (Panic ''LogsReader to always be listening'', st)
         else
           (case reader_logs (cfg_crc cfg) (w_fs (sto_writer st)) (w_locked (sto_writer st)) from til (sto_reader st) of
              Ok (msgs, r) \<Rightarrow> (collect_entries (de_entry rc) msgs, st\<lparr>sto_reader := r\<rparr>)
            | Err e \<Rightarrow> (Panic ''unwrap on RecvError'', st\<lparr>sto_reader_on := False\<rparr>)
            | Panic p \<Rightarrow> (Panic ''unwrap on RecvError'', st\<lparr>sto_reader_on := False\<rparr>)))"

definition decode_opt :: "(bytes \<Rightarrow> 'a option) \<Rightarrow> bytes option \<Rightarrow> (store_error, 'a option) res" where
  "decode_opt de x = (case x of
     None \<Rightarrow> Ok None
   | Some bs \<Rightarrow> (case de bs of None \<Rightarrow> Err StoreDecode | Some y \<Rightarrow> Ok (Some y)))"

text \<open>The result is the purge frontier and the id of the last entry. The id is decoded from the bytes of the
  entry, which starts with it.\<close>

definition get_log_state :: "wal_cfg \<Rightarrow> ('e, 'l, 'v) raft_codec \<Rightarrow>
    (log_store, store_error, 'l option \<times> 'l option) act" where
  "get_log_state cfg rc = (\<lambda>st.
     if \<not> sto_reader_on st then (Err StoreChannel, st)
     else
       (case reader_log_state (cfg_crc cfg) (w_fs (sto_writer st)) (w_meta (sto_writer st)) (w_locked (sto_writer st))
               (sto_reader st) of
          Ok (ls, r) \<Rightarrow>
            (rbind (decode_opt (de_lid rc) (ls_last_purged ls)) (\<lambda>purged.
             rbind (decode_opt (de_lid rc) (ls_last_log ls)) (\<lambda>last_id. Ok (purged, last_id))),
             st\<lparr>sto_reader := r\<rparr>)
        | Err e \<Rightarrow> (Err (StoreIO e), st)
        | Panic p \<Rightarrow> (Panic ''unwrap on RecvError'', st\<lparr>sto_reader_on := False\<rparr>)))"

definition read_vote :: "('e, 'l, 'v) raft_codec \<Rightarrow> (log_store, store_error, 'v option) act" where
  "read_vote rc = (\<lambda>st.
     if \<not> sto_reader_on st then (Err StoreChannel, st)
     else
       (case reader_vote (w_meta (sto_writer st)) of
          Ok None \<Rightarrow> (Ok None, st)
        | Ok (Some bs) \<Rightarrow>
            (case de_vote rc bs of
               Some v \<Rightarrow> (Ok (Some v), st)
             | None \<Rightarrow> (Panic ''unwrap on Err'', st))
        | Err e \<Rightarrow> (Err (StoreIO e), st)
        | Panic p \<Rightarrow> (Panic p, st)))"

text \<open>An additional reader starts from the shared copy.\<close>

definition get_log_reader :: "log_store \<Rightarrow> reader_st" where
  "get_log_reader st = reader_start (w_locked (sto_writer st))"

section \<open>Writing\<close>

text \<open>The acknowledgement is the first one the writer sends for the request. A writer that leaves its loop
  with an error or a panic drops the channels: no acknowledgement arrives and its task has ended.\<close>

fun first_ack :: "w_event list \<Rightarrow> (wal_error, unit) res option" where
  "first_ack [] = None"
| "first_ack (Ack r # es) = Some r"
| "first_ack (Callback r # es) = first_ack es"
| "first_ack (ShutdownAck # es) = first_ack es"

definition write_request :: "wal_cfg \<Rightarrow> w_action \<Rightarrow> log_store \<Rightarrow> (wal_error, unit) res option \<times> log_store" where
  "write_request cfg a st =
     (case handle_action cfg (data_len_limit cfg) a (sto_writer st) of
        (r, w) \<Rightarrow> (first_ack (drop (length (w_out (sto_writer st))) (w_out w)),
                  st\<lparr>sto_writer := w, sto_writer_on := (r = Ok ())\<rparr>))"

definition ack_result :: "(wal_error, unit) res option \<Rightarrow> (store_error, unit) res" where
  "ack_result a = (case a of
     None \<Rightarrow> Panic ''unwrap on RecvError''
   | Some (Ok _) \<Rightarrow> Ok ()
   | Some (Err e) \<Rightarrow> Err (StoreIO e)
   | Some (Panic p) \<Rightarrow> Panic p)"

definition save_vote :: "wal_cfg \<Rightarrow> ('e, 'l, 'v) raft_codec \<Rightarrow> 'v \<Rightarrow> (log_store, store_error, unit) act" where
  "save_vote cfg rc v = (\<lambda>st.
     if \<not> sto_writer_on st then (Panic ''Writer to always be running'', st)
     else (case write_request cfg (VoteAction (ser_vote rc v)) st of (a, st') \<Rightarrow> (ack_result a, st')))"

definition append_store :: "wal_cfg \<Rightarrow> ('e, 'l, 'v) raft_codec \<Rightarrow> 'e list \<Rightarrow> (log_store, store_error, unit) act" where
  "append_store cfg rc entries = (\<lambda>st.
     if \<not> sto_writer_on st then (Err StoreChannel, st)
     else (case write_request cfg (Append (map (\<lambda>e. (entry_index rc e, ser_entry rc e)) entries)) st of
             (a, st') \<Rightarrow> (ack_result a, st')))"

definition truncate :: "wal_cfg \<Rightarrow> ('e, 'l, 'v) raft_codec \<Rightarrow> 'l \<Rightarrow> (log_store, store_error, unit) act" where
  "truncate cfg rc lid = (\<lambda>st.
     if \<not> sto_writer_on st then (Err StoreChannel, st)
     else (case write_request cfg (Remove (lid_idx rc lid) u64_max None) st of (a, st') \<Rightarrow> (ack_result a, st')))"

definition purge :: "wal_cfg \<Rightarrow> ('e, 'l, 'v) raft_codec \<Rightarrow> 'l \<Rightarrow> (log_store, store_error, unit) act" where
  "purge cfg rc lid = (\<lambda>st.
     if \<not> sto_writer_on st then (Err StoreChannel, st)
     else (case write_request cfg (Remove 0 (lid_idx rc lid) (Some (ser_lid rc lid))) st of
             (a, st') \<Rightarrow> (ack_result a, st')))"

section \<open>Starting and stopping\<close>

text \<open>\<open>auto_heal\<close> and \<open>env\<close> are the compiled feature and the environment variable that the integrity check
  consults, \<open>locks\<close> the advisory locks that are held.\<close>

definition on_lock_fs :: "(fs, wal_error, 'a) act \<Rightarrow> (lst, wal_error, 'a) act" where
  "on_lock_fs m = (\<lambda>(s, locks). case m s of (r, s') \<Rightarrow> (r, (s', locks)))"

definition start_store :: "wal_cfg \<Rightarrow> bool \<Rightarrow> string option \<Rightarrow> (bytes \<Rightarrow> (wal_error, metadata) res) \<Rightarrow>
    (bytes \<Rightarrow> (wal_error, log_id_rec) res) \<Rightarrow> (log_id_rec \<Rightarrow> (wal_error, bytes) res) \<Rightarrow> string \<Rightarrow>
    (lst, wal_error, log_store) act" where
  "start_store cfg auto_heal env de_meta de_log ser_log base =
     abind (lock_exists base) (\<lambda>exists.
     athen (if exists then
              abind (is_locked base) (\<lambda>locked.
              if locked then apanic ''LockFile is locked and in use by another process'' else aret ())
            else aret ())
     (abind (lock_create base) (\<lambda>i.
      athen (lock_file i (lock_path base))
     (abind (on_lock_fs (meta_read_or_create (cfg_crc cfg) (cfg_ser cfg) de_meta base)) (\<lambda>meta.
      abind (on_lock_fs (spawn_writer cfg auto_heal env de_log ser_log base exists meta)) (\<lambda>w.
      aret \<lparr>sto_writer = w, sto_writer_on = True, sto_reader = reader_start (w_locked w),
            sto_reader_on = True\<rparr>))))))"

text \<open>Stopping the writer runs the end of its loop and acknowledges; \<^verbatim>\<open>stop\<close> then also stops the reader.\<close>

definition stop_writer :: "wal_cfg \<Rightarrow> (log_store, store_error, unit) act" where
  "stop_writer cfg = (\<lambda>st.
     if \<not> sto_writer_on st then (Err StoreChannel, st)
     else
       (case run_exit cfg True (sto_writer st) of
          (Ok _, w) \<Rightarrow> (Ok (), st\<lparr>sto_writer := w, sto_writer_on := False\<rparr>)
        | (_, w) \<Rightarrow> (Err StoreChannel, st\<lparr>sto_writer := w, sto_writer_on := False\<rparr>)))"

definition stop :: "wal_cfg \<Rightarrow> (log_store, store_error, unit) act" where
  "stop cfg = athen (stop_writer cfg) (amod (\<lambda>st. st\<lparr>sto_reader_on := False\<rparr>))"

text \<open>The handle for a shutdown creates the future that would send the request to the reader, but does not
  await it: nothing is sent.\<close>

definition handle_shutdown :: "wal_cfg \<Rightarrow> (log_store, store_error, unit) act" where
  "handle_shutdown cfg = athen (stop_writer cfg) (aret ())"

end
