(* ===== verification/Wal_Store_Props.thy ===== *)
theory Wal_Store_Props
  imports Wal_Reader_Props Wal_Store
begin

text \<open>
  What the log store built of a writer and its readers satisfies: \<open>store_ok\<close> relates it to the list of the entries of
  openraft, an append extends that list, and a reader that starts from the shared copy reads any part of it back.
\<close>

text \<open>What bincode documents: a value that is encoded is decoded again.\<close>

definition entry_codec_ok :: "('e, 'l, 'v) raft_codec \<Rightarrow> bool" where
  "entry_codec_ok rc \<longleftrightarrow> (\<forall>e. de_entry rc (ser_entry rc e) = Some e)"

abbreviation stored :: "('e, 'l, 'v) raft_codec \<Rightarrow> 'e \<Rightarrow> nat \<times> bytes" where
  "stored rc e \<equiv> (entry_index rc e, ser_entry rc e)"

lemma collect_stored:
  assumes "entry_codec_ok rc"
  shows "collect_entries (de_entry rc) (map (\<lambda>e. Ok (ser_entry rc e)) es) = Ok es"
  using assms by (induction es) (simp_all add: entry_codec_ok_def)

lemma between_stored:
  "map (\<lambda>(i, d). Ok d) (logs_between lo hi (map (stored rc) es)) =
   map (\<lambda>e. Ok (ser_entry rc e)) (filter (\<lambda>e. lo \<le> entry_index rc e \<and> entry_index rc e \<le> hi) es)"
  by (induction es) (simp_all add: logs_between_def)

lemma first_id:
  assumes ok: "set_ok crc s ws lss" and ne: "concat lss \<noteq> []"
  shows "id_from (hd (files ws)) \<le> fst (hd (concat lss))"
proof -
  have len: "list_all2 (file_in crc s (base_path ws)) (files ws) lss" "files ws \<noteq> []" "successively next_file (files ws)"
    using ok by (simp_all add: set_ok_def)
  then obtain w vs l ls where f: "files ws = w # vs" "lss = l # ls" "file_in crc s (base_path ws) w l" by (cases "files ws"; cases lss) auto
  have "l \<noteq> []"
  proof
    assume l: "l = []"
    then have d: "data_start w = None" "data_end w = None" using f(3) by (auto simp: file_in_def file_logs_def)
    then show False using len(1,3) f ne l by (cases vs) (auto simp: next_file_def)
  qed
  moreover from this have "map fst l = [id_from w..<Suc (id_until w)]"
    using f(3) by (auto simp: file_in_def file_logs_def simp del: upt_Suc)
  ultimately have "fst (hd l) = id_from w" by (cases l; cases "id_from w \<le> id_until w") (auto simp: upt_conv_Cons simp del: upt_Suc)
  then show ?thesis using f \<open>l \<noteq> []\<close> by simp
qed

text \<open>The state of a store whose writer holds the given entries and keeps running.\<close>

definition store_ok :: "wal_cfg \<Rightarrow> ('e, 'l, 'v) raft_codec \<Rightarrow> log_store \<Rightarrow> 'e list \<Rightarrow> bool" where
  "store_ok cfg rc st es \<longleftrightarrow> cfg_ok cfg \<and> entry_codec_ok rc \<and> sto_writer_on st \<and> no_faults (w_fs (sto_writer st)) \<and>
     (\<exists>lss. writer_inv cfg (sto_writer st) lss \<and> concat lss = map (stored rc) es)"

definition fits :: "wal_cfg \<Rightarrow> ('e, 'l, 'v) raft_codec \<Rightarrow> log_store \<Rightarrow> 'e list \<Rightarrow> 'e list \<Rightarrow> bool" where
  "fits cfg rc st old new \<longleftrightarrow> (\<forall>e \<in> set new. entry_ok cfg (stored rc e)) \<and>
     (\<exists>k. map (entry_index rc) new = [k..<k + length new] \<and> (old \<noteq> [] \<longrightarrow> k = Suc (entry_index rc (last old)))) \<and>
     room (w_set (sto_writer st)) (Suc (length new))"

lemma append_store_spec:
  assumes ok: "store_ok cfg rc st old" and new: "fits cfg rc st old new"
  shows "\<exists>st'. append_store cfg rc new st = (Ok (), st') \<and> store_ok cfg rc st' (old @ new) \<and> sto_reader st' = sto_reader st \<and>
    sto_reader_on st' = sto_reader_on st"
proof -
  let ?es = "map (stored rc) new"
  obtain lss where i: "writer_inv cfg (sto_writer st) lss" "concat lss = map (stored rc) old" and o: "cfg_ok cfg" "no_faults (w_fs (sto_writer st))"
    using ok by (auto simp: store_ok_def)
  obtain k where k: "map (entry_index rc) new = [k..<k + length new]" "old \<noteq> [] \<longrightarrow> k = Suc (entry_index rc (last old))"
    and e: "\<forall>x \<in> set ?es. entry_ok cfg x" and r: "room (w_set (sto_writer st)) (Suc (length ?es))"
    using new by (auto simp: fits_def)
  have ids: "map fst ?es = [k..<k + length ?es]" using k(1) by (simp add: o_def)
  have nx: "next_log lss k" using k(2) i(2) by (auto simp: next_log_def last_map)
  obtain w' lss' where a: "handle_append cfg (data_len_limit cfg) ?es (sto_writer st) = (Ok (), w')" "writer_inv cfg w' lss'"
      "concat lss' = concat lss @ ?es" "w_out w' = w_out (sto_writer st) @ [Ack (Ok ()), Callback (Ok ())]"
      "faulty (w_fs w') = faulty (w_fs (sto_writer st))"
    using handle_append_spec [OF o(1) i(1) e ids nx r] o(2) by blast
  then have "append_store cfg rc new st = (Ok (), st\<lparr>sto_writer := w', sto_writer_on := True\<rparr>)"
    using ok by (simp add: append_store_def write_request_def handle_action_def ack_result_def store_ok_def)
  moreover have "no_faults (w_fs w')" using o(2) a(5) by (simp add: no_faults_def)
  ultimately show ?thesis
    using ok a(2,3) i(2) by (auto simp: store_ok_def)
qed

text \<open>A reader of a store that is asked for a part of the log.\<close>

lemma fresh_reader_reads:
  assumes ok: "store_ok cfg rc st es" and ne: "es \<noteq> []" and lo: "entry_index rc (hd es) \<le> lo" and le: "lo \<le> hi"
    and hi: "hi \<in> entry_index rc ` set es"
  shows "\<exists>r. try_get_log_entries cfg rc (Included lo) (Included hi) (st\<lparr>sto_reader := get_log_reader st, sto_reader_on := True\<rparr>) =
    (Ok (filter (\<lambda>e. lo \<le> entry_index rc e \<and> entry_index rc e \<le> hi) es), st\<lparr>sto_reader_on := True, sto_reader := r\<rparr>)"
proof -
  let ?w = "sto_writer st"
  obtain lss where i: "writer_inv cfg ?w lss" "concat lss = map (stored rc) es" and o: "cfg_ok cfg" "no_faults (w_fs ?w)" "entry_codec_ok rc"
    using ok by (auto simp: store_ok_def)
  have crc: "crc_ok (cfg_crc cfg)" and set: "set_ok (cfg_crc cfg) (w_fs ?w) (w_set ?w) lss" and lock: "w_locked ?w = clone_no_map (w_set ?w)"
    using o(1) i(1) by (simp_all add: cfg_ok_def writer_inv_def set_inv_def)
  have lo': "id_from (hd (files (w_set ?w))) \<le> lo" using first_id [OF set] i(2) ne lo by (simp add: hd_map)
  have hi': "hi \<in> fst ` set (concat lss)" using hi i(2) by (simp add: image_image)
  have u64: "hi < u64_max" using hi' i(1) by (auto simp: writer_inv_def)
  have memo: "memo_fits (r_memo (reader_start (clone_no_map (w_set ?w)))) (files (w_set ?w)) lss" by (simp add: memo_fits_def reader_start_def)
  obtain r where "reader_logs (cfg_crc cfg) (w_fs ?w) (w_locked ?w) lo hi (get_log_reader st) =
      Ok (map (\<lambda>(i, d). Ok d) (logs_between lo hi (concat lss)), r)"
    using reader_range [OF crc set o(2) in_step_start [OF set] memo lo' le hi'] u64 lock by (auto simp: get_log_reader_def)
  then show ?thesis
    using le u64 by (auto simp: try_get_log_entries_def range_start_def range_end_def i(2) between_stored collect_stored [OF o(3)] Let_def)
qed

section \<open>A concrete store\<close>

text \<open>Entries that are their own encoding and carry their index in their first byte.\<close>

definition byte_codec :: "(bytes, bytes, bytes) raft_codec" where
  "byte_codec = \<lparr>ser_entry = (\<lambda>e. e), de_entry = Some, entry_index = (\<lambda>e. case e of [] \<Rightarrow> 0 | b # _ \<Rightarrow> unat b),
     ser_lid = (\<lambda>e. e), de_lid = Some, lid_idx = (\<lambda>_. 0), ser_vote = (\<lambda>e. e), de_vote = Some\<rparr>"

definition ex_store :: log_store where
  "ex_store = \<lparr>sto_writer = ex_start, sto_writer_on = True, sto_reader = reader_start (w_locked ex_start), sto_reader_on = True\<rparr>"

lemma byte_codec_simps [simp]:
  "ser_entry byte_codec e = e" "de_entry byte_codec e = Some e" "entry_index byte_codec (b # bs) = unat b"
  by (simp_all add: byte_codec_def)

lemma ex_store_ok: "store_ok (ex_cfg Immediate) byte_codec ex_store []" "fits (ex_cfg Immediate) byte_codec ex_store [] [[1, 7], [2, 8, 9]]"
proof -
  show "store_ok (ex_cfg Immediate) byte_codec ex_store []"
    using ex_start_facts(1) [of Immediate] ex_start_facts(2)
    by (auto simp: store_ok_def ex_store_def entry_codec_ok_def intro!: exI [of _ "[[]]"])
  have "entry_ok (ex_cfg Immediate) (stored byte_codec e)" if "e \<in> set [[1, 7], [2, 8, 9]]" for e
    using that by (auto simp: entry_ok_def ex_cfg_def u64_max_def)
  then show "fits (ex_cfg Immediate) byte_codec ex_store [] [[1, 7], [2, 8, 9]]"
    using ex_start_facts(4) by (auto simp: fits_def ex_store_def room_def upt_rec intro!: exI [of _ "1::nat"])
qed

end
