(* ===== verification/Log_Memory.thy ===== *)
theory Log_Memory
  imports Raft_Log
begin

text \<open>
  The log storage in memory, \<^verbatim>\<open>hiqlite/src/store/logs/memory.rs\<close>: a double-ended queue of entries, the
  purge frontier and the vote. No operation returns an error, so the error type is that of one value. The
  definitions are followed by the invariant (consecutive ids), the
  behaviour of every operation, the refinement of the abstract log and what the storage reports about itself.
\<close>

section \<open>State\<close>

record 'p entry =
  e_log_id :: log_id_rec
  payload :: 'p

record ('p, 'v) mem_log =
  m_logs :: "'p entry list"
  last_purged :: "log_id_rec option"
  m_vote :: "'v option"

abbreviation e_index :: "'p entry \<Rightarrow> nat" where
  "e_index e \<equiv> lid_index (e_log_id e)"

definition mem_new :: "('p, 'v) mem_log" where
  "mem_new = \<lparr>m_logs = [], last_purged = None, m_vote = None\<rparr>"

section \<open>Reading\<close>

definition mem_range_start :: "bound \<Rightarrow> (unit, nat) res" where
  "mem_range_start b = (case b of
     Included i \<Rightarrow> Ok i
   | Excluded i \<Rightarrow> add_u64 i 1
   | Unbounded \<Rightarrow> Ok 0)"

text \<open>\<^verbatim>\<open>None\<close> stands for the early return of an empty result.\<close>

definition mem_range_end :: "bound \<Rightarrow> (unit, nat option) res" where
  "mem_range_end b = (case b of
     Included i \<Rightarrow> Ok (Some i)
   | Excluded i \<Rightarrow> if i = 0 then Ok None else Ok (Some (i - 1))
   | Unbounded \<Rightarrow> Panic ''open end log entries get'')"

definition get_log :: "'p entry list \<Rightarrow> nat \<Rightarrow> (unit, 'p entry) res" where
  "get_log logs i = (if i < length logs then Ok (logs ! i) else Panic ''unwrap on None'')"

definition mem_try_get :: "bound \<Rightarrow> bound \<Rightarrow> ('p, 'v) mem_log \<Rightarrow> (unit, 'p entry list) res" where
  "mem_try_get lo hi st =
     rbind (mem_range_start lo) (\<lambda>start.
     rbind (mem_range_end hi) (\<lambda>e.
     case e of
       None \<Rightarrow> Ok []
     | Some til \<Rightarrow>
         if til < start then Ok []
         else if m_logs st = [] then Ok []
         else
           rbind (rassert (til > 0)) (\<lambda>_.
           let first_log_id = e_index (hd (m_logs st)) in
           rbind (rassert (start \<ge> first_log_id)) (\<lambda>_.
           rbind (sub_u start first_log_id) (\<lambda>a.
           rbind (sub_u til first_log_id) (\<lambda>b.
           rbind (get_log (m_logs st) a) (\<lambda>x.
           rbind (rassert (e_index x = start)) (\<lambda>_.
           rbind (get_log (m_logs st) b) (\<lambda>y.
           rbind (rassert (e_index y = til)) (\<lambda>_.
           let out = drop a (take (b + 1) (m_logs st)) in
           rbind (rassert (if out \<noteq> [] then e_index (hd out) = start \<and> e_index (last out) = til
                           else start = til)) (\<lambda>_.
           Ok out)))))))))))"

definition mem_get_log_state :: "('p, 'v) mem_log \<Rightarrow> log_id_rec option \<times> log_id_rec option" where
  "mem_get_log_state st =
     (last_purged st,
      if m_logs st = [] then last_purged st else Some (e_log_id (last (m_logs st))))"

definition mem_read_vote :: "('p, 'v) mem_log \<Rightarrow> 'v option" where
  "mem_read_vote st = m_vote st"

section \<open>Writing\<close>

definition mem_save_vote :: "'v \<Rightarrow> ('p, 'v) mem_log \<Rightarrow> ('p, 'v) mem_log" where
  "mem_save_vote v st = st\<lparr>m_vote := Some v\<rparr>"

definition mem_append :: "'p entry list \<Rightarrow> ('p, 'v) mem_log \<Rightarrow> ('p, 'v) mem_log" where
  "mem_append entries st = st\<lparr>m_logs := m_logs st @ entries\<rparr>"

definition mem_truncate :: "log_id_rec \<Rightarrow> ('p, 'v) mem_log \<Rightarrow> (unit, ('p, 'v) mem_log) res" where
  "mem_truncate lid st =
     (if m_logs st = [] then Ok st
      else
        let first_offset = e_index (hd (m_logs st)) in
        rbind (rassert (lid_index lid \<ge> first_offset)) (\<lambda>_.
        rbind (sub_u (lid_index lid) first_offset) (\<lambda>truncate_from.
        rbind (rassert (truncate_from < length (m_logs st) \<and>
                        e_index (m_logs st ! truncate_from) = lid_index lid)) (\<lambda>_.
        Ok (st\<lparr>m_logs := take truncate_from (m_logs st)\<rparr>)))))"

definition mem_purge :: "log_id_rec \<Rightarrow> ('p, 'v) mem_log \<Rightarrow> (unit, ('p, 'v) mem_log) res" where
  "mem_purge lid st =
     (if m_logs st = [] then Ok (st\<lparr>last_purged := Some lid\<rparr>)
      else
        let first_offset = e_index (hd (m_logs st)) in
        rbind (rassert (first_offset \<le> lid_index lid)) (\<lambda>_.
        rbind (sub_u (lid_index lid) first_offset) (\<lambda>purge_until.
        rbind (rassert (length (m_logs st) \<ge> purge_until)) (\<lambda>_.
        let rest = drop purge_until (m_logs st);
            new_last_purged = (case rest of [] \<Rightarrow> None | e # _ \<Rightarrow> Some (e_log_id e)) in
        Ok (st\<lparr>m_logs := tl rest,
              last_purged := (case new_last_purged of None \<Rightarrow> last_purged st | Some p \<Rightarrow> Some p)\<rparr>)))))"

section \<open>Invariant and behaviour\<close>

definition mem_view :: "('p, 'v) mem_log \<Rightarrow> 'p entry rlog" where
  "mem_view st = map (\<lambda>e. (e_index e, e)) (m_logs st)"

lemma mem_view_Nil [simp]: "mem_view st = [] \<longleftrightarrow> m_logs st = []"
  by (simp add: mem_view_def)

lemma mem_index:
  assumes "contiguous (mem_view st)" and "i < length (m_logs st)"
  shows "e_index (m_logs st ! i) = e_index (hd (m_logs st)) + i"
proof -
  obtain a where a: "map fst (mem_view st) = [a..<a + length (mem_view st)]" "mem_view st \<noteq> [] \<Longrightarrow> a = fst (hd (mem_view st))"
    using assms(1) by (blast elim: contiguousE)
  have "m_logs st \<noteq> []" using assms(2) by auto
  then have "a = e_index (hd (m_logs st))" using a(2) by (simp add: mem_view_def hd_map)
  moreover have "map fst (mem_view st) ! i = a + i" using a(1) assms(2) by (simp add: mem_view_def)
  ultimately show ?thesis using assms(2) by (simp add: mem_view_def)
qed

lemma mem_view_filter:
  assumes "contiguous (mem_view st)" and "m_logs st \<noteq> []"
  defines "a \<equiv> e_index (hd (m_logs st))"
  shows "filter (\<lambda>e. k \<le> fst e) (mem_view st) = map (\<lambda>e. (e_index e, e)) (drop (k - a) (m_logs st))"
    and "filter (\<lambda>e. fst e < k) (mem_view st) = map (\<lambda>e. (e_index e, e)) (take (k - a) (m_logs st))"
proof -
  obtain b where b: "map fst (mem_view st) = [b..<b + length (mem_view st)]" "mem_view st \<noteq> [] \<Longrightarrow> b = fst (hd (mem_view st))"
    using assms(1) by (blast elim: contiguousE)
  then have "b = a" using assms(2) by (simp add: a_def mem_view_def hd_map)
  then show "filter (\<lambda>e. k \<le> fst e) (mem_view st) = map (\<lambda>e. (e_index e, e)) (drop (k - a) (m_logs st))"
    and "filter (\<lambda>e. fst e < k) (mem_view st) = map (\<lambda>e. (e_index e, e)) (take (k - a) (m_logs st))"
    using filter_upt_map [OF b(1), of k] by (simp_all add: mem_view_def drop_map take_map)
qed


lemma mem_range:
  assumes "contiguous (mem_view st)" and "a \<in> fst ` set (mem_view st)" and "b \<in> fst ` set (mem_view st)"
    and "a \<le> b" and "0 < b"
  shows "mem_try_get (Included a) (Included b) st = Ok (map snd (between a b (mem_view st)))"
proof -
  let ?f = "e_index (hd (m_logs st))"
  obtain i where i: "i < length (m_logs st)" "e_index (m_logs st ! i) = a"
    using assms(2) by (auto simp: mem_view_def in_set_conv_nth)
  obtain j where j: "j < length (m_logs st)" "e_index (m_logs st ! j) = b"
    using assms(3) by (auto simp: mem_view_def in_set_conv_nth)
  have a: "a = ?f + i" and b: "b = ?f + j" using mem_index [OF assms(1)] i j by metis+
  have ij: "i \<le> j" and ne: "m_logs st \<noteq> []" using a b assms(4) i(1) by auto
  let ?out = "drop i (take (Suc j) (m_logs st))"
  have "last ?out = m_logs st ! j" using ij j(1) by (simp add: take_Suc_conv_app_nth)
  then have out: "?out \<noteq> []" "hd ?out = m_logs st ! i" "last ?out = m_logs st ! j"
    using ij j(1) by (simp_all add: hd_drop_conv_nth)
  have "between a b (mem_view st) = filter (\<lambda>e. a \<le> fst e) (filter (\<lambda>e. fst e < Suc b) (mem_view st))"
    by (auto simp: between_def intro!: filter_cong)
  also have "filter (\<lambda>e. fst e < Suc b) (mem_view st) = mem_view (st\<lparr>m_logs := take (Suc j) (m_logs st)\<rparr>)"
    using mem_view_filter(2) [OF assms(1) ne, of "Suc b"] b by (simp add: mem_view_def Suc_diff_le)
  also have "filter (\<lambda>e. a \<le> fst e) \<dots> = map (\<lambda>e. (e_index e, e)) ?out"
  proof -
    let ?st = "st\<lparr>m_logs := take (Suc j) (m_logs st)\<rparr>"
    have "contiguous (mem_view ?st)" using contiguous_take [OF assms(1), of "Suc j"] by (simp add: mem_view_def take_map)
    then show ?thesis using mem_view_filter(1) [of ?st a] ne a by (simp add: hd_take)
  qed
  finally have "map snd (between a b (mem_view st)) = ?out" by (simp add: o_def)
  then show ?thesis
    using assms(4,5) ne a b i j ij out
    by (simp add: mem_try_get_def mem_range_start_def mem_range_end_def Let_def get_log_def sub_u_eq)
qed


text \<open>A read of the log in memory: a range whose first and last id are in the log is answered with
  exactly the entries of the range, in order; none of the assertions on the way fails.\<close>

theorem mem_get_range:
  assumes "contiguous (mem_view st)" and "a \<in> fst ` set (mem_view st)" and "b \<in> fst ` set (mem_view st)"
    and "a \<le> b" and "0 < b"
  shows "mem_try_get (Included a) (Included b) st = Ok (map snd (between a b (mem_view st)))"
  by (rule mem_range [OF assms])

definition mk_entry :: "nat \<Rightarrow> 'p \<Rightarrow> 'p entry" where
  "mk_entry i p = \<lparr>e_log_id = \<lparr>lid_term = 1, lid_node = 1, lid_index = i\<rparr>, payload = p\<rparr>"

definition ex_mem :: "(nat, nat) mem_log" where
  "ex_mem = mem_append [mk_entry 3 30, mk_entry 4 40, mk_entry 5 50] mem_new"

lemma ex_mem_view: "mem_view ex_mem = [(3, mk_entry 3 30), (4, mk_entry 4 40), (5, mk_entry 5 50)]"
  "contiguous (mem_view ex_mem)"
  by (simp_all add: ex_mem_def mem_append_def mem_new_def mem_view_def mk_entry_def contiguous_def upt_rec)

theorem mem_get_range_witness:
  "mem_try_get (Included 4) (Included 5) ex_mem = Ok [mk_entry 4 40, mk_entry 5 50]"
  using mem_get_range [OF ex_mem_view(2), of 4 5] by (simp add: ex_mem_view(1) between_def)



section \<open>Refinement of the abstract log\<close>

lemma mem_truncate_spec:
  assumes "contiguous (mem_view st)" and "m_logs st \<noteq> [] \<Longrightarrow> lid_index lid \<in> fst ` set (mem_view st)"
  shows "\<exists>st'. mem_truncate lid st = Ok st' \<and> mem_view st' = filter (\<lambda>e. fst e < lid_index lid) (mem_view st) \<and>
    last_purged st' = last_purged st \<and> m_vote st' = m_vote st"
proof (cases "m_logs st = []")
  case True
  then show ?thesis by (simp add: mem_truncate_def mem_view_def)
next
  case False
  obtain i where i: "i < length (m_logs st)" "e_index (m_logs st ! i) = lid_index lid"
    using assms(2) [OF False] by (auto simp: mem_view_def in_set_conv_nth)
  then have "lid_index lid = e_index (hd (m_logs st)) + i" using mem_index [OF assms(1)] by metis
  then show ?thesis
    using i False mem_view_filter(2) [OF assms(1) False, of "lid_index lid"]
    by (simp add: mem_truncate_def Let_def sub_u_eq mem_view_def)
qed

lemma mem_purge_spec:
  assumes "contiguous (mem_view st)"
    and "m_logs st \<noteq> [] \<Longrightarrow> e_index (hd (m_logs st)) \<le> lid_index lid \<and> lid_index lid \<le> Suc (e_index (last (m_logs st)))"
  shows "\<exists>st'. mem_purge lid st = Ok st' \<and> mem_view st' = filter (\<lambda>e. lid_index lid < fst e) (mem_view st) \<and>
    m_vote st' = m_vote st \<and> last_purged st' =
      (if m_logs st = [] then Some lid
       else (case drop (lid_index lid - e_index (hd (m_logs st))) (m_logs st) of [] \<Rightarrow> last_purged st | e # _ \<Rightarrow> Some (e_log_id e)))"
proof (cases "m_logs st = []")
  case True
  then show ?thesis by (simp add: mem_purge_def mem_view_def)
next
  case False
  let ?n = "lid_index lid - e_index (hd (m_logs st))"
  have "e_index (last (m_logs st)) = e_index (hd (m_logs st)) + (length (m_logs st) - 1)"
    using mem_index [OF assms(1), of "length (m_logs st) - 1"] False by (simp add: last_conv_nth)
  then have le: "?n \<le> length (m_logs st)" using assms(2) [OF False] False by (cases "m_logs st") auto
  have "Suc (lid_index lid) - e_index (hd (m_logs st)) = Suc ?n" using assms(2) [OF False] by (simp add: Suc_diff_le)
  then have "filter (\<lambda>e. lid_index lid < fst e) (mem_view st) = map (\<lambda>e. (e_index e, e)) (tl (drop ?n (m_logs st)))"
    using mem_view_filter(1) [OF assms(1) False, of "Suc (lid_index lid)"] by (simp add: Suc_le_eq drop_Suc tl_drop)
  then show ?thesis
    using False le assms(2) [OF False] by (simp add: mem_purge_def Let_def sub_u_eq mem_view_def split: list.split)
qed

text \<open>The storage as an instance of the interface. Only the index of a log id matters to the log.\<close>

definition ok_opt :: "(unit, 'a) res \<Rightarrow> 'a option" where
  "ok_opt r = (case r of Ok a \<Rightarrow> Some a | _ \<Rightarrow> None)"

definition at_index :: "nat \<Rightarrow> log_id_rec" where
  "at_index i = \<lparr>lid_term = 0, lid_node = 0, lid_index = i\<rparr>"

fun mem_exec :: "'p entry log_op \<Rightarrow> ('p, 'v) mem_log \<Rightarrow> ('p, 'v) mem_log option" where
  "mem_exec (LAppend es) st = Some (mem_append (map snd es) st)"
| "mem_exec (LTruncate k) st = ok_opt (mem_truncate (at_index k) st)"
| "mem_exec (LPurge k) st = ok_opt (mem_purge (at_index k) st)"

fun mem_pre :: "'p entry log_op \<Rightarrow> ('p, 'v) mem_log \<Rightarrow> bool" where
  "mem_pre (LAppend es) st = (\<forall>(i, e) \<in> set es. i = e_index e \<and> 0 < i)"
| "mem_pre (LTruncate k) st = (m_logs st \<noteq> [] \<longrightarrow> k \<in> e_index ` set (m_logs st))"
| "mem_pre (LPurge k) st = (m_logs st \<noteq> [] \<longrightarrow> e_index (hd (m_logs st)) \<le> k \<and> k \<le> Suc (e_index (last (m_logs st))))"

definition mem_rep :: "('p, 'v) mem_log \<Rightarrow> 'p entry rlog \<Rightarrow> bool" where
  "mem_rep st L \<longleftrightarrow> L = mem_view st \<and> contiguous L \<and> (\<forall>e \<in> set L. 0 < fst e)"

definition mem_get :: "nat \<Rightarrow> nat \<Rightarrow> ('p, 'v) mem_log \<Rightarrow> 'p entry list option" where
  "mem_get a b st = ok_opt (mem_try_get (Included a) (Included b) st)"

lemma mem_exec_refines:
  assumes "mem_rep st L" and "op_ok L x" and "mem_pre x st"
  shows "\<exists>st'. mem_exec x st = Some st' \<and> mem_rep st' (spec_op False x L)"
proof (cases x)
  case (LAppend es)
  have es: "map (\<lambda>e. (e_index e, e)) (map snd es) = es"
    unfolding map_map using assms(3) LAppend by (intro map_idI) auto
  have "mem_view (mem_append (map snd es) st) = L @ es"
    using es assms(1) by (simp add: mem_view_def mem_append_def mem_rep_def o_def)
  moreover have "contiguous (L @ es)" using assms LAppend contiguous_append by (auto simp: mem_rep_def)
  ultimately show ?thesis using assms LAppend by (auto simp: mem_rep_def)
next
  case (LTruncate k)
  have c: "contiguous (mem_view st)" and L: "L = mem_view st" using assms(1) by (auto simp: mem_rep_def)
  have "m_logs st \<noteq> [] \<Longrightarrow> lid_index (at_index k) \<in> fst ` set (mem_view st)"
    using assms(3) LTruncate by (simp add: mem_view_def at_index_def image_image)
  then obtain st' where "mem_truncate (at_index k) st = (Ok st')"
      "mem_view st' = filter (\<lambda>e. fst e < k) (mem_view st)"
    using mem_truncate_spec [OF c, of "at_index k"] by (auto simp: at_index_def)
  then show ?thesis
    using assms(1) LTruncate L contiguous_filter(2) [OF c, of k] by (auto simp: mem_rep_def ok_opt_def)
next
  case (LPurge k)
  have c: "contiguous (mem_view st)" and L: "L = mem_view st" using assms(1) by (auto simp: mem_rep_def)
  obtain st' where "mem_purge (at_index k) st = (Ok st')"
      "mem_view st' = filter (\<lambda>e. k < fst e) (mem_view st)"
    using mem_purge_spec [OF c, of "at_index k"] assms(3) LPurge by (auto simp: at_index_def)
  then show ?thesis
    using assms(1) LPurge L contiguous_filter(3) [OF c, of k] by (auto simp: mem_rep_def ok_opt_def)
qed

interpretation mem_storage: raft_log_storage False mem_rep mem_pre mem_exec mem_get
proof
  fix st :: "('p, 'v) mem_log" and L a b
  show "mem_rep st L \<Longrightarrow> contiguous L" by (auto simp: mem_rep_def)
  assume r: "mem_rep st L" "a \<in> fst ` set L" "b \<in> fst ` set L" "a \<le> b"
  then have L: "L = mem_view st" "contiguous (mem_view st)" "0 < b" by (auto simp: mem_rep_def)
  then have "mem_try_get (Included a) (Included b) st = (Ok (map snd (between a b L)))"
    using r(2-4) by (simp add: mem_range)
  then show "mem_get a b st = Some (map snd (between a b L))" by (simp add: mem_get_def ok_opt_def)
qed (rule mem_exec_refines)


text \<open>C31. Refinement: every admissible sequence of appends, truncations and purges on the log in memory ends
  without a panic, leaves the log that the abstract operations lead to, which has consecutive ids, and a read
  of any range of that log returns its entries.\<close>

theorem mem_log_refines:
  assumes "mem_rep st L" and "ok_run False mem_pre mem_exec xs st L"
    and "a \<in> fst ` set (spec_run False xs L)" and "b \<in> fst ` set (spec_run False xs L)" and "a \<le> b"
  shows "\<exists>st'. run_ops mem_exec xs st = Some st' \<and> mem_get a b st' = Some (map snd (between a b (spec_run False xs L))) \<and>
    contiguous (spec_run False xs L)"
  using assms by (rule mem_storage.run_then_get)

theorem mem_log_refines_witness:
  "\<exists>st'. run_ops mem_exec [LPurge 3, LTruncate 5, LAppend [(5, mk_entry 5 51)]] ex_mem = Some st' \<and>
     mem_get 4 5 st' = Some [mk_entry 4 40, mk_entry 5 51]"
proof -
  let ?xs = "[LPurge 3, LTruncate 5, LAppend [(5, mk_entry 5 51)]]"
  let ?L = "[(3, mk_entry 3 30), (4, mk_entry 4 40), (5, mk_entry 5 50)]"
  have r: "mem_rep ex_mem ?L" using ex_mem_view by (simp add: mem_rep_def)
  have ok: "ok_run False mem_pre mem_exec ?xs ex_mem ?L"
    by (simp add: ex_mem_def mem_append_def mem_new_def mk_entry_def mem_purge_def mem_truncate_def ok_opt_def at_index_def
        Let_def continues_def contiguous_def upt_rec sub_u_def)
  have "spec_run False ?xs ?L = [(4, mk_entry 4 40), (5, mk_entry 5 51)]" by simp
  then show ?thesis using mem_log_refines [OF r ok, of 4 5] by (auto simp: between_def)
qed

text \<open>What the storage reports: the last id is that of the last entry, or the purge frontier when there is
  no entry, and the reported purge frontier is never behind the entries that were dropped: after a purge up to
  an entry of the log it is the id of that entry.\<close>

theorem mem_purge_state:
  assumes "contiguous (mem_view st)" and "lid_index lid \<in> fst ` set (mem_view st)"
  shows "\<exists>st' e. mem_purge lid st = Ok st' \<and> e \<in> set (m_logs st) \<and> e_index e = lid_index lid \<and>
    fst (mem_get_log_state st') = Some (e_log_id e) \<and>
    snd (mem_get_log_state st') = (if last (m_logs st) = e then Some (e_log_id e) else snd (mem_get_log_state st))"
proof -
  obtain i where i: "i < length (m_logs st)" "e_index (m_logs st ! i) = lid_index lid"
    using assms(2) by (auto simp: mem_view_def in_set_conv_nth)
  let ?e = "m_logs st ! i"
  have ix: "lid_index lid = e_index (hd (m_logs st)) + i" using mem_index [OF assms(1) i(1)] i(2) by simp
  have ne: "m_logs st \<noteq> []" using i(1) by auto
  have dr: "drop i (m_logs st) = ?e # drop (Suc i) (m_logs st)" using i(1) by (simp add: Cons_nth_drop_Suc)
  let ?st = "st\<lparr>m_logs := drop (Suc i) (m_logs st), last_purged := Some (e_log_id ?e)\<rparr>"
  have p: "mem_purge lid st = Ok ?st"
    using ne ix i(1) by (simp add: mem_purge_def Let_def sub_u_eq dr)
  have "last (m_logs st) = ?e" if "drop (Suc i) (m_logs st) = []"
  proof -
    have "length (m_logs st) = Suc i" using that i(1) by simp
    then show ?thesis by (simp add: last_conv_nth [OF ne])
  qed
  moreover have "last (m_logs st) \<noteq> ?e" if "drop (Suc i) (m_logs st) \<noteq> []"
    using that i mem_index [OF assms(1), of "length (m_logs st) - 1"] ix by (auto simp: last_conv_nth ne)
  moreover have "last (drop (Suc i) (m_logs st)) = last (m_logs st)" if "drop (Suc i) (m_logs st) \<noteq> []"
    using that by (simp add: last_drop)
  ultimately show ?thesis
    using p i ne by (intro exI [of _ ?st] exI [of _ ?e]) (auto simp: mem_get_log_state_def)
qed

theorem mem_purge_state_witness:
  "\<exists>st'. mem_purge (e_log_id (mk_entry 4 (40::nat))) ex_mem = Ok st' \<and>
     snd (mem_get_log_state st') = Some (e_log_id (mk_entry 5 (50::nat)))"
proof -
  have l: "last (m_logs ex_mem) = mk_entry 5 50" "m_logs ex_mem \<noteq> []" "e_index (mk_entry i p) = i" for i and p :: nat
    by (simp_all add: ex_mem_def mem_append_def mem_new_def mk_entry_def)
  have "lid_index (e_log_id (mk_entry 4 (40::nat))) \<in> fst ` set (mem_view ex_mem)" by (simp add: ex_mem_view(1) l(3))
  from mem_purge_state [OF ex_mem_view(2) this] obtain st' e where
    "mem_purge (e_log_id (mk_entry 4 (40::nat))) ex_mem = Ok st'" "e_index e = 4"
    "snd (mem_get_log_state st') = (if last (m_logs ex_mem) = e then Some (e_log_id e) else snd (mem_get_log_state ex_mem))"
    by (auto simp: l(3))
  moreover have "last (m_logs ex_mem) \<noteq> e" using calculation(2) l(1,3) by auto
  ultimately show ?thesis using l(1,2) by (simp add: mem_get_log_state_def)
qed

text \<open>The log in memory forgets how far it was purged. A purge to the id right after the last entry, as
  after a snapshot of a leader that is one entry ahead, empties the log but leaves the purge frontier where it
  was, so that the reported last id falls back to it.\<close>

theorem mem_purge_past_end:
  assumes "contiguous (mem_view st)" and "m_logs st \<noteq> []" and "lid_index lid = Suc (e_index (last (m_logs st)))"
  shows "\<exists>st'. mem_purge lid st = Ok st' \<and> m_logs st' = [] \<and>
    mem_get_log_state st' = (last_purged st, last_purged st)"
proof -
  have "e_index (last (m_logs st)) = e_index (hd (m_logs st)) + (length (m_logs st) - 1)"
    using mem_index [OF assms(1), of "length (m_logs st) - 1"] assms(2) by (simp add: last_conv_nth)
  then have "lid_index lid = e_index (hd (m_logs st)) + length (m_logs st)"
    using assms(2,3) by (cases "m_logs st") simp_all
  then show ?thesis using assms(2) by (simp add: mem_purge_def Let_def sub_u_eq mem_get_log_state_def)
qed

theorem mem_purge_past_end_witness:
  "\<exists>st'. mem_purge (at_index 6) ex_mem = Ok st' \<and> mem_get_log_state st' = (None, None)"
  using mem_purge_past_end [OF ex_mem_view(2), of "at_index 6"]
  by (auto simp: ex_mem_def mem_append_def mem_new_def mk_entry_def at_index_def)

end
