(* ===== verification/Btree_Map.thy ===== *)
theory Btree_Map
  imports Hql_Prelude "HOL-Library.AList" "HOL-Library.List_Lexorder" "HOL-Library.Char_ord"
begin

text \<open>
  The part of \<^verbatim>\<open>std::collections::BTreeMap\<close> the cache uses: a map kept as an association list in strictly
  ascending order of its keys, so that iteration, \<^verbatim>\<open>first_key_value\<close> and \<^verbatim>\<open>pop_first\<close> follow the order
  of the keys. The locale \<open>ordered_map\<close> states what a client may rely on, and shows what follows for a
  map whose values are buckets (non-empty lists), the shape of an index from a property of an entry to the
  keys that have it. \<open>map_of\<close> is \<^verbatim>\<open>get\<close>.
\<close>

type_synonym ('k, 'v) btree = "('k \<times> 'v) list"

section \<open>Operations\<close>

fun bt_insert :: "'k::linorder \<Rightarrow> 'v \<Rightarrow> ('k, 'v) btree \<Rightarrow> ('k, 'v) btree" where
  "bt_insert k v [] = [(k, v)]"
| "bt_insert k v (x # xs) =
     (if k < fst x then (k, v) # x # xs
      else if k = fst x then (k, v) # xs
      else x # bt_insert k v xs)"

fun bt_remove :: "'k \<Rightarrow> ('k, 'v) btree \<Rightarrow> ('k, 'v) btree" where
  "bt_remove k [] = []"
| "bt_remove k (x # xs) = (if fst x = k then xs else x # bt_remove k xs)"

fun bt_first :: "('k, 'v) btree \<Rightarrow> ('k \<times> 'v) option" where
  "bt_first [] = None"
| "bt_first (x # xs) = Some x"

definition bt_ok :: "('k::linorder, 'v) btree \<Rightarrow> bool" where
  "bt_ok m \<longleftrightarrow> sorted_wrt (<) (map fst m)"

section \<open>Laws\<close>

lemma bt_ok_Nil [simp]: "bt_ok []"
  by (simp add: bt_ok_def)

lemma bt_ok_Cons [simp]: "bt_ok (x # xs) \<longleftrightarrow> (\<forall>y\<in>set xs. fst x < fst y) \<and> bt_ok xs"
  by (auto simp: bt_ok_def)

lemma bt_ok_distinct: "bt_ok m \<Longrightarrow> distinct (map fst m)"
  by (simp add: bt_ok_def strict_sorted_iff)

lemma set_bt_insert: "set (bt_insert k v m) \<subseteq> insert (k, v) (set m)"
  by (induction m) auto

lemma bt_ok_insert: "bt_ok m \<Longrightarrow> bt_ok (bt_insert k v m)"
proof (induction m)
  case Nil
  then show ?case by simp
next
  case (Cons x xs)
  then show ?case
    using set_bt_insert [of k v xs] by (auto dest: subsetD)
qed

lemma set_bt_remove: "set (bt_remove k m) \<subseteq> set m"
  by (induction m) auto

lemma bt_ok_remove: "bt_ok m \<Longrightarrow> bt_ok (bt_remove k m)"
proof (induction m)
  case Nil
  then show ?case by simp
next
  case (Cons x xs)
  then show ?case
    using set_bt_remove [of k xs] by auto
qed

lemma map_of_above: "(\<forall>y\<in>set m. k < fst y) \<Longrightarrow> map_of m (k::'k::linorder) = None"
  by (induction m) auto

lemma get_bt_insert:
  "bt_ok m \<Longrightarrow> map_of (bt_insert k v m) k' = (if k' = k then Some v else map_of m k')"
proof (induction m)
  case Nil
  then show ?case by simp
next
  case (Cons x xs)
  then show ?case by (cases x) auto
qed

lemma get_bt_remove:
  "bt_ok m \<Longrightarrow> map_of (bt_remove k m) k' = (if k' = k then None else map_of m k')"
proof (induction m)
  case Nil
  then show ?case by simp
next
  case (Cons x xs)
  then show ?case
    using map_of_above [of xs "fst x"] by (cases x) auto
qed

lemma bt_first_None: "bt_first m = None \<longleftrightarrow> m = []"
  by (cases m) auto

lemma bt_first_least:
  assumes "bt_ok m" and "bt_first m = Some (k, v)"
  shows "map_of m k = Some v" and "map_of m k' \<noteq> None \<Longrightarrow> k \<le> k'"
proof -
  obtain ms where m: "m = (k, v) # ms" using assms(2) by (cases m) auto
  then show "map_of m k = Some v" by simp
  assume "map_of m k' \<noteq> None"
  then have "k' \<in> fst ` set m" by (simp add: map_of_eq_None_iff)
  then have "k' = k \<or> k' \<in> fst ` set ms"
    using m by auto
  then show "k \<le> k'"
    using assms(1) m by auto
qed

lemma bt_ext:
  assumes "bt_ok m" and "bt_ok m'" and "map_of m = map_of m'"
  shows "m = m'"
proof -
  have "set m = set m'"
    using map_of_inject_set [OF bt_ok_distinct [OF assms(1)] bt_ok_distinct [OF assms(2)]] assms(3) by simp
  moreover from this have "map fst m = map fst m'"
    using assms(1,2) unfolding bt_ok_def by (intro strict_sorted_equal) simp_all
  moreover have "inj_on fst (set m)"
    using bt_ok_distinct [OF assms(1)] by (simp add: distinct_map)
  ultimately show ?thesis by (intro map_inj_on [of fst]) simp_all
qed

lemma length_bt_remove: "map_of m k \<noteq> None \<Longrightarrow> length (bt_remove k m) < length m"
  by (induction m) (auto split: if_splits)

lemma bt_remove_first: "bt_first m = Some (k, v) \<Longrightarrow> bt_remove k m = tl m"
  by (cases m) auto

section \<open>Interface\<close>

locale ordered_map =
  fixes ok :: "'m \<Rightarrow> bool"
    and get :: "'m \<Rightarrow> 'k::linorder \<Rightarrow> 'v list option"
    and ins :: "'k \<Rightarrow> 'v list \<Rightarrow> 'm \<Rightarrow> 'm"
    and rem :: "'k \<Rightarrow> 'm \<Rightarrow> 'm"
    and least :: "'m \<Rightarrow> ('k \<times> 'v list) option"
    and empty :: 'm
  assumes ok_empty: "ok empty"
    and ok_ins: "ok m \<Longrightarrow> ok (ins k v m)"
    and ok_rem: "ok m \<Longrightarrow> ok (rem k m)"
    and get_empty: "get empty k = None"
    and get_ins: "ok m \<Longrightarrow> get (ins k v m) k' = (if k' = k then Some v else get m k')"
    and get_rem: "ok m \<Longrightarrow> get (rem k m) k' = (if k' = k then None else get m k')"
    and least_get: "ok m \<Longrightarrow> least m = Some (k, v) \<Longrightarrow> get m k = Some v"
    and least_le: "ok m \<Longrightarrow> least m = Some (k, v) \<Longrightarrow> get m k' \<noteq> None \<Longrightarrow> k \<le> k'"
    and least_None: "ok m \<Longrightarrow> least m = None \<Longrightarrow> get m k = None"
begin

text \<open>A map of buckets indexes a partial function \<open>f\<close> when the bucket of \<open>k\<close> lists, once each, the \<open>x\<close>
  with \<open>f x = Some k\<close>, and there are no empty buckets.\<close>

definition bucket :: "'m \<Rightarrow> 'k \<Rightarrow> 'v list" where
  "bucket m k = (case get m k of None \<Rightarrow> [] | Some xs \<Rightarrow> xs)"

definition indexes :: "'m \<Rightarrow> ('v \<rightharpoonup> 'k) \<Rightarrow> bool" where
  "indexes m f \<longleftrightarrow> ok m \<and> (\<forall>k xs. get m k = Some xs \<longrightarrow> xs \<noteq> [] \<and> distinct xs) \<and>
     (\<forall>k. set (bucket m k) = {x. f x = Some k})"

lemma indexesI:
  assumes "ok m" and "\<And>k xs. get m k = Some xs \<Longrightarrow> xs \<noteq> []"
    and "\<And>k. distinct (bucket m k)" and "\<And>x k. x \<in> set (bucket m k) \<longleftrightarrow> f x = Some k"
  shows "indexes m f"
proof -
  have "distinct xs" if "get m k = Some xs" for k xs
    using assms(3) [of k] that by (simp add: bucket_def)
  with assms show ?thesis by (auto simp: indexes_def)
qed

lemma indexes_ok: "indexes m f \<Longrightarrow> ok m"
  by (simp add: indexes_def)

lemma indexes_iff: "indexes m f \<Longrightarrow> x \<in> set (bucket m k) \<longleftrightarrow> f x = Some k"
  by (simp add: indexes_def)

lemma indexes_empty: "indexes empty Map.empty"
  by (simp add: indexes_def bucket_def ok_empty get_empty)

lemma indexes_bucket:
  "indexes m f \<Longrightarrow> get m k = Some xs \<Longrightarrow> xs \<noteq> [] \<and> distinct xs \<and> set xs = {x. f x = Some k}"
  using indexes_iff [of m f _ k] by (auto simp: indexes_def bucket_def)

lemma indexes_present:
  assumes "indexes m f" and "f x = Some k"
  obtains xs where "get m k = Some xs" and "x \<in> set xs"
proof -
  have "x \<in> set (bucket m k)" using indexes_iff [OF assms(1)] assms(2) by simp
  with that show thesis by (cases "get m k") (auto simp: bucket_def)
qed

lemma indexes_unique:
  assumes "indexes m f" and "indexes m g"
  shows "f = g"
proof (rule ext)
  fix x
  have "f x = Some k \<longleftrightarrow> g x = Some k" for k
    using indexes_iff [OF assms(1)] indexes_iff [OF assms(2)] by metis
  then show "f x = g x" by (metis not_None_eq)
qed

lemma bucket_ins: "ok m \<Longrightarrow> bucket (ins k xs m) k' = (if k' = k then xs else bucket m k')"
  by (simp add: bucket_def get_ins)

lemma bucket_rem: "ok m \<Longrightarrow> bucket (rem k m) k' = (if k' = k then [] else bucket m k')"
  by (simp add: bucket_def get_rem)

lemma distinct_bucket: "indexes m f \<Longrightarrow> distinct (bucket m k)"
  by (simp add: indexes_def bucket_def split: option.split)

lemma bucket_nonempty: "indexes m f \<Longrightarrow> get m k = Some xs \<Longrightarrow> xs \<noteq> []"
  by (simp add: indexes_def)

lemma indexes_push:
  assumes ix: "indexes m f" and fx: "f x = None"
  shows "indexes (ins k (bucket m k @ [x]) m) (f(x \<mapsto> k))"
proof (rule indexesI)
  have m: "ok m" using indexes_ok [OF ix] .
  then show "ok (ins k (bucket m k @ [x]) m)" by (rule ok_ins)
  show "xs \<noteq> []" if "get (ins k (bucket m k @ [x]) m) k' = Some xs" for k' xs
    using that bucket_nonempty [OF ix] by (auto simp: get_ins [OF m] split: if_splits)
  show "distinct (bucket (ins k (bucket m k @ [x]) m) k')" for k'
    using distinct_bucket [OF ix] indexes_iff [OF ix] fx by (simp add: bucket_ins [OF m])
  show "y \<in> set (bucket (ins k (bucket m k @ [x]) m) k') \<longleftrightarrow> (f(x \<mapsto> k)) y = Some k'" for y k'
    using indexes_iff [OF ix] fx by (simp add: bucket_ins [OF m])
qed

lemma indexes_drop:
  assumes ix: "indexes m f" and fx: "f x = Some k"
    and ys: "ys = filter (\<lambda>y. y \<noteq> x) (bucket m k)"
  shows "indexes (if ys = [] then rem k m else ins k ys m) (f(x := None))" (is "indexes ?n _")
proof (rule indexesI)
  have m: "ok m" using indexes_ok [OF ix] .
  have b: "bucket ?n k' = (if k' = k then ys else bucket m k')" for k'
    by (simp add: bucket_ins [OF m] bucket_rem [OF m])
  show "ok ?n" using m by (simp add: ok_ins ok_rem)
  show "xs \<noteq> []" if "get ?n k' = Some xs" for k' xs
    using that bucket_nonempty [OF ix] by (auto simp: get_ins [OF m] get_rem [OF m] split: if_splits)
  show "distinct (bucket ?n k')" for k'
    unfolding b using distinct_bucket [OF ix] by (simp add: ys)
  show "y \<in> set (bucket ?n k') \<longleftrightarrow> (f(x := None)) y = Some k'" for y k'
    unfolding b using indexes_iff [OF ix] fx by (simp add: ys)
qed

lemma indexes_pop:
  assumes ix: "indexes m f" and xs: "get m k = Some xs"
  shows "indexes (rem k m) (\<lambda>x. if x \<in> set xs then None else f x)"
proof (rule indexesI)
  have m: "ok m" using indexes_ok [OF ix] .
  then show "ok (rem k m)" by (rule ok_rem)
  show "ys \<noteq> []" if "get (rem k m) k' = Some ys" for k' ys
    using that bucket_nonempty [OF ix] by (auto simp: get_rem [OF m] split: if_splits)
  show "distinct (bucket (rem k m) k')" for k'
    using distinct_bucket [OF ix] by (simp add: bucket_rem [OF m])
  have "x \<in> set xs \<longleftrightarrow> f x = Some k" for x
    using indexes_bucket [OF ix xs] by simp
  then show "x \<in> set (bucket (rem k m) k') \<longleftrightarrow> (if x \<in> set xs then None else f x) = Some k'" for x k'
    using indexes_iff [OF ix] by (simp add: bucket_rem [OF m])
qed

lemma indexes_least:
  assumes ix: "indexes m f" and "least m = Some (k, xs)" and "f x = Some k'"
  shows "k \<le> k'"
proof -
  obtain ys where "get m k' = Some ys" using indexes_present [OF ix assms(3)] .
  then show ?thesis using least_le [OF indexes_ok [OF ix] assms(2)] by simp
qed

lemma indexes_least_None:
  assumes ix: "indexes m f" and "least m = None"
  shows "f x = None"
proof (rule ccontr)
  assume "f x \<noteq> None"
  then obtain k where "f x = Some k" by blast
  then obtain ys where "get m k = Some ys" using indexes_present [OF ix] by blast
  then show False using least_None [OF indexes_ok [OF ix] assms(2), of k] by simp
qed

end

interpretation bt: ordered_map bt_ok map_of bt_insert bt_remove bt_first "[]"
proof unfold_locales
qed (simp_all only: bt_ok_Nil bt_ok_insert bt_ok_remove get_bt_insert get_bt_remove bt_first_None
  bt_first_least(1) map_of.simps, erule (2) bt_first_least(2))

end
