(* ===== verification/Hql_Task.thy ===== *)
theory Hql_Task
  imports Hql_Prelude
begin

text \<open>
  The interface between the state machine and the tasks it talks to. A task owns its state, takes one message
  after the other from its channel and may answer each; the state machine relies on the task never ending
  (\<^verbatim>\<open>.expect("kv handler to always be running")\<close>). \<open>handler_task\<close> is that contract for the step of one
  message, \<open>refining_task\<close> adds that the answers are those of an abstract machine.
\<close>

fun run_task :: "('m \<Rightarrow> 's \<Rightarrow> (unit, 'r \<times> 's) res) \<Rightarrow> 'm list \<Rightarrow> 's \<Rightarrow> (unit, 'r list \<times> 's) res" where
  "run_task step [] s = Ok ([], s)"
| "run_task step (m # ms) s =
     rbind (step m s) (\<lambda>(r, s'). rbind (run_task step ms s') (\<lambda>(rs, s''). Ok (r # rs, s'')))"

lemma run_task_Cons:
  "step m s = Ok (r, s') \<Longrightarrow> run_task step ms s' = Ok (rs, s'') \<Longrightarrow>
   run_task step (m # ms) s = Ok (r # rs, s'')"
  by simp

lemma run_task_ConsE:
  assumes "run_task step (m # ms) s = Ok (rs, s'')"
  obtains r s' rs' where "step m s = Ok (r, s')" and "run_task step ms s' = Ok (rs', s'')" and "rs = r # rs'"
  using assms by (auto simp: rbind_eq_Ok)

locale handler_task =
  fixes ok :: "'s \<Rightarrow> bool"
    and accepts :: "'m \<Rightarrow> bool"
    and step :: "'m \<Rightarrow> 's \<Rightarrow> (unit, 'r \<times> 's) res"
  assumes step_total: "ok s \<Longrightarrow> accepts m \<Longrightarrow> \<exists>r s'. step m s = Ok (r, s') \<and> ok s'"
begin

lemma step_keeps: "ok s \<Longrightarrow> accepts m \<Longrightarrow> step m s = Ok (r, s') \<Longrightarrow> ok s'"
  using step_total [of s m] by auto

lemma run_total:
  assumes "ok s" and "list_all accepts ms"
  shows "\<exists>rs s'. run_task step ms s = Ok (rs, s') \<and> length rs = length ms \<and> ok s'"
  using assms
proof (induction ms arbitrary: s)
  case Nil
  then show ?case by simp
next
  case (Cons m ms)
  from Cons.prems obtain r s' where 1: "step m s = Ok (r, s')" "ok s'"
    using step_total [of s m] by auto
  moreover from Cons.prems obtain rs s'' where
    "run_task step ms s' = Ok (rs, s'')" "length rs = length ms" "ok s''"
    using Cons.IH [OF 1(2)] by auto
  ultimately show ?case by auto
qed

lemma run_keeps:
  assumes "ok s" and "list_all accepts ms" and "run_task step ms s = Ok (rs, s')"
  shows "ok s'" and "length rs = length ms"
  using run_total [OF assms(1,2)] assms(3) by auto

end

fun spec_task :: "('m \<Rightarrow> 'a \<Rightarrow> 'r \<Rightarrow> 'a \<Rightarrow> bool) \<Rightarrow> 'm list \<Rightarrow> 'a \<Rightarrow> 'r list \<Rightarrow> 'a \<Rightarrow> bool" where
  "spec_task spec [] a rs a' \<longleftrightarrow> rs = [] \<and> a' = a"
| "spec_task spec (m # ms) a rs a' \<longleftrightarrow>
     (\<exists>r rs' b. rs = r # rs' \<and> spec m a r b \<and> spec_task spec ms b rs' a')"

locale refining_task = handler_task ok accepts step
  for ok :: "'s \<Rightarrow> bool" and accepts :: "'m \<Rightarrow> bool" and step :: "'m \<Rightarrow> 's \<Rightarrow> (unit, 'r \<times> 's) res" +
  fixes rel :: "'s \<Rightarrow> 'a \<Rightarrow> bool"
    and spec :: "'m \<Rightarrow> 'a \<Rightarrow> 'r \<Rightarrow> 'a \<Rightarrow> bool"
  assumes step_refines: "ok s \<Longrightarrow> accepts m \<Longrightarrow> rel s a \<Longrightarrow> step m s = Ok (r, s') \<Longrightarrow>
      \<exists>a'. spec m a r a' \<and> rel s' a'"
begin

lemma run_refines_spec:
  assumes "ok s" and "list_all accepts ms" and "rel s a"
  shows "\<exists>rs s' a'. run_task step ms s = Ok (rs, s') \<and> spec_task spec ms a rs a' \<and> rel s' a' \<and> ok s'"
  using assms
proof (induction ms arbitrary: s a)
  case Nil
  then show ?case by auto
next
  case (Cons m ms)
  then have m: "accepts m" "list_all accepts ms" by simp_all
  obtain r s' where 1: "step m s = Ok (r, s')" "ok s'"
    using step_total [OF Cons.prems(1) m(1)] by auto
  obtain a' where 2: "spec m a r a'" "rel s' a'"
    using step_refines [OF Cons.prems(1) m(1) Cons.prems(3) 1(1)] by auto
  obtain rs s'' a'' where "run_task step ms s' = Ok (rs, s'')" "spec_task spec ms a' rs a''"
      "rel s'' a''" "ok s''"
    using Cons.IH [OF 1(2) m(2) 2(2)] by auto
  with 1 2 show ?case
    by (intro exI [of _ "r # rs"] exI [of _ s''] exI [of _ a'']) auto
qed

end

end
