(* ===== verification/Kv_Handler.thy ===== *)
theory Kv_Handler
  imports Btree_Map Hql_Task
begin

text \<open>
  The task that owns one cache, \<^verbatim>\<open>store/state_machine/memory/kv_handler.rs\<close>: the values with their optional
  expiry, the counters, the index of pending expiries, the head of its loop (which removes what is due and
  computes how long to sleep) and the handling of one request. Times are microseconds since the epoch as
  \<^verbatim>\<open>i64\<close>; the clock is the sequence \<open>clk\<close> of the values that the calls of \<^verbatim>\<open>Utc::now()\<close> return, and the number
  of calls so far is threaded through. The theory \<^verbatim>\<open>Kv_Handler_Props\<close> has what the definitions satisfy.
\<close>

section \<open>Signed 64-bit arithmetic\<close>

definition i64_min :: int where "i64_min = - (2 ^ 63)"
definition i64_max :: int where "i64_max = 2 ^ 63 - 1"

definition is_i64 :: "int \<Rightarrow> bool" where
  "is_i64 x \<longleftrightarrow> i64_min \<le> x \<and> x \<le> i64_max"

definition sub_i64 :: "int \<Rightarrow> int \<Rightarrow> ('e, int) res" where
  "sub_i64 a b = (if is_i64 (a - b) then Ok (a - b) else Panic ''attempt to subtract with overflow'')"

definition saturating_add :: "int \<Rightarrow> int \<Rightarrow> int" where
  "saturating_add a b = (if a + b < i64_min then i64_min else if i64_max < a + b then i64_max else a + b)"

definition as_u64 :: "int \<Rightarrow> nat" where
  "as_u64 x = nat (x mod 2 ^ 64)"

section \<open>State and messages\<close>

type_synonym kv_values = "(string, bytes \<times> int option) btree"
type_synonym kv_counters = "(string, int) btree"
type_synonym kv_expiries = "(int, string list) btree"
type_synonym cache_snapshot = "kv_values \<times> kv_counters"

datatype cache_request_handler =
    Get string
  | GetRemove string
  | Put string bytes "int option"
  | Replace string bytes "int option"
  | Delete string
  | Clear
  | ClearCounters
  | SnapshotBuildCacheOnly
  | SnapshotBuild
  | SnapshotInstall cache_snapshot
  | CounterGet string
  | CounterSet string int
  | CounterAdd string int
  | CounterDel string

text \<open>What is sent on the reply channel of the request; \<open>RNone\<close> for a request without one.\<close>

datatype kv_reply =
    RNone
  | RValue "bytes option"
  | RKvs "(string, bytes) btree"
  | RSnapshot cache_snapshot
  | RAck
  | RCounterOpt "int option"
  | RCounter int

record kv_state =
  kv_vals :: kv_values
  kv_counts :: kv_counters
  kv_exps :: kv_expiries

definition kv_start :: kv_state where
  "kv_start = \<lparr>kv_vals = [], kv_counts = [], kv_exps = []\<rparr>"

section \<open>The index of expiries\<close>

definition expiry_of :: "kv_values \<Rightarrow> string \<Rightarrow> int option" where
  "expiry_of vs key = (case map_of vs key of None \<Rightarrow> None | Some (_, expires) \<Rightarrow> expires)"

definition remove_expiry :: "kv_expiries \<Rightarrow> int \<Rightarrow> string \<Rightarrow> kv_expiries" where
  "remove_expiry exps exp key = (case map_of exps exp of
     None \<Rightarrow> exps
   | Some keys \<Rightarrow>
       (let keys' = filter (\<lambda>k. k \<noteq> key) keys
        in if keys' = [] then bt_remove exp exps else bt_insert exp keys' exps))"

definition drop_expiry :: "kv_values \<Rightarrow> kv_expiries \<Rightarrow> string \<Rightarrow> kv_expiries" where
  "drop_expiry vs exps key = (case expiry_of vs key of
     Some exp \<Rightarrow> remove_expiry exps exp key
   | None \<Rightarrow> exps)"

definition register_expiry :: "kv_expiries \<Rightarrow> string \<Rightarrow> int \<Rightarrow> kv_expiries" where
  "register_expiry exps key exp =
     bt_insert exp ((case map_of exps exp of None \<Rightarrow> [] | Some keys \<Rightarrow> keys) @ [key]) exps"

definition register_opt :: "kv_expiries \<Rightarrow> string \<Rightarrow> int option \<Rightarrow> kv_expiries" where
  "register_opt exps key expires = (case expires of
     Some exp \<Rightarrow> register_expiry exps key exp
   | None \<Rightarrow> exps)"

section \<open>The head of the loop\<close>

fun remove_due :: "int \<Rightarrow> string list \<Rightarrow> kv_values \<Rightarrow> (unit, kv_values) res" where
  "remove_due exp [] vs = Ok vs"
| "remove_due exp (key # keys) vs =
     rbind (rassert (expiry_of vs key = Some exp)) (\<lambda>_. remove_due exp keys (bt_remove key vs))"

datatype sleep = Micros nat | Secs nat
datatype head = Popped kv_state | SleepExp sleep nat

text \<open>One pass of the block that computes \<^verbatim>\<open>sleep_exp\<close>: what is due at the first reading of the clock is
  removed and the loop continues; otherwise the sleep is computed from a second reading. A \<open>SleepExp\<close> carries
  the number of readings taken.\<close>

definition loop_head :: "int \<Rightarrow> int \<Rightarrow> kv_state \<Rightarrow> (unit, head) res" where
  "loop_head now1 now2 st = (case bt_first (kv_exps st) of
     None \<Rightarrow> Ok (SleepExp (Secs u64_max) 0)
   | Some (exp, keys) \<Rightarrow>
       rbind (sub_i64 exp now1) (\<lambda>d.
         if d < 1 then
           rbind (remove_due exp keys (kv_vals st)) (\<lambda>vs.
             Ok (Popped (st\<lparr>kv_vals := vs, kv_exps := tl (kv_exps st)\<rparr>)))
         else
           rbind (sub_i64 exp now2) (\<lambda>d2. Ok (SleepExp (Micros (as_u64 d2)) 2))))"

lemma loop_head_Popped: "loop_head t1 t2 st = Ok (Popped st') \<Longrightarrow> length (kv_exps st') < length (kv_exps st)"
  by (cases "kv_exps st") (auto simp: loop_head_def rbind_eq_Ok split: prod.splits if_splits)

text \<open>Repeated passes: the \<^verbatim>\<open>continue\<close> of the loop, up to the \<^verbatim>\<open>select!\<close>.\<close>

function head_loop :: "(nat \<Rightarrow> int) \<Rightarrow> nat \<Rightarrow> kv_state \<Rightarrow> (unit, sleep \<times> nat \<times> kv_state) res" where
  "head_loop clk i st = (case loop_head (clk i) (clk (Suc i)) st of
     Ok (Popped st') \<Rightarrow> head_loop clk (Suc i) st'
   | Ok (SleepExp d n) \<Rightarrow> Ok (d, i + n, st)
   | Err e \<Rightarrow> Err e
   | Panic p \<Rightarrow> Panic p)"
  by pat_completeness auto
termination
  by (relation "measure (\<lambda>(clk, i, st). length (kv_exps st))") (auto dest: loop_head_Popped)

declare head_loop.simps [simp del]

section \<open>Requests\<close>

definition live :: "int \<Rightarrow> (bytes \<times> int option) option \<Rightarrow> bytes option" where
  "live now e = (case e of
     Some (v, Some exp) \<Rightarrow> if exp \<le> now then None else Some v
   | Some (v, None) \<Rightarrow> Some v
   | None \<Rightarrow> None)"

definition put_value :: "string \<Rightarrow> bytes \<Rightarrow> int option \<Rightarrow> kv_state \<Rightarrow> kv_state" where
  "put_value key v expires st =
     st\<lparr>kv_vals := bt_insert key (v, expires) (kv_vals st),
        kv_exps := register_opt (drop_expiry (kv_vals st) (kv_exps st) key) key expires\<rparr>"

definition remove_value :: "string \<Rightarrow> kv_state \<Rightarrow> kv_state" where
  "remove_value key st =
     st\<lparr>kv_vals := bt_remove key (kv_vals st),
        kv_exps := drop_expiry (kv_vals st) (kv_exps st) key\<rparr>"

definition rebuild_index :: "kv_values \<Rightarrow> kv_expiries" where
  "rebuild_index vs = fold (\<lambda>(key, (_, expires)) exps. register_opt exps key expires) vs []"

fun handle_kv :: "int \<Rightarrow> cache_request_handler \<Rightarrow> kv_state \<Rightarrow> kv_reply \<times> kv_state" where
  "handle_kv now (Get key) st = (RValue (live now (map_of (kv_vals st) key)), st)"
| "handle_kv now (GetRemove key) st =
     (RValue (live now (map_of (kv_vals st) key)), remove_value key st)"
| "handle_kv now (Put key v expires) st = (RNone, put_value key v expires st)"
| "handle_kv now (Replace key v expires) st =
     (RValue (map_option fst (map_of (kv_vals st) key)), put_value key v expires st)"
| "handle_kv now (Delete key) st = (RNone, remove_value key st)"
| "handle_kv now Clear st = (RNone, st\<lparr>kv_vals := [], kv_exps := []\<rparr>)"
| "handle_kv now ClearCounters st = (RNone, st\<lparr>kv_counts := []\<rparr>)"
| "handle_kv now SnapshotBuildCacheOnly st = (RKvs (map (\<lambda>(k, (v, _)). (k, v)) (kv_vals st)), st)"
| "handle_kv now SnapshotBuild st = (RSnapshot (kv_vals st, kv_counts st), st)"
| "handle_kv now (SnapshotInstall (vs, cs)) st =
     (RAck, st\<lparr>kv_vals := vs, kv_counts := cs, kv_exps := rebuild_index vs\<rparr>)"
| "handle_kv now (CounterGet key) st = (RCounterOpt (map_of (kv_counts st) key), st)"
| "handle_kv now (CounterSet key v) st = (RNone, st\<lparr>kv_counts := bt_insert key v (kv_counts st)\<rparr>)"
| "handle_kv now (CounterAdd key delta) st =
     (let v = (case map_of (kv_counts st) key of
                 Some current \<Rightarrow> saturating_add current delta
               | None \<Rightarrow> delta)
      in (RCounter v, st\<lparr>kv_counts := bt_insert key v (kv_counts st)\<rparr>))"
| "handle_kv now (CounterDel key) st = (RNone, st\<lparr>kv_counts := bt_remove key (kv_counts st)\<rparr>)"

section \<open>The loop\<close>

text \<open>What ends the \<^verbatim>\<open>select!\<close>: a request, or the end of the sleep. A state of the task is the number of
  clock readings so far and the maps; the list of events ends when the channel is closed.\<close>

datatype kv_event = Recv cache_request_handler | Elapsed

definition kv_step :: "(nat \<Rightarrow> int) \<Rightarrow> kv_event \<Rightarrow> nat \<times> kv_state \<Rightarrow> (unit, kv_reply \<times> nat \<times> kv_state) res" where
  "kv_step clk ev = (\<lambda>(i, st).
     rbind (head_loop clk i st) (\<lambda>(_, j, st1).
       case ev of
         Elapsed \<Rightarrow> Ok (RNone, j, st1)
       | Recv req \<Rightarrow> (let (r, st2) = handle_kv (clk j) req st1 in Ok (r, Suc j, st2))))"

definition kv_handler :: "(nat \<Rightarrow> int) \<Rightarrow> kv_event list \<Rightarrow> (unit, kv_reply list \<times> nat \<times> kv_state) res" where
  "kv_handler clk evs = run_task (kv_step clk) evs (0, kv_start)"

end
