(* ===== verification/Dlock_Handler.thy ===== *)
theory Dlock_Handler
  imports Hql_Task "HOL-Library.AList"
begin

text \<open>
  The task that owns the distributed locks, \<^verbatim>\<open>store/state_machine/memory/dlock_handler.rs\<close>. A lock has a
  holder with a lease and a queue of tickets; clients that wait for their ticket are registered with the channel
  on which they expect the answer. Times are seconds. The two hash maps are association lists, whose order is
  the arbitrary order of an iteration. Channels are numbers; \<open>gone\<close> says which receivers have been dropped, so
  that a send on them fails, which an \<^verbatim>\<open>unwrap()\<close> turns into a panic. What has been answered is kept in
  \<open>dl_out\<close>. The theory \<^verbatim>\<open>Dlock_Handler_Props\<close> has what the definitions satisfy.
\<close>

section \<open>State and messages\<close>

definition lock_valid_seconds :: int where "lock_valid_seconds = 2"

datatype lock_state = Locked nat | Queued nat | Released

record lock_queue =
  current_ticket :: "nat option"
  lease_exp :: int
  lqueue :: "nat list"

type_synonym lock_map = "(string \<times> lock_queue) list"
type_synonym waiters = "(string \<times> (nat \<times> nat) list) list"

datatype lock_request =
    LLock string nat nat
  | LAcquire string nat nat
  | LRelease string nat
  | LAlive string nat nat
  | LAwait string nat nat
  | LSnapshotBuild nat
  | LSnapshotInstall lock_map nat

datatype lock_answer = AState lock_state | ALocks lock_map | AUnit

record dlock =
  dl_locks :: lock_map
  dl_waiters :: waiters
  dl_out :: "(nat \<times> lock_answer) list"

definition dlock_start :: dlock where
  "dlock_start = \<lparr>dl_locks = [], dl_waiters = [], dl_out = []\<rparr>"

text \<open>\<open>answer\<close> is a send whose error is a panic, \<open>tell\<close> a series of sends whose errors are ignored.\<close>

definition answer :: "(nat \<Rightarrow> bool) \<Rightarrow> nat \<Rightarrow> lock_answer \<Rightarrow> dlock \<Rightarrow> (unit, dlock) res" where
  "answer gone ch v st =
     (if gone ch then Panic ''called unwrap on an Err value''
      else Ok (st\<lparr>dl_out := dl_out st @ [(ch, v)]\<rparr>))"

definition tell :: "(nat \<Rightarrow> bool) \<Rightarrow> (nat \<times> nat) list \<Rightarrow> lock_state \<Rightarrow> dlock \<Rightarrow> dlock" where
  "tell gone acks v st =
     st\<lparr>dl_out := dl_out st @ map (\<lambda>(_, ch). (ch, AState v)) (filter (\<lambda>(_, ch). \<not> gone ch) acks)\<rparr>"

section \<open>Promotion\<close>

definition is_free :: "lock_queue \<Rightarrow> int \<Rightarrow> bool" where
  "is_free lock now \<longleftrightarrow> current_ticket lock = None \<or> lease_exp lock < now"

definition set_lock :: "string \<Rightarrow> lock_queue \<Rightarrow> dlock \<Rightarrow> dlock" where
  "set_lock key lock st = st\<lparr>dl_locks := AList.update key lock (dl_locks st)\<rparr>"

definition set_waiters :: "string \<Rightarrow> (nat \<times> nat) list \<Rightarrow> dlock \<Rightarrow> dlock" where
  "set_waiters key l st = st\<lparr>dl_waiters := AList.update key l (dl_waiters st)\<rparr>"

definition promote :: "(nat \<Rightarrow> bool) \<Rightarrow> int \<Rightarrow> string \<Rightarrow> lock_queue \<Rightarrow> dlock \<Rightarrow> dlock" where
  "promote gone now key lock st =
     (if \<not> is_free lock now \<or> lqueue lock = [] then set_lock key lock st
      else
        (let front = hd (lqueue lock);
             st1 = set_lock key \<lparr>current_ticket = Some front, lease_exp = now + lock_valid_seconds,
                                 lqueue = tl (lqueue lock)\<rparr> st
         in case map_of (dl_waiters st) key of
              None \<Rightarrow> st1
            | Some l \<Rightarrow>
                tell gone (filter (\<lambda>e. fst e = front) l) (Locked front)
                  (set_waiters key (filter (\<lambda>e. fst e \<noteq> front) l) st1)))"

definition promote_key :: "(nat \<Rightarrow> bool) \<Rightarrow> int \<Rightarrow> string \<Rightarrow> dlock \<Rightarrow> dlock" where
  "promote_key gone now key st = (case map_of (dl_locks st) key of
     Some lock \<Rightarrow> promote gone now key lock st
   | None \<Rightarrow> st)"

text \<open>The sweep reads the clock once to select the keys and once per promotion.\<close>

fun promote_keys :: "(nat \<Rightarrow> bool) \<Rightarrow> (nat \<Rightarrow> int) \<Rightarrow> nat \<Rightarrow> string list \<Rightarrow> dlock \<Rightarrow> nat \<times> dlock" where
  "promote_keys gone clk i [] st = (i, st)"
| "promote_keys gone clk i (key # keys) st =
     promote_keys gone clk (Suc i) keys (promote_key gone (clk i) key st)"

definition sweep_expired :: "(nat \<Rightarrow> bool) \<Rightarrow> (nat \<Rightarrow> int) \<Rightarrow> nat \<Rightarrow> dlock \<Rightarrow> nat \<times> dlock" where
  "sweep_expired gone clk i st =
     promote_keys gone clk (Suc i)
       (map fst (filter (\<lambda>(_, lock). is_free lock (clk i) \<and> lqueue lock \<noteq> []) (dl_locks st))) st"

section \<open>Requests\<close>

definition fresh_lock :: "int \<Rightarrow> nat \<Rightarrow> lock_queue" where
  "fresh_lock now tid = \<lparr>current_ticket = Some tid, lease_exp = now + lock_valid_seconds, lqueue = []\<rparr>"

definition handle_lock :: "(nat \<Rightarrow> bool) \<Rightarrow> int \<Rightarrow> int \<Rightarrow> string \<Rightarrow> nat \<Rightarrow> nat \<Rightarrow> dlock \<Rightarrow> (unit, dlock) res" where
  "handle_lock gone t1 t2 key log_id ack st =
     (let st1 = promote_key gone t1 key st
      in case map_of (dl_locks st1) key of
           Some lock \<Rightarrow>
             if current_ticket lock = None \<or> is_free lock t2 then
               answer gone ack (AState (Locked log_id))
                 (set_lock key (lock\<lparr>current_ticket := Some log_id, lease_exp := t2 + lock_valid_seconds\<rparr>) st1)
             else
               answer gone ack (AState (Queued log_id))
                 (set_lock key (lock\<lparr>lqueue := lqueue lock @ [log_id]\<rparr>) st1)
         | None \<Rightarrow> answer gone ack (AState (Locked log_id)) (set_lock key (fresh_lock t2 log_id) st1))"

definition handle_acquire :: "(nat \<Rightarrow> bool) \<Rightarrow> int \<Rightarrow> int \<Rightarrow> string \<Rightarrow> nat \<Rightarrow> nat \<Rightarrow> dlock \<Rightarrow> (unit, dlock) res" where
  "handle_acquire gone t1 t2 key log_id ack st =
     (let st1 = promote_key gone t1 key st
      in case map_of (dl_locks st1) key of
           Some lock \<Rightarrow>
             if current_ticket lock = Some log_id \<and> t2 \<le> lease_exp lock then
               answer gone ack (AState (Locked log_id)) st1
             else if current_ticket lock = None \<or> is_free lock t2 then
               answer gone ack (AState (Locked log_id))
                 (set_lock key (lock\<lparr>current_ticket := Some log_id, lease_exp := t2 + lock_valid_seconds\<rparr>) st1)
             else
               answer gone ack (AState (Queued log_id))
                 (if log_id \<in> set (lqueue lock) then st1
                  else set_lock key (lock\<lparr>lqueue := lqueue lock @ [log_id]\<rparr>) st1)
         | None \<Rightarrow> answer gone ack (AState (Locked log_id)) (set_lock key (fresh_lock t2 log_id) st1))"

definition full_remove :: "(nat \<Rightarrow> bool) \<Rightarrow> string \<Rightarrow> dlock \<Rightarrow> dlock" where
  "full_remove gone key st =
     (let st1 = (case map_of (dl_waiters st) key of
                   Some acks \<Rightarrow> tell gone acks Released (st\<lparr>dl_waiters := AList.delete key (dl_waiters st)\<rparr>)
                 | None \<Rightarrow> st)
      in st1\<lparr>dl_locks := AList.delete key (dl_locks st1)\<rparr>)"

definition handle_release :: "(nat \<Rightarrow> bool) \<Rightarrow> int \<Rightarrow> string \<Rightarrow> nat \<Rightarrow> dlock \<Rightarrow> dlock" where
  "handle_release gone t1 key tid st = (case map_of (dl_locks st) key of
     None \<Rightarrow> st
   | Some lock \<Rightarrow>
       if current_ticket lock = Some tid then
         (let st1 = promote gone t1 key (lock\<lparr>current_ticket := None\<rparr>) st
          in case map_of (dl_locks st1) key of
               Some lock1 \<Rightarrow>
                 if current_ticket lock1 = None \<and> lqueue lock1 = [] then full_remove gone key st1 else st1
             | None \<Rightarrow> st1)
       else st)"

definition handle_alive :: "(nat \<Rightarrow> bool) \<Rightarrow> int \<Rightarrow> string \<Rightarrow> nat \<Rightarrow> nat \<Rightarrow> dlock \<Rightarrow> (unit, dlock) res" where
  "handle_alive gone t1 key tid ack st =
     (let (alive, st1) =
        (case map_of (dl_locks st) key of
           Some lock \<Rightarrow>
             if current_ticket lock = Some tid
             then (True, set_lock key (lock\<lparr>lease_exp := t1 + lock_valid_seconds\<rparr>) st) else (False, st)
         | None \<Rightarrow> (False, st))
      in answer gone ack (AState (if alive then Locked tid else Released)) st1)"

definition register_waiter :: "string \<Rightarrow> nat \<Rightarrow> nat \<Rightarrow> dlock \<Rightarrow> dlock" where
  "register_waiter key tid ack st =
     set_waiters key ((case map_of (dl_waiters st) key of None \<Rightarrow> [] | Some l \<Rightarrow> l) @ [(tid, ack)]) st"

definition handle_await :: "(nat \<Rightarrow> bool) \<Rightarrow> int \<Rightarrow> int \<Rightarrow> string \<Rightarrow> nat \<Rightarrow> nat \<Rightarrow> dlock \<Rightarrow> (unit, dlock) res" where
  "handle_await gone t1 t2 key tid ack st =
     (let st1 = promote_key gone t1 key st
      in case map_of (dl_locks st1) key of
           Some lock \<Rightarrow>
             if current_ticket lock = Some tid \<and> t2 \<le> lease_exp lock then
               answer gone ack (AState (Locked tid)) st1
             else if is_free lock t2 then answer gone ack (AState Released) st1
             else if tid \<in> set (lqueue lock) then Ok (register_waiter key tid ack st1)
             else answer gone ack (AState Released) st1
         | None \<Rightarrow> answer gone ack (AState Released) st1)"

definition install_locks :: "(nat \<Rightarrow> bool) \<Rightarrow> lock_map \<Rightarrow> nat \<Rightarrow> dlock \<Rightarrow> (unit, dlock) res" where
  "install_locks gone data ack st =
     answer gone ack AUnit
       (tell gone (concat (map snd (dl_waiters st))) Released (st\<lparr>dl_locks := data, dl_waiters := []\<rparr>))"

fun handle_request :: "(nat \<Rightarrow> bool) \<Rightarrow> int \<Rightarrow> int \<Rightarrow> lock_request \<Rightarrow> dlock \<Rightarrow> (unit, dlock) res" where
  "handle_request gone t1 t2 (LLock key log_id ack) st = handle_lock gone t1 t2 key log_id ack st"
| "handle_request gone t1 t2 (LAcquire key log_id ack) st = handle_acquire gone t1 t2 key log_id ack st"
| "handle_request gone t1 t2 (LRelease key tid) st = Ok (handle_release gone t1 key tid st)"
| "handle_request gone t1 t2 (LAlive key tid ack) st = handle_alive gone t1 key tid ack st"
| "handle_request gone t1 t2 (LAwait key tid ack) st = handle_await gone t1 t2 key tid ack st"
| "handle_request gone t1 t2 (LSnapshotBuild ack) st = answer gone ack (ALocks (dl_locks st)) st"
| "handle_request gone t1 t2 (LSnapshotInstall data ack) st = install_locks gone data ack st"

section \<open>The loop\<close>

text \<open>The \<^verbatim>\<open>select!\<close> takes a request or a tick of the sweep interval. A request is given two readings of the
  clock, also where it uses fewer.\<close>

datatype lock_event = LRecv lock_request | Tick

definition dlock_step :: "(nat \<Rightarrow> bool) \<Rightarrow> (nat \<Rightarrow> int) \<Rightarrow> lock_event \<Rightarrow> nat \<times> dlock \<Rightarrow> (unit, unit \<times> nat \<times> dlock) res" where
  "dlock_step gone clk ev = (\<lambda>(i, st). case ev of
     LRecv req \<Rightarrow> rbind (handle_request gone (clk i) (clk (Suc i)) req st) (\<lambda>st'. Ok ((), i + 2, st'))
   | Tick \<Rightarrow> Ok ((), sweep_expired gone clk i st))"

definition dlock_handler :: "(nat \<Rightarrow> bool) \<Rightarrow> (nat \<Rightarrow> int) \<Rightarrow> lock_event list \<Rightarrow> (unit, unit list \<times> nat \<times> dlock) res" where
  "dlock_handler gone clk evs = run_task (dlock_step gone clk) evs (0, dlock_start)"

end
