(* ===== verification/Notify_Handler.thy ===== *)
theory Notify_Handler
  imports Hql_Task "HOL-Library.Multiset"
begin

text \<open>
  The task that distributes notifications, \<^verbatim>\<open>store/state_machine/memory/notify_handler.rs\<close>. Channels are numbers;
  with every message comes the set of channels whose receiver is gone when it is handled, so that a send on them
  fails. A listener to which a send failed is removed with \<^verbatim>\<open>swap_remove\<close>, from the highest index to the lowest.
  Leaving the loop is \<open>Err\<close>.
\<close>

section \<open>Definitions\<close>

type_synonym notification = "int \<times> bytes"

datatype notify_request = Notify notification | Listen nat

record notify_state =
  listeners :: "nat list"
  delivered :: "(nat \<times> notification) list"
  local_out :: "notification list"

definition notify_start :: notify_state where
  "notify_start = \<lparr>listeners = [], delivered = [], local_out = []\<rparr>"

text \<open>\<^verbatim>\<open>Vec::swap_remove\<close>: the last element takes the place of the removed one.\<close>

definition swap_remove :: "'a list \<Rightarrow> nat \<Rightarrow> (unit, 'a list) res" where
  "swap_remove xs i =
     (if i < length xs then Ok (butlast (xs[i := last xs])) else Panic ''swap_remove index out of range'')"

text \<open>The loop over the listeners: what is delivered, and the indices of those whose channel is closed, in the
  order they are pushed.\<close>

definition failed_indexes :: "(nat \<Rightarrow> bool) \<Rightarrow> nat list \<Rightarrow> nat list" where
  "failed_indexes closed ls = filter (\<lambda>idx. closed (ls ! idx)) [0..<length ls]"

text \<open>\<^verbatim>\<open>while let Some(idx) = remove_indexes.pop()\<close>.\<close>

fun remove_listeners :: "nat list \<Rightarrow> nat list \<Rightarrow> (unit, nat list) res" where
  "remove_listeners idxs ls =
     (if idxs = [] then Ok ls
      else rbind (swap_remove ls (last idxs)) (\<lambda>ls'. remove_listeners (butlast idxs) ls'))"

declare remove_listeners.simps [simp del]

definition handle_notify :: "(nat \<Rightarrow> bool) \<Rightarrow> nat \<Rightarrow> notification \<Rightarrow> notify_state \<Rightarrow> (unit, notify_state) res" where
  "handle_notify closed tx_local n st =
     rbind (if listeners st \<noteq> []
            then rbind (remove_listeners (failed_indexes closed (listeners st)) (listeners st)) (\<lambda>ls.
              Ok (st\<lparr>listeners := ls,
                     delivered := delivered st @ map (\<lambda>l. (l, n)) (filter (\<lambda>l. \<not> closed l) (listeners st))\<rparr>))
            else Ok st)
       (\<lambda>st1. if closed tx_local then Err () else Ok (st1\<lparr>local_out := local_out st1 @ [n]\<rparr>))"

fun notify_step :: "nat \<Rightarrow> (nat \<Rightarrow> bool) \<Rightarrow> (nat \<Rightarrow> bool) \<times> notify_request \<Rightarrow> notify_state \<Rightarrow> (unit, unit \<times> notify_state) res" where
  "notify_step tx_local bounded (closed, Notify n) st =
     rbind (handle_notify closed tx_local n st) (\<lambda>st'. Ok ((), st'))"
| "notify_step tx_local bounded (closed, Listen tx) st =
     rbind (rassert (\<not> bounded tx)) (\<lambda>_. Ok ((), st\<lparr>listeners := listeners st @ [tx]\<rparr>))"

section \<open>Removal by descending index\<close>

lemma swap_remove_Ok:
  assumes "i < length xs"
  obtains ys where "swap_remove xs i = Ok ys" and "mset ys = mset xs - {#xs ! i#}"
    and "\<And>j. j < i \<Longrightarrow> ys ! j = xs ! j" and "length ys = length xs - 1"
proof
  show "swap_remove xs i = Ok (butlast (xs[i := last xs]))"
    using assms by (simp add: swap_remove_def)
  have "xs \<noteq> []" using assms by auto
  then have "mset (butlast (xs[i := last xs])) = mset (xs[i := last xs]) - {#last (xs[i := last xs])#}"
    by (metis add_diff_cancel_right' append_butlast_last_id length_greater_0_conv length_list_update
      mset.simps mset_append union_mset_add_mset_right add.right_neutral)
  also have "last (xs[i := last xs]) = last xs"
    using assms by (cases "i = length xs - 1") (simp_all add: last_conv_nth nth_list_update \<open>xs \<noteq> []\<close>)
  also have "mset (xs[i := last xs]) = add_mset (last xs) (mset xs - {#xs ! i#})"
    using assms by (simp add: mset_update)
  finally show "mset (butlast (xs[i := last xs])) = mset xs - {#xs ! i#}" by simp
  show "butlast (xs[i := last xs]) ! j = xs ! j" if "j < i" for j
    using assms that by (simp add: nth_butlast)
  show "length (butlast (xs[i := last xs])) = length xs - 1" by simp
qed

lemma remove_listeners_spec:
  assumes "sorted_wrt (<) idxs" and "\<And>i. i \<in> set idxs \<Longrightarrow> i < length ls"
  shows "\<exists>ls'. remove_listeners idxs ls = Ok ls' \<and> mset ls' = mset ls - mset (map ((!) ls) idxs)"
  using assms
proof (induction idxs arbitrary: ls rule: rev_induct)
  case Nil
  then show ?case by (simp add: remove_listeners.simps)
next
  case (snoc i idxs)
  obtain ys where ys: "swap_remove ls i = Ok ys" "mset ys = mset ls - {#ls ! i#}"
      "\<And>j. j < i \<Longrightarrow> ys ! j = ls ! j" "length ys = length ls - 1"
    using swap_remove_Ok [of i ls] snoc.prems(2) by auto
  have less: "j < i" if "j \<in> set idxs" for j
    using snoc.prems(1) that by (simp add: sorted_wrt_append)
  then have same: "map ((!) ys) idxs = map ((!) ls) idxs" using ys(3) by simp
  have "j < length ys" if "j \<in> set idxs" for j
    using less [OF that] snoc.prems(2) [of i] ys(4) by simp
  then obtain ls' where "remove_listeners idxs ys = Ok ls'" "mset ls' = mset ys - mset (map ((!) ls) idxs)"
    using snoc.IH [of ys] snoc.prems(1) unfolding same by (auto simp: sorted_wrt_append)
  then show ?case using ys(1,2) by (simp add: remove_listeners.simps [of "idxs @ [i]"])
qed

lemma map_nth_filter: "map ((!) xs) (filter (\<lambda>i. P (xs ! i)) [0..<length xs]) = filter P xs"
  by (metis (no_types, lifting) filter_map map_nth comp_def filter_cong)

lemma remove_failed:
  "\<exists>ls'. remove_listeners (failed_indexes closed ls) ls = Ok ls' \<and> mset ls' = filter_mset (\<lambda>l. \<not> closed l) (mset ls)"
proof -
  have "sorted_wrt (<) (failed_indexes closed ls)"
    by (simp add: failed_indexes_def sorted_wrt_filter)
  moreover have "i < length ls" if "i \<in> set (failed_indexes closed ls)" for i
    using that by (simp add: failed_indexes_def)
  moreover have "mset (map ((!) ls) (failed_indexes closed ls)) = filter_mset closed (mset ls)"
    by (simp only: failed_indexes_def map_nth_filter mset_filter)
  moreover have "mset ls - filter_mset closed (mset ls) = filter_mset (\<lambda>l. \<not> closed l) (mset ls)"
    by (metis add_diff_cancel_left' multiset_partition)
  ultimately show ?thesis using remove_listeners_spec [of "failed_indexes closed ls" ls] by simp
qed

section \<open>The task\<close>

fun notify_accepts :: "nat \<Rightarrow> (nat \<Rightarrow> bool) \<Rightarrow> (nat \<Rightarrow> bool) \<times> notify_request \<Rightarrow> bool" where
  "notify_accepts tx_local bounded (closed, Notify n) \<longleftrightarrow> \<not> closed tx_local"
| "notify_accepts tx_local bounded (closed, Listen tx) \<longleftrightarrow> \<not> bounded tx"

lemma handle_notify_spec:
  assumes "\<not> closed tx_local"
  shows "\<exists>ls. handle_notify closed tx_local n st = Ok (st\<lparr>listeners := ls,
      delivered := delivered st @ map (\<lambda>l. (l, n)) (filter (\<lambda>l. \<not> closed l) (listeners st)),
      local_out := local_out st @ [n]\<rparr>) \<and> mset ls = filter_mset (\<lambda>l. \<not> closed l) (mset (listeners st))"
  using remove_failed [of closed "listeners st"] assms
  by (auto simp: handle_notify_def)

interpretation notify_task: handler_task "\<lambda>st. list_all (\<lambda>l. \<not> bounded l) (listeners st)"
  "notify_accepts tx_local bounded" "notify_step tx_local bounded" for tx_local bounded
proof unfold_locales
  fix st :: notify_state and m
  assume ok: "list_all (\<lambda>l. \<not> bounded l) (listeners st)" and acc: "notify_accepts tx_local bounded m"
  show "\<exists>r st'. notify_step tx_local bounded m st = Ok (r, st') \<and> list_all (\<lambda>l. \<not> bounded l) (listeners st')"
  proof (cases m)
    case (Pair closed req)
    show ?thesis
    proof (cases req)
      case (Listen tx)
      with Pair ok acc show ?thesis by simp
    next
      case (Notify n)
      then obtain ls where ls: "handle_notify closed tx_local n st = Ok (st\<lparr>listeners := ls,
          delivered := delivered st @ map (\<lambda>l. (l, n)) (filter (\<lambda>l. \<not> closed l) (listeners st)),
          local_out := local_out st @ [n]\<rparr>)" "mset ls = filter_mset (\<lambda>l. \<not> closed l) (mset (listeners st))"
        using handle_notify_spec [of closed tx_local n st] Pair acc by auto
      have "set ls \<subseteq> set (listeners st)" using arg_cong [OF ls(2), of set_mset] by auto
      then show ?thesis using ls(1) Pair Notify ok by (auto simp: list_all_iff)
    qed
  qed
qed

text \<open>C30. A notification is delivered once to every listener that is still there and to the node itself, and
  the listeners that are gone, and only those, are removed: the indices collected before the removal stay right
  although each removal moves the last listener.\<close>

theorem notify_delivers:
  assumes "\<not> closed tx_local"
  shows "\<exists>st'. notify_step tx_local bounded (closed, Notify n) st = Ok ((), st') \<and>
    mset (listeners st') = filter_mset (\<lambda>l. \<not> closed l) (mset (listeners st)) \<and>
    delivered st' = delivered st @ map (\<lambda>l. (l, n)) (filter (\<lambda>l. \<not> closed l) (listeners st)) \<and>
    local_out st' = local_out st @ [n]"
  using handle_notify_spec [of closed tx_local n st] assms by auto

theorem notify_delivers_witness:
  "\<exists>st'. notify_step 0 (\<lambda>_. False) (\<lambda>l. even l \<and> l > 0, Notify (7, [1]))
       \<lparr>listeners = [2, 3, 4, 5, 6], delivered = [], local_out = []\<rparr> = Ok ((), st') \<and>
     mset (listeners st') = {#3, 5#} \<and> delivered st' = [(3, 7, [1]), (5, 7, [1])] \<and> local_out st' = [(7, [1])]"
  using notify_delivers [of "\<lambda>l. even l \<and> l > 0" 0 "\<lambda>_. False" "(7, [1])"
    "\<lparr>listeners = [2, 3, 4, 5, 6], delivered = [], local_out = []\<rparr>"]
  by simp

end
