(* ===== verification/Cache_Variants.thy ===== *)
theory Cache_Variants
  imports Hql_Text "HOL-Library.Sublist"
begin

text \<open>
  The trait \<^verbatim>\<open>CacheVariants\<close> of \<^verbatim>\<open>hiqlite/src/lib.rs\<close> and the checks of its indices when the cache starts, in
  \<^verbatim>\<open>StateMachineMemory::new\<close>. The variants of an application are a list of indices with names. Their text form is
  stored beside the snapshots, and the form found at the next start decides whether the data fits the program.
\<close>

section \<open>Definitions\<close>

type_synonym cache_variants = "(nat \<times> string) list"

definition variants_normalized :: "cache_variants \<Rightarrow> string" where
  "variants_normalized vs = concat (map (\<lambda>(idx, name). to_string idx @ '' '' @ name @ [CHR 0x0A]) vs)"

definition line_compatible :: "cache_variants \<Rightarrow> string \<Rightarrow> bool" where
  "line_compatible vs line = (case split_once (CHR '' '') line of
     None \<Rightarrow> False
   | Some (idx, name) \<Rightarrow>
       (case parse_uint u64_max idx of
          None \<Rightarrow> False
        | Some i \<Rightarrow> i < length vs \<and> snd (vs ! i) = name))"

fun lines_compatible :: "cache_variants \<Rightarrow> string list \<Rightarrow> bool" where
  "lines_compatible vs [] = True"
| "lines_compatible vs (l # ls) = (if line_compatible vs l then lines_compatible vs ls else False)"

definition compatible_with :: "cache_variants \<Rightarrow> string \<Rightarrow> bool" where
  "compatible_with vs stored = lines_compatible vs (lines stored)"

text \<open>The validation of the indices with the vector \<^verbatim>\<open>seen\<close>.\<close>

fun check_indices :: "nat \<Rightarrow> bool list \<Rightarrow> nat list \<Rightarrow> (unit, bool list) res" where
  "check_indices n seen [] = Ok seen"
| "check_indices n seen (idx # idxs) =
     (if n \<le> idx then Panic ''cache variant index is out of range or duplicated''
      else if seen ! idx then Panic ''cache variant index is out of range or duplicated''
      else check_indices n (seen[idx := True]) idxs)"

definition validate_indices :: "cache_variants \<Rightarrow> (unit, unit) res" where
  "validate_indices vs =
     rbind (check_indices (length vs) (replicate (length vs) False) (map fst vs)) (\<lambda>_. Ok ())"

section \<open>Indices\<close>

lemma check_indices_Ok:
  assumes "length seen = n"
  shows "(\<exists>s. check_indices n seen idxs = Ok s) \<longleftrightarrow>
    distinct idxs \<and> (\<forall>i\<in>set idxs. i < n \<and> \<not> seen ! i)"
  using assms
proof (induction idxs arbitrary: seen)
  case Nil
  then show ?case by simp
next
  case (Cons i idxs)
  show ?case
  proof (cases "n \<le> i \<or> seen ! i")
    case True
    then show ?thesis by auto
  next
    case False
    then have "(\<exists>s. check_indices n seen (i # idxs) = Ok s) \<longleftrightarrow>
        distinct idxs \<and> (\<forall>j\<in>set idxs. j < n \<and> \<not> seen[i := True] ! j)"
      using Cons.IH [of "seen[i := True]"] Cons.prems by simp
    also have "\<dots> \<longleftrightarrow> distinct (i # idxs) \<and> (\<forall>j\<in>set (i # idxs). j < n \<and> \<not> seen ! j)"
      using False Cons.prems by (auto simp: nth_list_update)
    finally show ?thesis .
  qed
qed

text \<open>C29. The validation at the start accepts exactly the variants whose indices are the numbers below their
  count, each once: then every index of a request has its cache.\<close>

theorem validate_indices_iff:
  "validate_indices vs = Ok () \<longleftrightarrow> distinct (map fst vs) \<and> fst ` set vs = {..<length vs}"
proof -
  let ?c = "check_indices (length vs) (replicate (length vs) False) (map fst vs)"
  have "validate_indices vs = Ok () \<longleftrightarrow> (\<exists>s. ?c = Ok s)"
    by (simp add: validate_indices_def rbind_eq_Ok)
  also have "\<dots> \<longleftrightarrow> distinct (map fst vs) \<and> (\<forall>i\<in>set (map fst vs). i < length vs)"
    using check_indices_Ok [of "replicate (length vs) False" "length vs" "map fst vs"] by auto
  also have "\<dots> \<longleftrightarrow> distinct (map fst vs) \<and> fst ` set vs = {..<length vs}"
  proof -
    have "fst ` set vs = {..<length vs}" if "distinct (map fst vs)" "\<forall>i\<in>set (map fst vs). i < length vs"
    proof (rule card_subset_eq)
      show "card (fst ` set vs) = card {..<length vs}"
        using distinct_card [OF that(1)] by simp
    qed (use that(2) in auto)
    then show ?thesis by auto
  qed
  finally show ?thesis .
qed

section \<open>Compatibility\<close>

text \<open>What the derive macro produces: indices in ascending order from 0, and names that fit on a line.\<close>

definition wf_variants :: "cache_variants \<Rightarrow> bool" where
  "wf_variants vs \<longleftrightarrow> map fst vs = [0..<length vs] \<and> length vs \<le> u64_max \<and>
     (\<forall>name\<in>snd ` set vs. CHR 0x0A \<notin> set name \<and> CHR 0x0D \<notin> set name)"

lemma wf_variants_nth:
  assumes "wf_variants vs" and "i < length vs"
  shows "fst (vs ! i) = i"
proof -
  have "map fst vs ! i = [0..<length vs] ! i" using assms(1) by (simp only: wf_variants_def)
  then show ?thesis using assms(2) by simp
qed

lemma to_string_no:
  assumes "c \<in> set (to_string n)"
  shows "c \<noteq> CHR '' ''" "c \<noteq> CHR 0x0A" "c \<noteq> CHR 0x0D" "c \<noteq> CHR ''+''" "c \<noteq> CHR ''-''"
proof -
  obtain d where "d < 10" "c = digit d" using to_string_digits [OF assms] by blast
  then show "c \<noteq> CHR '' ''" "c \<noteq> CHR 0x0A" "c \<noteq> CHR 0x0D" "c \<noteq> CHR ''+''" "c \<noteq> CHR ''-''"
    using digit_neq [of d] by simp_all
qed

lemma parse_to_string: "n \<le> mx \<Longrightarrow> parse_uint mx (to_string n) = Some n"
proof -
  assume n: "n \<le> mx"
  obtain c cs where s: "to_string n = c # cs" by (cases "to_string n") simp_all
  then have "c \<noteq> CHR ''+''" using to_string_no(4) [of c n] by simp
  then show ?thesis using n digits_acc_to_string [of n] s by (simp add: parse_uint_def)
qed

lemma split_line: "split_once (CHR '' '') (to_string i @ '' '' @ name) = Some (to_string i, name)"
  using split_once_append [of "CHR '' ''" "to_string i" name] to_string_no(1) by force

lemma line_compatible_iff:
  assumes "i \<le> u64_max"
  shows "line_compatible vs (to_string i @ '' '' @ name) \<longleftrightarrow> i < length vs \<and> snd (vs ! i) = name"
  using split_line [of i name] parse_to_string [OF assms] by (simp add: line_compatible_def)

lemma lines_normalized:
  assumes "\<And>name. name \<in> snd ` set vs \<Longrightarrow> CHR 0x0A \<notin> set name \<and> CHR 0x0D \<notin> set name"
  shows "lines (variants_normalized vs) = map (\<lambda>(idx, name). to_string idx @ '' '' @ name) vs"
  using assms
proof (induction vs)
  case Nil
  then show ?case by (simp add: variants_normalized_def lines_def)
next
  case (Cons v vs)
  obtain i n where v: "v = (i, n)" by (cases v)
  have "CHR 0x0A \<notin> set (to_string i @ '' '' @ n)" "CHR 0x0D \<notin> set (to_string i @ '' '' @ n)"
    using to_string_no(2,3) [of _ i] Cons.prems [of n] v by auto
  from lines_line [OF this, of "variants_normalized vs"] Cons v show ?case
    by (simp add: variants_normalized_def)
qed

lemma lines_compatible_all: "lines_compatible vs ls \<longleftrightarrow> list_all (line_compatible vs) ls"
  by (induction ls) auto

text \<open>C28. The data written by a program fits a later program exactly when the list of variants of the later one
  extends the list of the earlier one: nothing reordered, removed, renamed or inserted before the end.\<close>

theorem compatible_iff_prefix:
  assumes "wf_variants old" and "wf_variants new"
  shows "compatible_with new (variants_normalized old) \<longleftrightarrow> prefix old new"
proof -
  have fold: "fst (old ! i) = i" if "i < length old" for i
    using wf_variants_nth [OF assms(1) that] .
  have fnew: "fst (new ! i) = i" if "i < length new" for i
    using wf_variants_nth [OF assms(2) that] .
  have L: "lines (variants_normalized old) = map (\<lambda>(idx, name). to_string idx @ '' '' @ name) old"
    by (rule lines_normalized) (use assms(1) in \<open>auto simp: wf_variants_def\<close>)
  have "compatible_with new (variants_normalized old) \<longleftrightarrow>
      (\<forall>i<length old. line_compatible new (to_string (fst (old ! i)) @ '' '' @ snd (old ! i)))"
    unfolding compatible_with_def lines_compatible_all L list_all_length by (simp add: case_prod_beta)
  also have "\<dots> \<longleftrightarrow> (\<forall>i<length old. line_compatible new (to_string i @ '' '' @ snd (old ! i)))"
    using fold by simp
  also have "\<dots> \<longleftrightarrow> (\<forall>i<length old. i < length new \<and> snd (new ! i) = snd (old ! i))"
    using assms(1) line_compatible_iff [of _ new] by (auto simp: wf_variants_def)
  also have "\<dots> \<longleftrightarrow> (\<forall>i<length old. i < length new \<and> new ! i = old ! i)"
    using fold fnew by (auto simp: prod_eq_iff)
  also have "\<dots> \<longleftrightarrow> prefix old new"
  proof
    assume "\<forall>i<length old. i < length new \<and> new ! i = old ! i"
    moreover from this have "length old \<le> length new" by (metis less_irrefl not_le)
    ultimately have "take (length old) new = old" by (intro nth_equalityI) simp_all
    then show "prefix old new" by (metis take_is_prefix)
  next
    assume "prefix old new"
    then show "\<forall>i<length old. i < length new \<and> new ! i = old ! i"
      by (auto simp: prefix_def nth_append)
  qed
  finally show ?thesis .
qed

theorem compatible_iff_prefix_witness:
  "compatible_with [(0, ''App''), (1, ''Auth'')] (variants_normalized [(0, ''App'')]) \<and>
   \<not> compatible_with [(0, ''Auth''), (1, ''App'')] (variants_normalized [(0, ''App'')])"
  using compatible_iff_prefix [of "[(0, ''App'')]" "[(0, ''App''), (1, ''Auth'')]"]
    compatible_iff_prefix [of "[(0, ''App'')]" "[(0, ''Auth''), (1, ''App'')]"]
  by (simp add: wf_variants_def u64_max_def)

text \<open>C38. Variants listed out of order pass the validation, but the text form they leave behind is refused at the next
  start of the same program.\<close>

theorem unordered_variants_refused:
  assumes "validate_indices vs = Ok ()" and "i < length vs" and "fst (vs ! i) \<le> u64_max"
    and "snd (vs ! fst (vs ! i)) \<noteq> snd (vs ! i)"
    and "\<forall>name\<in>snd ` set vs. CHR 0x0A \<notin> set name \<and> CHR 0x0D \<notin> set name"
  shows "\<not> compatible_with vs (variants_normalized vs)"
proof -
  have "\<not> line_compatible vs (to_string (fst (vs ! i)) @ '' '' @ snd (vs ! i))"
    using line_compatible_iff [OF assms(3)] assms(4) by simp
  moreover have "lines (variants_normalized vs) = map (\<lambda>(idx, name). to_string idx @ '' '' @ name) vs"
    by (rule lines_normalized) (use assms(5) in auto)
  ultimately show ?thesis
    using assms(2) unfolding compatible_with_def lines_compatible_all list_all_length
    by (auto simp: case_prod_beta)
qed

theorem unordered_variants_refused_witness:
  "validate_indices [(1, ''B''), (0, ''A'')] = Ok () \<and>
   \<not> compatible_with [(1, ''B''), (0, ''A'')] (variants_normalized [(1, ''B''), (0, ''A'')])"
proof -
  have "validate_indices [(1, ''B''), (0, ''A'')] = Ok ()" by (simp add: validate_indices_def)
  with unordered_variants_refused [OF this, of 0] show ?thesis by (simp add: u64_max_def)
qed

end
