(* ===== verification/Cache_Sm.thy ===== *)
theory Cache_Sm
  imports Kv_Handler Dlock_Handler Notify_Handler Cache_Variants Hql_Dir Raft_Log
begin

text \<open>
  The replicated state machine of the cache, \<^verbatim>\<open>store/state_machine/memory/state_machine.rs\<close>: the dispatch of log
  entries to the tasks of the caches, the locks and the notifications, and snapshots of all of them as
  bytes, which a node without a disk keeps in memory. The files of the snapshots of a node with a disk are not
  modelled.

  A message to a task is handled when it is sent. Every task works off its messages in order and alone owns its
  state, so the moment at which a task really handles a message shows only in the readings of its clock, and these
  are arbitrary: \<open>env\<close> has a clock for every task. A task that panics is reported as a panic of the sender, whose next
  send fails. The replies of the locks go over one-shot channels with fresh numbers. The encodings of bincode, the
  text form of a leader id and the membership are those of libraries: fields of \<open>cache_codec\<close> and a type parameter.
  The features \<^verbatim>\<open>dlock\<close>, \<^verbatim>\<open>listen_notify\<close> and \<^verbatim>\<open>counters\<close> are on.
\<close>

section \<open>Messages\<close>

datatype cache_request =
    CrGet nat string
  | CrPut nat string bytes "int option"
  | CrGetRemove nat string
  | CrReplace nat string bytes "int option"
  | CrDelete nat string
  | CrClear nat
  | CrClearCounters nat
  | CrClearAll
  | CrNotify notification
  | CrLock string "nat option"
  | CrLockAlive string nat
  | CrLockAwait string nat
  | CrLockRelease string nat
  | CrCounterGet nat string
  | CrCounterSet nat string int
  | CrCounterAdd nat string int
  | CrCounterDel nat string

datatype cache_response =
    CrEmpty
  | CrOk
  | CrLockState lock_state
  | CrValue "bytes option"
  | CrCounterValue "int option"

datatype 'm entry_payload = Blank | Normal cache_request | Membership 'm

record 'm cache_entry =
  ce_log_id :: log_id_rec
  ce_payload :: "'m entry_payload"

section \<open>State\<close>

type_synonym 'm stored_membership = "log_id_rec option \<times> 'm"

record 'm snapshot_meta =
  last_log_id :: "log_id_rec option"
  last_membership :: "'m stored_membership"
  snapshot_id :: string

type_synonym 'm snapshot_content = "'m snapshot_meta \<times> cache_snapshot list \<times> bytes"

record 'm cache_codec =
  ser_locks :: "lock_map \<Rightarrow> bytes option"
  de_locks :: "bytes \<Rightarrow> lock_map option"
  ser_content :: "'m snapshot_content \<Rightarrow> bytes option"
  de_content :: "bytes \<Rightarrow> 'm snapshot_content option"
  fmt_leader :: "nat \<Rightarrow> nat \<Rightarrow> string"

record cache_env =
  clk_kv :: "nat \<Rightarrow> nat \<Rightarrow> int"
  clk_locks :: "nat \<Rightarrow> int"
  rx_gone :: "nat \<Rightarrow> bool"
  listener_closed :: "nat \<Rightarrow> bool"
  listener_bounded :: "nat \<Rightarrow> bool"

record 'm cache_sm =
  sm_applied :: "log_id_rec option"
  sm_membership :: "'m stored_membership"
  sm_snapshot_mem :: "('m snapshot_meta \<times> bytes) option"
  sm_caches :: "(nat \<times> kv_state) list"
  sm_locks :: "nat \<times> dlock"
  sm_notify :: notify_state
  sm_chan :: nat

datatype sm_error = SmIO | SmDecode | SmEncode | SmCache string

section \<open>Sending to the tasks\<close>

definition from_task :: "(unit, 'a) res \<Rightarrow> (sm_error, 'a) res" where
  "from_task r = (case r of Ok a \<Rightarrow> Ok a | Err _ \<Rightarrow> Panic ''handler to always be running'' | Panic p \<Rightarrow> Panic p)"

definition send_cache :: "cache_env \<Rightarrow> nat \<Rightarrow> cache_request_handler \<Rightarrow> 'm cache_sm \<Rightarrow> (sm_error, kv_reply \<times> 'm cache_sm) res" where
  "send_cache env idx req sm =
     (if idx < length (sm_caches sm) then
        rbind (from_task (kv_step (clk_kv env idx) (Recv req) (sm_caches sm ! idx))) (\<lambda>(r, t).
          Ok (r, sm\<lparr>sm_caches := (sm_caches sm)[idx := t]\<rparr>))
      else Panic ''called unwrap on a None value'')"

definition send_locks :: "cache_env \<Rightarrow> lock_request \<Rightarrow> 'm cache_sm \<Rightarrow> (sm_error, 'm cache_sm) res" where
  "send_locks env req sm =
     rbind (from_task (dlock_step (rx_gone env) (clk_locks env) (LRecv req) (sm_locks sm))) (\<lambda>(_, t).
       Ok (sm\<lparr>sm_locks := t\<rparr>))"

text \<open>A request with a fresh one-shot channel, whose answer is awaited.\<close>

definition ask_locks :: "cache_env \<Rightarrow> (nat \<Rightarrow> lock_request) \<Rightarrow> 'm cache_sm \<Rightarrow> (sm_error, lock_answer \<times> 'm cache_sm) res" where
  "ask_locks env req sm =
     (let ch = sm_chan sm in
      rbind (send_locks env (req ch) (sm\<lparr>sm_chan := Suc ch\<rparr>)) (\<lambda>sm'.
        case map_of (dl_out (snd (sm_locks sm'))) ch of
          Some a \<Rightarrow> Ok (a, sm')
        | None \<Rightarrow> Panic ''to always get a response from dlock handler''))"

definition send_notify :: "cache_env \<Rightarrow> notification \<Rightarrow> 'm cache_sm \<Rightarrow> (sm_error, 'm cache_sm) res" where
  "send_notify env n sm =
     rbind (from_task (notify_step 0 (listener_bounded env) (listener_closed env, Notify n) (sm_notify sm))) (\<lambda>(_, t).
       Ok (sm\<lparr>sm_notify := t\<rparr>))"

section \<open>Applying entries\<close>

fun as_value :: "kv_reply \<Rightarrow> (sm_error, cache_response) res" where
  "as_value (RValue v) = Ok (CrValue v)"
| "as_value r = Panic ''kv handler to always answer''"

fun as_counter :: "kv_reply \<Rightarrow> (sm_error, cache_response) res" where
  "as_counter (RCounter v) = Ok (CrCounterValue (Some v))"
| "as_counter r = Panic ''kv handler to always answer''"

fun as_lock :: "lock_answer \<Rightarrow> (sm_error, cache_response) res" where
  "as_lock (AState s) = Ok (CrLockState s)"
| "as_lock a = Panic ''to always get a response from dlock handler''"

definition put_ok :: "(sm_error, kv_reply \<times> 'm cache_sm) res \<Rightarrow> (sm_error, cache_response \<times> 'm cache_sm) res" where
  "put_ok r = rbind r (\<lambda>(_, sm). Ok (CrOk, sm))"

definition reply_with :: "('r \<Rightarrow> (sm_error, cache_response) res) \<Rightarrow> (sm_error, 'r \<times> 'm cache_sm) res \<Rightarrow>
    (sm_error, cache_response \<times> 'm cache_sm) res" where
  "reply_with f r = rbind r (\<lambda>(a, sm). rbind (f a) (\<lambda>resp. Ok (resp, sm)))"

fun clear_all :: "cache_env \<Rightarrow> nat list \<Rightarrow> 'm cache_sm \<Rightarrow> (sm_error, 'm cache_sm) res" where
  "clear_all env [] sm = Ok sm"
| "clear_all env (idx # idxs) sm =
     rbind (send_cache env idx Clear sm) (\<lambda>(_, sm1).
     rbind (send_cache env idx ClearCounters sm1) (\<lambda>(_, sm2). clear_all env idxs sm2))"

fun apply_request :: "cache_env \<Rightarrow> log_id_rec \<Rightarrow> cache_request \<Rightarrow> 'm cache_sm \<Rightarrow> (sm_error, cache_response \<times> 'm cache_sm) res" where
  "apply_request env lid (CrGet idx key) sm = Panic ''a CacheRequest::Get should never come through the Raft''"
| "apply_request env lid (CrPut idx key v expires) sm = put_ok (send_cache env idx (Put key v expires) sm)"
| "apply_request env lid (CrGetRemove idx key) sm = reply_with as_value (send_cache env idx (GetRemove key) sm)"
| "apply_request env lid (CrReplace idx key v expires) sm =
     reply_with as_value (send_cache env idx (Replace key v expires) sm)"
| "apply_request env lid (CrDelete idx key) sm = put_ok (send_cache env idx (Delete key) sm)"
| "apply_request env lid (CrClear idx) sm = put_ok (send_cache env idx Clear sm)"
| "apply_request env lid (CrClearCounters idx) sm = put_ok (send_cache env idx ClearCounters sm)"
| "apply_request env lid CrClearAll sm =
     rbind (clear_all env [0..<length (sm_caches sm)] sm) (\<lambda>sm'. Ok (CrOk, sm'))"
| "apply_request env lid (CrNotify n) sm = rbind (send_notify env n sm) (\<lambda>sm'. Ok (CrOk, sm'))"
| "apply_request env lid (CrLock key tid) sm =
     reply_with as_lock (ask_locks env (\<lambda>ch. case tid of
        Some log_id \<Rightarrow> LAcquire key log_id ch
      | None \<Rightarrow> LLock key (lid_index lid) ch) sm)"
| "apply_request env lid (CrLockAwait key tid) sm = Panic ''Lock Awaits should never come through the Raft''"
| "apply_request env lid (CrLockRelease key tid) sm =
     rbind (send_locks env (LRelease key tid) sm) (\<lambda>sm'. Ok (CrLockState Released, sm'))"
| "apply_request env lid (CrLockAlive key tid) sm = reply_with as_lock (ask_locks env (\<lambda>ch. LAlive key tid ch) sm)"
| "apply_request env lid (CrCounterGet idx key) sm = Panic ''a CacheRequest::Get should never come through the Raft''"
| "apply_request env lid (CrCounterSet idx key v) sm = put_ok (send_cache env idx (CounterSet key v) sm)"
| "apply_request env lid (CrCounterAdd idx key v) sm = reply_with as_counter (send_cache env idx (CounterAdd key v) sm)"
| "apply_request env lid (CrCounterDel idx key) sm = put_ok (send_cache env idx (CounterDel key) sm)"

definition apply_entry :: "cache_env \<Rightarrow> 'm cache_entry \<Rightarrow> 'm cache_sm \<Rightarrow> (sm_error, cache_response \<times> 'm cache_sm) res" where
  "apply_entry env e sm = (case ce_payload e of
     Blank \<Rightarrow> Ok (CrEmpty, sm)
   | Normal req \<Rightarrow> apply_request env (ce_log_id e) req sm
   | Membership mem \<Rightarrow> Ok (CrEmpty, sm\<lparr>sm_membership := (Some (ce_log_id e), mem)\<rparr>))"

text \<open>The loop over the entries, with the local \<^verbatim>\<open>last_applied_log_id\<close>.\<close>

fun apply_entries :: "cache_env \<Rightarrow> 'm cache_entry list \<Rightarrow> log_id_rec option \<Rightarrow> 'm cache_sm \<Rightarrow>
    (sm_error, cache_response list \<times> log_id_rec option \<times> 'm cache_sm) res" where
  "apply_entries env [] lst sm = Ok ([], lst, sm)"
| "apply_entries env (e # es) lst sm =
     rbind (apply_entry env e sm) (\<lambda>(resp, sm1).
     rbind (apply_entries env es (Some (ce_log_id e)) sm1) (\<lambda>(resps, lst', sm2).
       Ok (resp # resps, lst', sm2)))"

definition apply_sm :: "cache_env \<Rightarrow> 'm cache_entry list \<Rightarrow> 'm cache_sm \<Rightarrow> (sm_error, cache_response list \<times> 'm cache_sm) res" where
  "apply_sm env es sm =
     rbind (apply_entries env es None sm) (\<lambda>(resps, lst, sm').
       Ok (resps, sm'\<lparr>sm_applied := lst\<rparr>))"

definition applied_state :: "'m cache_sm \<Rightarrow> log_id_rec option \<times> 'm stored_membership" where
  "applied_state sm = (sm_applied sm, sm_membership sm)"

section \<open>Snapshots\<close>

fun collect_caches :: "cache_env \<Rightarrow> nat list \<Rightarrow> 'm cache_sm \<Rightarrow> (sm_error, cache_snapshot list \<times> 'm cache_sm) res" where
  "collect_caches env [] sm = Ok ([], sm)"
| "collect_caches env (idx # idxs) sm =
     rbind (send_cache env idx SnapshotBuild sm) (\<lambda>(r, sm1).
       case r of
         RSnapshot snap \<Rightarrow> rbind (collect_caches env idxs sm1) (\<lambda>(snaps, sm2). Ok (snap # snaps, sm2))
       | _ \<Rightarrow> Panic ''to always receive an answer from kv handler'')"

definition show_int :: "int \<Rightarrow> string" where
  "show_int z = (if z < 0 then ''-'' @ to_string (nat (- z)) else to_string (nat z))"

definition make_snapshot_id :: "'m cache_codec \<Rightarrow> int \<Rightarrow> log_id_rec option \<Rightarrow> string" where
  "make_snapshot_id cod now lst = (case lst of
     Some l \<Rightarrow> show_int now @ ''-'' @ fmt_leader cod (lid_term l) (lid_node l) @ ''-'' @ to_string (lid_index l)
   | None \<Rightarrow> show_int now @ ''--'')"

definition build_snapshot_data :: "'m cache_codec \<Rightarrow> cache_env \<Rightarrow> int \<Rightarrow> 'm cache_sm \<Rightarrow>
    (sm_error, 'm snapshot_meta \<times> bytes \<times> 'm cache_sm) res" where
  "build_snapshot_data cod env now sm =
     rbind (collect_caches env [0..<length (sm_caches sm)] sm) (\<lambda>(caches, sm1).
     rbind (ask_locks env LSnapshotBuild sm1) (\<lambda>(a, sm2).
       case a of
         ALocks locks \<Rightarrow>
           rbind (unwrap (ser_locks cod locks)) (\<lambda>locks_bytes.
             let meta = \<lparr>last_log_id = sm_applied sm, last_membership = sm_membership sm,
                         snapshot_id = make_snapshot_id cod now (sm_applied sm)\<rparr>
             in case ser_content cod (meta, caches, locks_bytes) of
                  Some bs \<Rightarrow> Ok (meta, bs, sm2)
                | None \<Rightarrow> Err SmEncode)
       | _ \<Rightarrow> Panic ''to always receive an answer from locks handler''))"

fun install_caches :: "cache_env \<Rightarrow> nat \<Rightarrow> cache_snapshot list \<Rightarrow> 'm cache_sm \<Rightarrow> (sm_error, 'm cache_sm) res" where
  "install_caches env idx [] sm = Ok sm"
| "install_caches env idx (snap # snaps) sm =
     rbind (send_cache env idx (SnapshotInstall snap) sm) (\<lambda>(_, sm1). install_caches env (Suc idx) snaps sm1)"

definition update_state_machine :: "'m cache_codec \<Rightarrow> cache_env \<Rightarrow> 'm snapshot_content \<Rightarrow> 'm cache_sm \<Rightarrow> (sm_error, 'm cache_sm) res" where
  "update_state_machine cod env content sm = (case content of (meta, kvs, locks_bytes) \<Rightarrow>
     rbind (install_caches env 0 kvs sm) (\<lambda>sm1.
     rbind (unwrap (de_locks cod locks_bytes)) (\<lambda>locks.
     rbind (ask_locks env (\<lambda>ch. LSnapshotInstall locks ch) sm1) (\<lambda>(_, sm2).
       Ok (sm2\<lparr>sm_applied := last_log_id meta, sm_membership := last_membership meta\<rparr>)))))"

definition apply_snapshot_bytes :: "'m cache_codec \<Rightarrow> cache_env \<Rightarrow> 'm snapshot_meta \<Rightarrow> bytes \<Rightarrow> 'm cache_sm \<Rightarrow> (sm_error, 'm cache_sm) res" where
  "apply_snapshot_bytes cod env meta bs sm = (case de_content cod bs of
     None \<Rightarrow> Err SmDecode
   | Some (meta_snap, kvs, locks) \<Rightarrow>
       rbind (rassert (snapshot_id meta = snapshot_id meta_snap)) (\<lambda>_.
       rbind (rassert (last_log_id meta = last_log_id meta_snap)) (\<lambda>_.
       rbind (rassert (last_membership meta = last_membership meta_snap)) (\<lambda>_.
         update_state_machine cod env (meta_snap, kvs, locks) sm))))"

section \<open>Snapshots of a node without a disk\<close>

text \<open>The branches of the feature \<^verbatim>\<open>in-memory-snapshots\<close> for a node that keeps everything in memory.\<close>

definition build_snapshot_mem :: "'m cache_codec \<Rightarrow> cache_env \<Rightarrow> int \<Rightarrow> 'm cache_sm \<Rightarrow>
    (sm_error, ('m snapshot_meta \<times> bytes) \<times> 'm cache_sm) res" where
  "build_snapshot_mem cod env now sm =
     rbind (build_snapshot_data cod env now sm) (\<lambda>(meta, bs, sm').
       Ok ((meta, bs), sm'\<lparr>sm_snapshot_mem := Some (meta, bs)\<rparr>))"

definition begin_receiving_mem :: bytes where
  "begin_receiving_mem = []"

definition install_snapshot_mem :: "'m cache_codec \<Rightarrow> cache_env \<Rightarrow> 'm snapshot_meta \<Rightarrow> bytes \<Rightarrow> 'm cache_sm \<Rightarrow>
    (sm_error, unit) res \<times> 'm cache_sm" where
  "install_snapshot_mem cod env meta bs sm =
     (let sm1 = sm\<lparr>sm_snapshot_mem := Some (meta, bs)\<rparr> in
      case apply_snapshot_bytes cod env meta bs sm1 of
        Ok sm2 \<Rightarrow> (Ok (), sm2)
      | Err e \<Rightarrow> (Err e, sm1)
      | Panic p \<Rightarrow> (Panic p, sm1))"

definition get_current_snapshot_mem :: "'m cache_sm \<Rightarrow> ('m snapshot_meta \<times> bytes) option" where
  "get_current_snapshot_mem sm = sm_snapshot_mem sm"

end
