(* ===== verification/Kv_Handler_Props.thy ===== *)
theory Kv_Handler_Props
  imports Kv_Handler "HOL-Library.Multiset"
begin

text \<open>
  What the task of a cache satisfies. The invariant \<open>kv_ok\<close>, that the index of expiries mirrors the entries, is
  kept by every request and by the head of the loop, which therefore never fails its assertion; \<open>shed\<close> relates
  the entries to the ones before a removal of what has expired. The task then is an instance of \<open>refining_task\<close>
  whose abstract machine is a map with lazy expiry.
\<close>

section \<open>The invariant\<close>

text \<open>The index lists every key with an expiry under that expiry, once, and nothing else. Expiries are not
  before the epoch and counters are 64-bit numbers.\<close>

definition kv_ok :: "kv_state \<Rightarrow> bool" where
  "kv_ok st \<longleftrightarrow> bt_ok (kv_vals st) \<and> bt_ok (kv_counts st) \<and>
     bt.indexes (kv_exps st) (expiry_of (kv_vals st)) \<and>
     (\<forall>k e. expiry_of (kv_vals st) k = Some e \<longrightarrow> 0 \<le> e \<and> e \<le> i64_max) \<and>
     (\<forall>k c. map_of (kv_counts st) k = Some c \<longrightarrow> is_i64 c)"

definition expires_ok :: "int option \<Rightarrow> bool" where
  "expires_ok expires = (case expires of None \<Rightarrow> True | Some e \<Rightarrow> 0 \<le> e \<and> e \<le> i64_max)"

fun kv_accepts :: "kv_event \<Rightarrow> bool" where
  "kv_accepts (Recv (Put key v expires)) \<longleftrightarrow> expires_ok expires"
| "kv_accepts (Recv (Replace key v expires)) \<longleftrightarrow> expires_ok expires"
| "kv_accepts (Recv (CounterSet key c)) \<longleftrightarrow> is_i64 c"
| "kv_accepts (Recv (CounterAdd key c)) \<longleftrightarrow> is_i64 c"
| "kv_accepts (Recv (SnapshotInstall (vs, cs))) \<longleftrightarrow> bt_ok vs \<and> bt_ok cs \<and>
     list_all (\<lambda>(k, v, e). expires_ok e) vs \<and> list_all (\<lambda>(k, c). is_i64 c) cs"
| "kv_accepts ev \<longleftrightarrow> True"

definition clock_ok :: "(nat \<Rightarrow> int) \<Rightarrow> bool" where
  "clock_ok clk \<longleftrightarrow> mono clk \<and> (\<forall>i. 0 \<le> clk i \<and> clk i \<le> i64_max)"

named_theorems kv_simps \<open>the maps of a cache after an operation\<close>

lemma kv_okI:
  assumes "bt_ok (kv_vals st)" and "bt_ok (kv_counts st)"
    and "bt.indexes (kv_exps st) (expiry_of (kv_vals st))"
    and "\<And>k e. expiry_of (kv_vals st) k = Some e \<Longrightarrow> 0 \<le> e \<and> e \<le> i64_max"
    and "\<And>k c. map_of (kv_counts st) k = Some c \<Longrightarrow> is_i64 c"
  shows "kv_ok st"
  using assms by (auto simp: kv_ok_def)

lemma kv_okD:
  assumes "kv_ok st"
  shows "bt_ok (kv_vals st)" and "bt_ok (kv_counts st)"
    and "bt.indexes (kv_exps st) (expiry_of (kv_vals st))"
    and "expiry_of (kv_vals st) k = Some e \<Longrightarrow> 0 \<le> e \<and> e \<le> i64_max"
    and "map_of (kv_counts st) k = Some c \<Longrightarrow> is_i64 c"
  using assms by (auto simp: kv_ok_def)

lemma kv_ok_start: "kv_ok kv_start"
proof -
  have "expiry_of [] = Map.empty" by (simp add: expiry_of_def fun_eq_iff)
  then show ?thesis using bt.indexes_empty by (simp add: kv_ok_def kv_start_def)
qed

section \<open>The index under changes of the values\<close>

lemma expiry_of_insert [kv_simps]:
  "bt_ok vs \<Longrightarrow> expiry_of (bt_insert key (v, e) vs) = (expiry_of vs)(key := e)"
  by (simp add: expiry_of_def fun_eq_iff get_bt_insert)

lemma expiry_of_remove [kv_simps]:
  "bt_ok vs \<Longrightarrow> expiry_of (bt_remove key vs) = (expiry_of vs)(key := None)"
  by (simp add: expiry_of_def fun_eq_iff get_bt_remove)

lemma indexes_drop_expiry:
  assumes ix: "bt.indexes exps (expiry_of vs)"
  shows "bt.indexes (drop_expiry vs exps key) ((expiry_of vs)(key := None))"
proof (cases "expiry_of vs key")
  case None
  then have "(expiry_of vs)(key := None) = expiry_of vs" by auto
  with ix None show ?thesis by (simp add: drop_expiry_def)
next
  case (Some e)
  then obtain keys where "map_of exps e = Some keys"
    using bt.indexes_present [OF ix Some] by blast
  moreover from this have "bt.bucket exps e = keys" by (simp add: bt.bucket_def)
  ultimately show ?thesis
    using bt.indexes_drop [OF ix Some refl] Some
    by (simp add: drop_expiry_def remove_expiry_def Let_def split: if_splits)
qed

lemma indexes_register_opt:
  assumes "bt.indexes exps f" and "f key = None"
  shows "bt.indexes (register_opt exps key expires) (f(key := expires))"
proof (cases expires)
  case None
  with assms have "f(key := expires) = f" by auto
  with assms None show ?thesis by (simp add: register_opt_def)
next
  case (Some e)
  with bt.indexes_push [OF assms, of e] show ?thesis
    by (simp add: register_opt_def register_expiry_def bt.bucket_def)
qed

lemma indexes_fold:
  assumes "distinct (map fst xs)" and "bt.indexes exps f" and "\<And>k. k \<in> fst ` set xs \<Longrightarrow> f k = None"
  shows "bt.indexes (fold (\<lambda>(key, (_, expires)) exps. register_opt exps key expires) xs exps)
    (\<lambda>k. case map_of xs k of None \<Rightarrow> f k | Some (_, expires) \<Rightarrow> expires)"
  using assms
proof (induction xs arbitrary: exps f)
  case Nil
  then show ?case by simp
next
  case (Cons x xs)
  obtain k v e where x: "x = (k, v, e)" by (cases x)
  have none: "map_of xs k = None" using Cons.prems(1) x by (simp add: map_of_eq_None_iff)
  have ix: "bt.indexes (register_opt exps k e) (f(k := e))"
    using indexes_register_opt [OF Cons.prems(2)] Cons.prems(3) x by simp
  have "(f(k := e)) k' = None" if "k' \<in> fst ` set xs" for k'
    using Cons.prems(1,3) that x by auto
  from Cons.IH [OF _ ix this] Cons.prems(1) x
  have "bt.indexes (fold (\<lambda>(key, (_, expires)) exps. register_opt exps key expires) (x # xs) exps)
      (\<lambda>k'. case map_of xs k' of None \<Rightarrow> (f(k := e)) k' | Some (_, expires) \<Rightarrow> expires)"
    by simp
  moreover have "(\<lambda>k'. case map_of xs k' of None \<Rightarrow> (f(k := e)) k' | Some (_, expires) \<Rightarrow> expires)
      = (\<lambda>k'. case map_of (x # xs) k' of None \<Rightarrow> f k' | Some (_, expires) \<Rightarrow> expires)"
    using none x by (simp add: fun_eq_iff split: option.split)
  ultimately show ?case by (simp only:)
qed

lemma indexes_rebuild:
  assumes "bt_ok vs"
  shows "bt.indexes (rebuild_index vs) (expiry_of vs)"
proof -
  have "(\<lambda>k. case map_of vs k of None \<Rightarrow> Map.empty k | Some (_, expires) \<Rightarrow> expires) = expiry_of vs"
    by (simp add: expiry_of_def fun_eq_iff)
  then show ?thesis
    using indexes_fold [OF bt_ok_distinct [OF assms] bt.indexes_empty] by (simp add: rebuild_index_def)
qed

section \<open>Requests keep the invariant\<close>

lemma kv_ok_put:
  assumes "kv_ok st" and "expires_ok expires"
  shows "kv_ok (put_value key v expires st)"
proof (rule kv_okI)
  note ok = kv_okD [OF assms(1)]
  let ?st = "put_value key v expires st"
  show "bt_ok (kv_vals ?st)" "bt_ok (kv_counts ?st)"
    using ok by (simp_all add: put_value_def bt_ok_insert)
  have "bt.indexes (register_opt (drop_expiry (kv_vals st) (kv_exps st) key) key expires)
      ((expiry_of (kv_vals st))(key := None, key := expires))"
    by (rule indexes_register_opt [OF indexes_drop_expiry [OF ok(3)]]) simp
  then show "bt.indexes (kv_exps ?st) (expiry_of (kv_vals ?st))"
    using ok by (simp add: put_value_def kv_simps)
  show "0 \<le> e \<and> e \<le> i64_max" if "expiry_of (kv_vals ?st) k = Some e" for k e
    using that ok(1) ok(4) [of k e] assms(2)
    by (auto simp: put_value_def kv_simps expires_ok_def split: if_splits)
  show "is_i64 c" if "map_of (kv_counts ?st) k = Some c" for k c
    using that ok(5) by (simp add: put_value_def)
qed

lemma kv_ok_remove:
  assumes "kv_ok st"
  shows "kv_ok (remove_value key st)"
proof (rule kv_okI)
  note ok = kv_okD [OF assms(1)]
  let ?st = "remove_value key st"
  show "bt_ok (kv_vals ?st)" "bt_ok (kv_counts ?st)"
    using ok by (simp_all add: remove_value_def bt_ok_remove)
  show "bt.indexes (kv_exps ?st) (expiry_of (kv_vals ?st))"
    using indexes_drop_expiry [OF ok(3), of key] ok(1) by (simp add: remove_value_def kv_simps)
  show "0 \<le> e \<and> e \<le> i64_max" if "expiry_of (kv_vals ?st) k = Some e" for k e
    using that ok(1) ok(4) [of k e] by (simp add: remove_value_def kv_simps split: if_splits)
  show "is_i64 c" if "map_of (kv_counts ?st) k = Some c" for k c
    using that ok(5) by (simp add: remove_value_def)
qed

lemma saturating_add_is_i64: "is_i64 (saturating_add a b)"
  by (simp add: saturating_add_def is_i64_def i64_min_def i64_max_def)

lemma kv_ok_counts:
  assumes "kv_ok st" and "bt_ok cs" and "\<And>k c. map_of cs k = Some c \<Longrightarrow> is_i64 c"
  shows "kv_ok (st\<lparr>kv_counts := cs\<rparr>)"
  using assms by (auto simp: kv_ok_def)

lemma kv_ok_counter_insert:
  assumes "kv_ok st" and "is_i64 c"
  shows "kv_ok (st\<lparr>kv_counts := bt_insert key c (kv_counts st)\<rparr>)"
  using kv_okD(2,5) [OF assms(1)] assms(2)
  by (intro kv_ok_counts [OF assms(1)]) (auto simp: bt_ok_insert get_bt_insert split: if_splits)

lemma kv_ok_install:
  assumes "kv_accepts (Recv (SnapshotInstall (vs, cs)))"
  shows "kv_ok \<lparr>kv_vals = vs, kv_counts = cs, kv_exps = rebuild_index vs\<rparr>"
proof (rule kv_okI)
  show "0 \<le> e \<and> e \<le> i64_max"
    if "expiry_of (kv_vals \<lparr>kv_vals = vs, kv_counts = cs, kv_exps = rebuild_index vs\<rparr>) k = Some e" for k e
    using assms that
    by (auto simp: expiry_of_def list_all_iff expires_ok_def dest!: map_of_SomeD split: option.splits)
qed (use assms indexes_rebuild [of vs] in \<open>auto simp: list_all_iff dest!: map_of_SomeD\<close>)

lemma kv_ok_handle:
  assumes "kv_ok st" and "kv_accepts (Recv req)"
  shows "kv_ok (snd (handle_kv now req st))"
proof (cases req)
  case (SnapshotInstall snap)
  with assms(2) kv_ok_install show ?thesis by (cases snap; cases st) simp
next
  case Clear
  have "expiry_of [] = Map.empty" by (simp add: expiry_of_def fun_eq_iff)
  then show ?thesis using assms(1) Clear bt.indexes_empty by (simp add: kv_ok_def)
next
  case ClearCounters
  with assms(1) show ?thesis by (simp add: kv_ok_def)
next
  case (CounterAdd key delta)
  then show ?thesis
    using assms kv_ok_counter_insert [OF assms(1) saturating_add_is_i64]
      kv_ok_counter_insert [OF assms(1), of delta key]
    by (simp add: Let_def split: option.split)
next
  case (CounterDel key)
  then show ?thesis
    using kv_okD(2,5) [OF assms(1)]
    by (auto simp: bt_ok_remove get_bt_remove split: if_splits intro!: kv_ok_counts [OF assms(1)])
qed (use assms kv_ok_put kv_ok_remove kv_ok_counter_insert in simp_all)

section \<open>The head of the loop\<close>

text \<open>A map of values that has lost nothing but entries that had expired by \<open>t\<close>.\<close>

definition shed :: "int \<Rightarrow> (string \<rightharpoonup> bytes \<times> int option) \<Rightarrow> (string \<rightharpoonup> bytes \<times> int option) \<Rightarrow> bool" where
  "shed t A B \<longleftrightarrow> (\<forall>k. B k = A k \<or> B k = None \<and> live t (A k) = None)"

lemma shed_refl [simp]: "shed t A A"
  by (simp add: shed_def)

lemma live_mono: "live t e = None \<Longrightarrow> t \<le> t' \<Longrightarrow> live t' e = None"
  by (auto simp: live_def split: option.splits if_splits)

lemma shed_trans: "shed t A B \<Longrightarrow> shed t' B C \<Longrightarrow> t \<le> t' \<Longrightarrow> shed t' A C"
  unfolding shed_def by (metis live_mono)

lemma shed_mono: "shed t A B \<Longrightarrow> t \<le> t' \<Longrightarrow> shed t' A B"
  unfolding shed_def by (metis live_mono)

lemma live_expiry: "expiry_of vs k = Some e \<Longrightarrow> live t (map_of vs k) = (if e \<le> t then None else map_option fst (map_of vs k))"
  by (auto simp: expiry_of_def live_def split: option.splits)

lemma live_no_expiry: "expiry_of vs k = None \<Longrightarrow> live t (map_of vs k) = map_option fst (map_of vs k)"
  by (auto simp: expiry_of_def live_def split: option.splits)

lemma remove_due_spec:
  assumes "bt_ok vs" and "distinct keys" and "\<And>k. k \<in> set keys \<Longrightarrow> expiry_of vs k = Some e"
  shows "\<exists>vs'. remove_due e keys vs = Ok vs' \<and> bt_ok vs' \<and>
    (\<forall>k. map_of vs' k = (if k \<in> set keys then None else map_of vs k))"
  using assms
proof (induction keys arbitrary: vs)
  case Nil
  then show ?case by simp
next
  case (Cons key keys)
  have "expiry_of (bt_remove key vs) k = Some e" if "k \<in> set keys" for k
    using Cons.prems that by (auto simp: expiry_of_remove)
  from Cons.IH [OF bt_ok_remove [OF Cons.prems(1)] _ this] Cons.prems(2)
  obtain vs' where "remove_due e keys (bt_remove key vs) = Ok vs'" "bt_ok vs'"
    "\<And>k. map_of vs' k = (if k \<in> set keys then None else map_of (bt_remove key vs) k)"
    by auto
  with Cons.prems show ?case by (auto simp: get_bt_remove)
qed

lemma sub_i64_nonneg: "0 \<le> a \<Longrightarrow> a \<le> i64_max \<Longrightarrow> 0 \<le> b \<Longrightarrow> b \<le> i64_max \<Longrightarrow> sub_i64 a b = Ok (a - b)"
  by (simp add: sub_i64_def is_i64_def i64_min_def i64_max_def)

lemma pop_first_spec:
  assumes ok: "kv_ok st" and first: "bt_first (kv_exps st) = Some (e, keys)" and due: "e \<le> t"
  shows "\<exists>vs. remove_due e keys (kv_vals st) = Ok vs \<and>
    kv_ok (st\<lparr>kv_vals := vs, kv_exps := tl (kv_exps st)\<rparr>) \<and> shed t (map_of (kv_vals st)) (map_of vs)"
proof -
  note D = kv_okD [OF ok]
  have keys: "map_of (kv_exps st) e = Some keys"
    using bt.least_get [OF bt.indexes_ok [OF D(3)] first] .
  have b: "distinct keys" "set keys = {k. expiry_of (kv_vals st) k = Some e}"
    using bt.indexes_bucket [OF D(3) keys] by simp_all
  obtain vs where vs: "remove_due e keys (kv_vals st) = Ok vs" "bt_ok vs"
    "\<And>k. map_of vs k = (if k \<in> set keys then None else map_of (kv_vals st) k)"
    using remove_due_spec [OF D(1) b(1), of e] b(2) by auto
  have ex: "expiry_of vs = (\<lambda>k. if k \<in> set keys then None else expiry_of (kv_vals st) k)"
    using vs(3) by (simp add: expiry_of_def fun_eq_iff)
  have "kv_ok (st\<lparr>kv_vals := vs, kv_exps := tl (kv_exps st)\<rparr>)"
  proof (rule kv_okI)
    show "bt.indexes (kv_exps (st\<lparr>kv_vals := vs, kv_exps := tl (kv_exps st)\<rparr>))
        (expiry_of (kv_vals (st\<lparr>kv_vals := vs, kv_exps := tl (kv_exps st)\<rparr>)))"
      using bt.indexes_pop [OF D(3) keys] by (simp add: ex bt_remove_first [OF first])
    show "0 \<le> e' \<and> e' \<le> i64_max"
      if "expiry_of (kv_vals (st\<lparr>kv_vals := vs, kv_exps := tl (kv_exps st)\<rparr>)) k = Some e'" for k e'
      using that D(4) [of k e'] by (simp add: ex split: if_splits)
  qed (use vs(2) D(2,5) in simp_all)
  moreover have "shed t (map_of (kv_vals st)) (map_of vs)"
    using b(2) due by (simp add: shed_def vs(3) live_expiry)
  ultimately show ?thesis using vs(1) by blast
qed

lemma loop_head_cases:
  assumes ok: "kv_ok st" and t: "0 \<le> t1" "t1 \<le> i64_max" "0 \<le> t2" "t2 \<le> i64_max"
  obtains (popped) st' where "loop_head t1 t2 st = Ok (Popped st')" and "kv_ok st'"
      and "shed t1 (map_of (kv_vals st)) (map_of (kv_vals st'))" and "kv_counts st' = kv_counts st"
      and "length (kv_exps st) = Suc (length (kv_exps st'))"
  | (slept) d n where "loop_head t1 t2 st = Ok (SleepExp d n)" and "n \<le> 2"
      and "\<And>k e. expiry_of (kv_vals st) k = Some e \<Longrightarrow> t1 < e"
proof (cases "bt_first (kv_exps st)")
  case None
  have "expiry_of (kv_vals st) k = None" for k
    using bt.indexes_least_None [OF kv_okD(3) [OF ok] None] .
  with None show thesis by (intro slept [of "Secs u64_max" 0]) (simp_all add: loop_head_def)
next
  case (Some x)
  obtain e keys where x: "x = (e, keys)" by (cases x)
  note first = Some [unfolded x]
  have keys: "map_of (kv_exps st) e = Some keys"
    using bt.least_get [OF bt.indexes_ok [OF kv_okD(3) [OF ok]] first] .
  then obtain k where "k \<in> set keys"
    using bt.bucket_nonempty [OF kv_okD(3) [OF ok] keys] by (cases keys) auto
  then have "expiry_of (kv_vals st) k = Some e"
    using bt.indexes_bucket [OF kv_okD(3) [OF ok] keys] by simp
  then have e: "0 \<le> e" "e \<le> i64_max" using kv_okD(4) [OF ok] by auto
  show thesis
  proof (cases "e \<le> t1")
    case True
    obtain vs where vs: "remove_due e keys (kv_vals st) = Ok vs"
        "kv_ok (st\<lparr>kv_vals := vs, kv_exps := tl (kv_exps st)\<rparr>)" "shed t1 (map_of (kv_vals st)) (map_of vs)"
      using pop_first_spec [OF ok first True] by blast
    moreover have "kv_exps st \<noteq> []" using first by auto
    ultimately show thesis
      using first True e t
      by (intro popped [of "st\<lparr>kv_vals := vs, kv_exps := tl (kv_exps st)\<rparr>"])
        (auto simp: loop_head_def sub_i64_nonneg)
  next
    case False
    show thesis
    proof (rule slept)
      show "loop_head t1 t2 st = Ok (SleepExp (Micros (as_u64 (e - t2))) 2)"
        using first False e t by (simp add: loop_head_def sub_i64_nonneg)
      show "t1 < e'" if "expiry_of (kv_vals st) k' = Some e'" for k' e'
        using bt.indexes_least [OF kv_okD(3) [OF ok] first that] False by simp
    qed simp
  qed
qed

lemma clock_okD:
  assumes "clock_ok clk"
  shows "0 \<le> clk i" and "clk i \<le> i64_max" and "i \<le> j \<Longrightarrow> clk i \<le> clk j"
  using assms by (auto simp: clock_ok_def mono_def)

lemma head_loop_spec:
  assumes "kv_ok st" and clk: "clock_ok clk"
  shows "\<exists>d j st'. head_loop clk i st = Ok (d, j, st') \<and> kv_ok st' \<and> i \<le> j \<and>
    j \<le> i + length (kv_exps st) + 2 \<and> shed (clk j) (map_of (kv_vals st)) (map_of (kv_vals st')) \<and>
    kv_counts st' = kv_counts st \<and> (\<forall>k e. expiry_of (kv_vals st') k = Some e \<longrightarrow> clk i < e)"
  using assms(1)
proof (induction "length (kv_exps st)" arbitrary: i st rule: less_induct)
  case less
  note t = clock_okD [OF clk]
  show ?case
  proof (cases rule: loop_head_cases [OF less.prems t(1,2,1,2), of i "Suc i"])
    case (1 st')
    then obtain d j st'' where IH: "head_loop clk (Suc i) st' = Ok (d, j, st'')" "kv_ok st''" "Suc i \<le> j"
        "j \<le> Suc i + length (kv_exps st') + 2"
        "shed (clk j) (map_of (kv_vals st')) (map_of (kv_vals st''))" "kv_counts st'' = kv_counts st'"
        "\<And>k e. expiry_of (kv_vals st'') k = Some e \<Longrightarrow> clk (Suc i) < e"
      using less.hyps [of st' "Suc i"] by auto
    have "clk i < e" if "expiry_of (kv_vals st'') k = Some e" for k e
      using IH(7) [OF that] t(3) [of i "Suc i"] by simp
    moreover have "shed (clk j) (map_of (kv_vals st)) (map_of (kv_vals st''))"
      using shed_trans [OF 1(3) IH(5)] t(3) [of i j] IH(3) by simp
    ultimately show ?thesis
      using 1 IH(1-4,6) by (simp add: head_loop.simps [of clk i st])
  next
    case (2 d n)
    then show ?thesis
      using less.prems by (simp add: head_loop.simps [of clk i st])
  qed
qed

section \<open>The cache as a map with lazy expiry\<close>

text \<open>The abstract cache never removes anything by itself: an entry that has expired is only not shown. The
  state is the last time seen, the entries and the counters.\<close>

type_synonym kv_abs = "int \<times> (string \<rightharpoonup> bytes \<times> int option) \<times> (string \<rightharpoonup> int)"

fun lazy_spec :: "int \<Rightarrow> cache_request_handler \<Rightarrow> (string \<rightharpoonup> bytes \<times> int option) \<Rightarrow> (string \<rightharpoonup> int) \<Rightarrow> kv_reply \<Rightarrow>
    (string \<rightharpoonup> bytes \<times> int option) \<Rightarrow> (string \<rightharpoonup> int) \<Rightarrow> bool" where
  "lazy_spec t (Get k) A C r A' C' \<longleftrightarrow> r = RValue (live t (A k)) \<and> A' = A \<and> C' = C"
| "lazy_spec t (GetRemove k) A C r A' C' \<longleftrightarrow> r = RValue (live t (A k)) \<and> A' = A(k := None) \<and> C' = C"
| "lazy_spec t (Put k v e) A C r A' C' \<longleftrightarrow> r = RNone \<and> A' = A(k \<mapsto> (v, e)) \<and> C' = C"
| "lazy_spec t (Replace k v e) A C r A' C' \<longleftrightarrow>
     (\<exists>old. r = RValue old \<and> (old = map_option fst (A k) \<or> old = None \<and> live t (A k) = None)) \<and>
     A' = A(k \<mapsto> (v, e)) \<and> C' = C"
| "lazy_spec t (Delete k) A C r A' C' \<longleftrightarrow> r = RNone \<and> A' = A(k := None) \<and> C' = C"
| "lazy_spec t Clear A C r A' C' \<longleftrightarrow> r = RNone \<and> A' = Map.empty \<and> C' = C"
| "lazy_spec t ClearCounters A C r A' C' \<longleftrightarrow> r = RNone \<and> A' = A \<and> C' = Map.empty"
| "lazy_spec t SnapshotBuildCacheOnly A C r A' C' \<longleftrightarrow>
     (\<exists>vs. r = RKvs (map (\<lambda>(k, (v, _)). (k, v)) vs) \<and> shed t A (map_of vs)) \<and> A' = A \<and> C' = C"
| "lazy_spec t SnapshotBuild A C r A' C' \<longleftrightarrow>
     (\<exists>vs cs. r = RSnapshot (vs, cs) \<and> shed t A (map_of vs) \<and> map_of cs = C) \<and> A' = A \<and> C' = C"
| "lazy_spec t (SnapshotInstall (vs, cs)) A C r A' C' \<longleftrightarrow> r = RAck \<and> A' = map_of vs \<and> C' = map_of cs"
| "lazy_spec t (CounterGet k) A C r A' C' \<longleftrightarrow> r = RCounterOpt (C k) \<and> A' = A \<and> C' = C"
| "lazy_spec t (CounterSet k c) A C r A' C' \<longleftrightarrow> r = RNone \<and> A' = A \<and> C' = C(k \<mapsto> c)"
| "lazy_spec t (CounterAdd k d) A C r A' C' \<longleftrightarrow>
     (let c = (case C k of None \<Rightarrow> d | Some c \<Rightarrow> saturating_add c d)
      in r = RCounter c \<and> A' = A \<and> C' = C(k \<mapsto> c))"
| "lazy_spec t (CounterDel k) A C r A' C' \<longleftrightarrow> r = RNone \<and> A' = A \<and> C' = C(k := None)"

fun kv_spec :: "(nat \<Rightarrow> int) \<Rightarrow> kv_event \<Rightarrow> kv_abs \<Rightarrow> kv_reply \<Rightarrow> kv_abs \<Rightarrow> bool" where
  "kv_spec clk ev (t, A, C) r (t', A', C') \<longleftrightarrow> t \<le> t' \<and> t' \<in> range clk \<and> (case ev of
     Elapsed \<Rightarrow> r = RNone \<and> A' = A \<and> C' = C
   | Recv req \<Rightarrow> lazy_spec t' req A C r A' C')"

fun kv_rel :: "(nat \<Rightarrow> int) \<Rightarrow> nat \<times> kv_state \<Rightarrow> kv_abs \<Rightarrow> bool" where
  "kv_rel clk (i, st) (t, A, C) \<longleftrightarrow>
     t \<le> clk i \<and> shed t A (map_of (kv_vals st)) \<and> map_of (kv_counts st) = C"

lemma live_None [simp]: "live t None = None"
  by (simp add: live_def)

lemma shed_live: "shed t A B \<Longrightarrow> live t (B k) = live t (A k)"
  unfolding shed_def by (metis live_None)

lemma shed_upd: "shed t A B \<Longrightarrow> shed t (A(k := x)) (B(k := x))"
  by (simp add: shed_def)

lemma shed_old: "shed t A B \<Longrightarrow> map_option fst (B k) = map_option fst (A k) \<or> B k = None \<and> live t (A k) = None"
  unfolding shed_def by metis

lemma handle_refines:
  assumes ok: "kv_ok st" and sh: "shed t A (map_of (kv_vals st))"
  shows "\<exists>A' C'. lazy_spec t req A (map_of (kv_counts st)) (fst (handle_kv t req st)) A' C' \<and>
    shed t A' (map_of (kv_vals (snd (handle_kv t req st)))) \<and>
    map_of (kv_counts (snd (handle_kv t req st))) = C'"
proof -
  note D = kv_okD(1,2) [OF ok]
  have ins: "map_of (bt_insert k x (kv_vals st)) = (map_of (kv_vals st))(k \<mapsto> x)" for k x
    using D(1) by (simp add: fun_eq_iff get_bt_insert)
  have rem: "map_of (bt_remove k (kv_vals st)) = (map_of (kv_vals st))(k := None)" for k
    using D(1) by (simp add: fun_eq_iff get_bt_remove)
  have cins: "map_of (bt_insert k x (kv_counts st)) = (map_of (kv_counts st))(k \<mapsto> x)" for k x
    using D(2) by (simp add: fun_eq_iff get_bt_insert)
  have crem: "map_of (bt_remove k (kv_counts st)) = (map_of (kv_counts st))(k := None)" for k
    using D(2) by (simp add: fun_eq_iff get_bt_remove)
  show ?thesis
  proof (cases req)
    case (SnapshotInstall snap)
    then show ?thesis by (cases snap) simp
  next
    case (Replace k v e)
    then show ?thesis
      using sh shed_old [OF sh, of k] by (auto simp: put_value_def ins shed_upd)
  qed (use sh in \<open>auto simp: put_value_def remove_value_def ins rem cins crem shed_upd Let_def
      shed_live [OF sh]\<close>)
qed

lemma kv_step_total:
  assumes clk: "clock_ok clk" and ok: "kv_ok (snd s)" and acc: "kv_accepts ev"
  shows "\<exists>r s'. kv_step clk ev s = Ok (r, s') \<and> kv_ok (snd s')"
proof -
  obtain i st where s: "s = (i, st)" by (cases s)
  obtain d j st' where h: "head_loop clk i st = Ok (d, j, st')" "kv_ok st'"
    using head_loop_spec [OF _ clk, of st i] ok s by auto
  show ?thesis
  proof (cases ev)
    case (Recv req)
    then show ?thesis
      using h s acc kv_ok_handle [OF h(2), of req "clk j"] by (simp add: kv_step_def case_prod_beta Let_def)
  next
    case Elapsed
    with h s show ?thesis by (simp add: kv_step_def)
  qed
qed

lemma kv_step_refines:
  assumes clk: "clock_ok clk" and ok: "kv_ok (snd s)" and acc: "kv_accepts ev" and rel: "kv_rel clk s a"
    and step: "kv_step clk ev s = Ok (r, s')"
  shows "\<exists>a'. kv_spec clk ev a r a' \<and> kv_rel clk s' a'"
proof -
  obtain i st where s: "s = (i, st)" by (cases s)
  obtain t A C where a: "a = (t, A, C)" by (cases a)
  obtain d j st' where h: "head_loop clk i st = Ok (d, j, st')" "kv_ok st'" "i \<le> j"
      "shed (clk j) (map_of (kv_vals st)) (map_of (kv_vals st'))" "kv_counts st' = kv_counts st"
    using head_loop_spec [OF _ clk, of st i] ok s by auto
  have t: "t \<le> clk j" "clk j \<le> clk (Suc j)"
    using rel s a clock_okD(3) [OF clk, of i j] clock_okD(3) [OF clk, of j "Suc j"] h(3) by auto
  have sh: "shed (clk j) A (map_of (kv_vals st'))"
    using shed_trans [OF _ h(4) t(1)] rel s a by simp
  show ?thesis
  proof (cases ev)
    case Elapsed
    then show ?thesis
      using step h rel s a t sh by (intro exI [of _ "(clk j, A, C)"]) (auto simp: kv_step_def)
  next
    case (Recv req)
    obtain A' C' where "lazy_spec (clk j) req A C (fst (handle_kv (clk j) req st')) A' C'"
        "shed (clk j) A' (map_of (kv_vals (snd (handle_kv (clk j) req st'))))"
        "map_of (kv_counts (snd (handle_kv (clk j) req st'))) = C'"
      using handle_refines [OF h(2) sh, of req] rel s a h(5) by auto
    then show ?thesis
      using step h s a t Recv
      by (intro exI [of _ "(clk j, A', C')"]) (auto simp: kv_step_def case_prod_beta Let_def)
  qed
qed

section \<open>The task\<close>

definition kv_ready :: "(nat \<Rightarrow> int) \<Rightarrow> nat \<times> kv_state \<Rightarrow> bool" where
  "kv_ready clk s \<longleftrightarrow> clock_ok clk \<and> kv_ok (snd s)"

interpretation kv_task: refining_task "kv_ready clk" kv_accepts "kv_step clk" "kv_rel clk" "kv_spec clk" for clk
proof unfold_locales
  fix s m
  assume "kv_ready clk s" and "kv_accepts m"
  then show "\<exists>r s'. kv_step clk m s = Ok (r, s') \<and> kv_ready clk s'"
    using kv_step_total [of clk s m] by (auto simp: kv_ready_def)
next
  fix s m a r s'
  assume "kv_ready clk s" and "kv_accepts m" and "kv_rel clk s a" and "kv_step clk m s = Ok (r, s')"
  then show "\<exists>a'. kv_spec clk m a r a' \<and> kv_rel clk s' a'"
    using kv_step_refines [of clk s m a r s'] by (auto simp: kv_ready_def)
qed


definition ex_clk :: "nat \<Rightarrow> int" where
  "ex_clk i = (if i < 100 then int i else 100)"

lemma ex_clk_ok: "clock_ok ex_clk"
  by (auto simp: clock_ok_def ex_clk_def mono_def i64_max_def)

definition ex_evs :: "kv_event list" where
  "ex_evs = [Recv (Put ''a'' [1] (Some 8)), Recv (Get ''a''), Elapsed, Recv (CounterAdd ''n'' 5),
     Recv (Get ''a''), Recv (Replace ''b'' [2] None), Recv (CounterAdd ''n'' i64_max), Recv (GetRemove ''b'')]"

lemma ex_evs_accepted: "list_all kv_accepts ex_evs"
  by (simp add: ex_evs_def expires_ok_def i64_max_def is_i64_def i64_min_def)



definition ex_kv :: kv_state where
  "ex_kv = snd (handle_kv 0 (Put ''c'' [3] None) (snd (handle_kv 0 (Put ''b'' [2] (Some 9))
     (snd (handle_kv 0 (Put ''a'' [1] (Some 4)) kv_start)))))"

lemma ex_kv_ok: "kv_ok ex_kv"
  unfolding ex_kv_def
  by (intro kv_ok_handle kv_ok_start) (simp_all add: expires_ok_def i64_max_def)

lemma ex_kv_simps:
  "kv_vals ex_kv = [(''a'', [1], Some 4), (''b'', [2], Some 9), (''c'', [3], None)]"
  "kv_exps ex_kv = [(4, [''a'']), (9, [''b''])]"
  by (simp_all add: ex_kv_def kv_start_def put_value_def register_opt_def register_expiry_def
    drop_expiry_def expiry_of_def)




section \<open>The index\<close>

lemma indexes_keys:
  assumes "bt.indexes m f" and "bt.indexes m' f"
  shows "map fst m = map fst m'"
proof -
  have "fst ` set m \<subseteq> fst ` set m'" if ix: "bt.indexes m f" and ix': "bt.indexes m' f" for m m'
  proof
    fix e
    assume "e \<in> fst ` set m"
    then obtain ks where ks: "map_of m e = Some ks" by (metis map_of_eq_None_iff not_None_eq)
    then obtain k where "k \<in> set ks" using bt.bucket_nonempty [OF ix ks] by (cases ks) auto
    then have "f k = Some e" using bt.indexes_bucket [OF ix ks] by simp
    then obtain ks' where "map_of m' e = Some ks'" using bt.indexes_present [OF ix'] by blast
    then show "e \<in> fst ` set m'" by (metis map_of_eq_None_iff option.distinct(1))
  qed
  from this [OF assms] this [OF assms(2,1)] have "fst ` set m' = fst ` set m" by blast
  then show ?thesis
    using bt.indexes_ok [OF assms(1)] bt.indexes_ok [OF assms(2)] unfolding bt_ok_def
    by (intro strict_sorted_equal) simp_all
qed



section \<open>The length of the sleep\<close>

text \<open>C35. The head of the loop reads the clock twice, once to decide whether the first expiry is due and once to
  compute the sleep. When the expiry passes between the two readings, the negative difference is cast to a
  64-bit unsigned number and the task goes to sleep for more than 200000 years: what has expired stays in memory
  until the next request arrives.\<close>

theorem kv_sleep_wraps:
  assumes "bt_first (kv_exps st) = Some (e, keys)" and "0 \<le> t1" and "t1 < e" and "e < t2" and "t2 \<le> i64_max"
  shows "\<exists>n. loop_head t1 t2 st = Ok (SleepExp (Micros n) 2) \<and> 2 ^ 63 \<le> n \<and>
    200000 * 365 * 24 * 60 * 60 * 1000000 < n"
proof -
  have "(sub_i64 e t1 :: (unit, int) res) = Ok (e - t1)" "(sub_i64 e t2 :: (unit, int) res) = Ok (e - t2)"
    using assms by (simp_all add: sub_i64_nonneg)
  moreover have "(e - t2) mod 2 ^ 64 = e - t2 + 2 ^ 64"
  proof -
    have "(e - t2 + 2 ^ 64) mod 2 ^ 64 = e - t2 + 2 ^ 64"
      by (rule mod_pos_pos_trivial) (use assms in \<open>simp_all add: i64_max_def\<close>)
    then show ?thesis by (simp only: mod_add_self2)
  qed
  moreover have "2 ^ 63 \<le> e - t2 + 2 ^ 64"
    using assms by (simp add: i64_max_def)
  ultimately show ?thesis
    using assms by (simp add: loop_head_def as_u64_def le_nat_iff nat_less_iff)
qed

theorem kv_sleep_wraps_witness:
  "\<exists>n. loop_head 3 6 ex_kv = Ok (SleepExp (Micros n) 2) \<and> 2 ^ 63 \<le> n \<and>
     200000 * 365 * 24 * 60 * 60 * 1000000 < n"
  using kv_sleep_wraps [of ex_kv 4 "[''a'']" 3 6] by (simp add: ex_kv_simps i64_max_def)

end
