(* ===== verification/Dlock_Handler_Props.thy ===== *)
theory Dlock_Handler_Props
  imports Dlock_Handler
begin

text \<open>
  What the task of the distributed locks satisfies. The collection \<open>dl_simps\<close> says what each operation does to
  the lock and to the waiting clients of a key; \<open>dl_ok\<close> is the invariant, and the task an instance of
  \<open>handler_task\<close>. On top of that: mutual exclusion within a lease (\<open>holds\<close>), the progress of the queue under
  the periodic sweep, and two situations in which the task does not do what its comments say.
\<close>

section \<open>Views of the two maps\<close>

named_theorems dl_simps \<open>the lock and the waiters of a key after an operation\<close>

definition lock_of :: "dlock \<Rightarrow> string \<Rightarrow> lock_queue option" where
  "lock_of st key = map_of (dl_locks st) key"

definition waiting :: "dlock \<Rightarrow> string \<Rightarrow> (nat \<times> nat) list" where
  "waiting st key = (case map_of (dl_waiters st) key of None \<Rightarrow> [] | Some l \<Rightarrow> l)"

definition maps_ok :: "dlock \<Rightarrow> bool" where
  "maps_ok st \<longleftrightarrow> distinct (map fst (dl_locks st)) \<and> distinct (map fst (dl_waiters st))"

text \<open>The lock a promotion leaves behind, and the tickets it answers.\<close>

definition promoted :: "int \<Rightarrow> lock_queue \<Rightarrow> lock_queue" where
  "promoted now lock =
     (if is_free lock now \<and> lqueue lock \<noteq> []
      then \<lparr>current_ticket = Some (hd (lqueue lock)), lease_exp = now + lock_valid_seconds, lqueue = tl (lqueue lock)\<rparr>
      else lock)"

definition answers :: "(nat \<Rightarrow> bool) \<Rightarrow> (nat \<times> nat) list \<Rightarrow> lock_state \<Rightarrow> (nat \<times> lock_answer) list" where
  "answers gone acks v = map (\<lambda>(_, ch). (ch, AState v)) (filter (\<lambda>(_, ch). \<not> gone ch) acks)"

lemma tell_simps [dl_simps]:
  "lock_of (tell gone acks v st) = lock_of st"
  "waiting (tell gone acks v st) = waiting st"
  "maps_ok (tell gone acks v st) = maps_ok st"
  "dl_out (tell gone acks v st) = dl_out st @ answers gone acks v"
  by (simp_all add: tell_def lock_of_def waiting_def maps_ok_def answers_def fun_eq_iff)

lemma set_lock_simps [dl_simps]:
  "lock_of (set_lock key lock st) = (lock_of st)(key \<mapsto> lock)"
  "waiting (set_lock key lock st) = waiting st"
  "maps_ok st \<Longrightarrow> maps_ok (set_lock key lock st)"
  "dl_out (set_lock key lock st) = dl_out st"
  by (simp_all add: set_lock_def lock_of_def waiting_def maps_ok_def fun_eq_iff update_conv' distinct_update)

lemma waiters_update [dl_simps]:
  "lock_of (set_waiters key l st) = lock_of st"
  "waiting (set_waiters key l st) = (waiting st)(key := l)"
  "maps_ok st \<Longrightarrow> maps_ok (set_waiters key l st)"
  "dl_out (set_waiters key l st) = dl_out st"
  by (simp_all add: set_waiters_def lock_of_def waiting_def maps_ok_def fun_eq_iff update_conv' distinct_update)

lemma promote_alt:
  "promote gone now key lock st =
     (if is_free lock now \<and> lqueue lock \<noteq> [] then
        (let st1 = set_lock key (promoted now lock) st; front = hd (lqueue lock)
         in if map_of (dl_waiters st) key = None then st1
            else tell gone (filter (\<lambda>e. fst e = front) (waiting st key)) (Locked front)
              (set_waiters key (filter (\<lambda>e. fst e \<noteq> front) (waiting st key)) st1))
      else set_lock key lock st)"
  by (simp add: promote_def promoted_def Let_def waiting_def dl_simps split: option.split)

lemma not_waiting: "map_of (dl_waiters st) key = None \<Longrightarrow> waiting st key = []"
  by (simp add: waiting_def)

lemma promote_simps [dl_simps]:
  "lock_of (promote gone now key lock st) = (lock_of st)(key \<mapsto> promoted now lock)"
  "waiting (promote gone now key lock st) =
     (if is_free lock now \<and> lqueue lock \<noteq> []
      then (waiting st)(key := filter (\<lambda>e. fst e \<noteq> hd (lqueue lock)) (waiting st key)) else waiting st)"
  "dl_out (promote gone now key lock st) = dl_out st @
     (if is_free lock now \<and> lqueue lock \<noteq> []
      then answers gone (filter (\<lambda>e. fst e = hd (lqueue lock)) (waiting st key)) (Locked (hd (lqueue lock)))
      else [])"
  by (auto simp: promote_alt Let_def dl_simps not_waiting answers_def promoted_def fun_eq_iff)

lemma maps_ok_promote [dl_simps]: "maps_ok st \<Longrightarrow> maps_ok (promote gone now key lock st)"
  by (simp add: promote_alt Let_def dl_simps)

lemma answer_Ok [dl_simps]:
  "answer gone ch v st = Ok st' \<longleftrightarrow> \<not> gone ch \<and> st' = st\<lparr>dl_out := dl_out st @ [(ch, v)]\<rparr>"
  by (auto simp: answer_def)

lemma out_update [dl_simps]:
  "lock_of (st\<lparr>dl_out := xs\<rparr>) = lock_of st"
  "waiting (st\<lparr>dl_out := xs\<rparr>) = waiting st"
  "maps_ok (st\<lparr>dl_out := xs\<rparr>) = maps_ok st"
  by (simp_all add: lock_of_def waiting_def maps_ok_def fun_eq_iff)

lemma promote_key_simps [dl_simps]:
  "lock_of (promote_key gone now key st) =
     (lock_of st)(key := map_option (promoted now) (lock_of st key))"
  "maps_ok st \<Longrightarrow> maps_ok (promote_key gone now key st)"
  by (auto simp: promote_key_def dl_simps fun_eq_iff lock_of_def [symmetric] split: option.split)

lemma full_remove_simps [dl_simps]:
  "lock_of (full_remove gone key st) = (lock_of st)(key := None)"
  "waiting (full_remove gone key st) = (waiting st)(key := [])"
  "maps_ok st \<Longrightarrow> maps_ok (full_remove gone key st)"
  by (auto simp: full_remove_def Let_def tell_def lock_of_def waiting_def maps_ok_def fun_eq_iff delete_conv'
    distinct_delete split: option.split)

lemma register_waiter_simps [dl_simps]:
  "lock_of (register_waiter key tid ack st) = lock_of st"
  "waiting (register_waiter key tid ack st) = (waiting st)(key := waiting st key @ [(tid, ack)])"
  "maps_ok st \<Longrightarrow> maps_ok (register_waiter key tid ack st)"
  "dl_out (register_waiter key tid ack st) = dl_out st"
  by (simp_all add: register_waiter_def dl_simps waiting_def [symmetric])

section \<open>The invariant\<close>

text \<open>Every lock in the table has a holder, and a client that waits is registered for a ticket in the queue of
  its key.\<close>

definition lock_inv :: "(string \<rightharpoonup> lock_queue) \<Rightarrow> (string \<Rightarrow> (nat \<times> nat) list) \<Rightarrow> bool" where
  "lock_inv L W \<longleftrightarrow>
     (\<forall>key lock. L key = Some lock \<longrightarrow> current_ticket lock \<noteq> None) \<and>
     (\<forall>key tid ch. (tid, ch) \<in> set (W key) \<longrightarrow> (\<exists>lock. L key = Some lock \<and> tid \<in> set (lqueue lock)))"

definition dl_ok :: "dlock \<Rightarrow> bool" where
  "dl_ok st \<longleftrightarrow> maps_ok st \<and> lock_inv (lock_of st) (waiting st)"

lemma dl_ok_start: "dl_ok dlock_start"
  by (simp add: dl_ok_def maps_ok_def lock_inv_def dlock_start_def lock_of_def waiting_def)

lemma lock_invI:
  assumes "\<And>key lock. L key = Some lock \<Longrightarrow> current_ticket lock \<noteq> None"
    and "\<And>key tid ch. (tid, ch) \<in> set (W key) \<Longrightarrow> \<exists>lock. L key = Some lock \<and> tid \<in> set (lqueue lock)"
  shows "lock_inv L W"
  using assms unfolding lock_inv_def by blast

lemma lock_inv_holder: "lock_inv L W \<Longrightarrow> L key = Some lock \<Longrightarrow> current_ticket lock \<noteq> None"
  unfolding lock_inv_def by blast

lemma lock_inv_waits:
  assumes "lock_inv L W" and "(tid, ch) \<in> set (W key)"
  obtains lock where "L key = Some lock" and "tid \<in> set (lqueue lock)"
  using assms unfolding lock_inv_def by blast

lemma lock_inv_set:
  assumes inv: "lock_inv L W" and L: "L key = Some lock" and "current_ticket lock' \<noteq> None"
    and "set (lqueue lock) \<subseteq> set (lqueue lock')"
  shows "lock_inv (L(key \<mapsto> lock')) W"
proof (rule lock_invI)
  show "current_ticket l \<noteq> None" if "(L(key \<mapsto> lock')) k = Some l" for k l
    using that lock_inv_holder [OF inv] assms(3) by (cases "k = key") auto
  show "\<exists>l. (L(key \<mapsto> lock')) k = Some l \<and> tid \<in> set (lqueue l)" if "(tid, ch) \<in> set (W k)" for k tid ch
    by (rule lock_inv_waits [OF inv that]) (use L assms(4) in \<open>auto split: if_splits\<close>)
qed

lemma lock_inv_new:
  assumes inv: "lock_inv L W" and L: "L key = None" and "current_ticket lock' \<noteq> None"
  shows "lock_inv (L(key \<mapsto> lock')) W"
proof (rule lock_invI)
  show "current_ticket l \<noteq> None" if "(L(key \<mapsto> lock')) k = Some l" for k l
    using that lock_inv_holder [OF inv] assms(3) by (cases "k = key") auto
  show "\<exists>l. (L(key \<mapsto> lock')) k = Some l \<and> tid \<in> set (lqueue l)" if "(tid, ch) \<in> set (W k)" for k tid ch
    by (rule lock_inv_waits [OF inv that]) (use L in auto)
qed

lemma lock_inv_promote:
  assumes inv: "lock_inv L W" and L: "L key = Some lock0" "lqueue lock = lqueue lock0"
    and W': "W' = (if is_free lock now \<and> lqueue lock \<noteq> []
      then W(key := filter (\<lambda>e. fst e \<noteq> hd (lqueue lock)) (W key)) else W)"
    and cur: "current_ticket (promoted now lock) \<noteq> None"
  shows "lock_inv (L(key \<mapsto> promoted now lock)) W'"
proof (cases "is_free lock now \<and> lqueue lock \<noteq> []")
  case False
  then have "W' = W" "promoted now lock = lock" using W' by (auto simp: promoted_def)
  then show ?thesis using lock_inv_set [OF inv L(1)] L(2) cur by simp
next
  case True
  then have W'': "W' = W(key := filter (\<lambda>e. fst e \<noteq> hd (lqueue lock)) (W key))"
    using W' by simp
  have q: "tid \<in> set (lqueue (promoted now lock))" if "tid \<in> set (lqueue lock)" "tid \<noteq> hd (lqueue lock)" for tid
    using that True by (cases "lqueue lock") (simp_all add: promoted_def)
  show ?thesis
  proof (rule lock_invI)
    show "current_ticket l \<noteq> None" if "(L(key \<mapsto> promoted now lock)) k = Some l" for k l
      using that lock_inv_holder [OF inv] cur by (cases "k = key") auto
    show "\<exists>l. (L(key \<mapsto> promoted now lock)) k = Some l \<and> tid \<in> set (lqueue l)"
      if e: "(tid, ch) \<in> set (W' k)" for k tid ch
    proof -
      have "(tid, ch) \<in> set (W k)" using e W'' by (auto split: if_splits)
      then obtain l where l: "L k = Some l" "tid \<in> set (lqueue l)" using lock_inv_waits [OF inv] by blast
      then show ?thesis using e W'' L q by (cases "k = key") auto
    qed
  qed
qed

lemma dl_ok_promote_key:
  assumes "dl_ok st"
  shows "dl_ok (promote_key gone now key st)"
proof (cases "lock_of st key")
  case None
  then show ?thesis using assms by (simp add: promote_key_def lock_of_def)
next
  case (Some lock)
  then have k: "promote_key gone now key st = promote gone now key lock st"
    by (simp add: promote_key_def lock_of_def)
  have inv: "lock_inv (lock_of st) (waiting st)" and m: "maps_ok st"
    using assms by (simp_all add: dl_ok_def)
  have "current_ticket (promoted now lock) \<noteq> None"
    using inv Some by (auto simp: lock_inv_def promoted_def)
  from lock_inv_promote [OF inv Some refl refl this] show ?thesis
    unfolding dl_ok_def k using m by (simp add: dl_simps)
qed

lemma dl_ok_set:
  assumes "dl_ok st" and "lock_of st key = Some lock" and "current_ticket lock' \<noteq> None"
    and "set (lqueue lock) \<subseteq> set (lqueue lock')"
  shows "dl_ok (set_lock key lock' st)"
  using assms lock_inv_set unfolding dl_ok_def by (simp add: dl_simps)

lemma dl_ok_new:
  assumes "dl_ok st" and "lock_of st key = None" and "current_ticket lock' \<noteq> None"
  shows "dl_ok (set_lock key lock' st)"
  using assms lock_inv_new unfolding dl_ok_def by (simp add: dl_simps)

lemma dl_ok_answer: "\<not> gone ch \<Longrightarrow> dl_ok st \<Longrightarrow> \<exists>st'. answer gone ch v st = Ok st' \<and> dl_ok st'"
  by (simp add: answer_def dl_ok_def dl_simps)

lemma dl_ok_holder: "dl_ok st \<Longrightarrow> lock_of st key = Some lock \<Longrightarrow> current_ticket lock \<noteq> None"
  unfolding dl_ok_def using lock_inv_holder by blast

lemma dl_ok_answer_set:
  assumes "dl_ok st" and "lock_of st key = Some lock" and "\<not> gone ack"
  shows "\<exists>st'. answer gone ack v
      (set_lock key (lock\<lparr>current_ticket := Some tid, lease_exp := e\<rparr>) st) = Ok st' \<and> dl_ok st'"
    and "\<exists>st'. answer gone ack v (set_lock key (lock\<lparr>lqueue := lqueue lock @ [tid]\<rparr>) st) = Ok st' \<and> dl_ok st'"
    and "\<exists>st'. answer gone ack v (set_lock key (lock\<lparr>lease_exp := e\<rparr>) st) = Ok st' \<and> dl_ok st'"
  using dl_ok_holder [OF assms(1,2)]
  by (auto intro!: dl_ok_answer [of gone ack, OF assms(3)] dl_ok_set [OF assms(1,2)])

lemma dl_ok_register:
  assumes ok: "dl_ok st" and "lock_of st key = Some lock" and "tid \<in> set (lqueue lock)"
  shows "dl_ok (register_waiter key tid ack st)"
proof -
  have inv: "lock_inv (lock_of st) (waiting st)" using ok by (simp add: dl_ok_def)
  have "lock_inv (lock_of st) ((waiting st)(key := waiting st key @ [(tid, ack)]))"
  proof (rule lock_invI)
    show "current_ticket l \<noteq> None" if "lock_of st k = Some l" for k l
      using lock_inv_holder [OF inv that] .
    show "\<exists>l. lock_of st k = Some l \<and> t \<in> set (lqueue l)"
      if "(t, ch) \<in> set (((waiting st)(key := waiting st key @ [(tid, ack)])) k)" for k t ch
    proof (cases "(t, ch) \<in> set (waiting st k)")
      case True
      then show ?thesis using lock_inv_waits [OF inv] by blast
    next
      case False
      then show ?thesis using that assms(2,3) by (auto split: if_splits)
    qed
  qed
  then show ?thesis using ok by (simp add: dl_ok_def dl_simps)
qed

lemma dl_ok_lock:
  assumes "dl_ok st" and "\<not> gone ack"
  shows "\<exists>st'. handle_lock gone t1 t2 key log_id ack st = Ok st' \<and> dl_ok st'"
proof -
  define st1 where "st1 = promote_key gone t1 key st"
  have ok: "dl_ok st1" using dl_ok_promote_key [OF assms(1)] st1_def by simp
  show ?thesis
  proof (cases "lock_of st1 key")
    case None
    then show ?thesis
      using dl_ok_answer [of gone ack, OF assms(2) dl_ok_new [OF ok None]]
      by (simp add: handle_lock_def st1_def [symmetric] lock_of_def fresh_lock_def)
  next
    case (Some lock)
    then show ?thesis
      using dl_ok_answer_set [of st1 key lock gone ack, OF ok Some assms(2)]
      by (auto simp: handle_lock_def st1_def [symmetric] lock_of_def)
  qed
qed

lemma dl_ok_acquire:
  assumes "dl_ok st" and "\<not> gone ack"
  shows "\<exists>st'. handle_acquire gone t1 t2 key log_id ack st = Ok st' \<and> dl_ok st'"
proof -
  define st1 where "st1 = promote_key gone t1 key st"
  have ok: "dl_ok st1" using dl_ok_promote_key [OF assms(1)] st1_def by simp
  show ?thesis
  proof (cases "lock_of st1 key")
    case None
    then show ?thesis
      using dl_ok_answer [of gone ack, OF assms(2) dl_ok_new [OF ok None]]
      by (simp add: handle_acquire_def st1_def [symmetric] lock_of_def fresh_lock_def)
  next
    case (Some lock)
    then show ?thesis
      using dl_ok_answer_set [of st1 key lock gone ack, OF ok Some assms(2)] dl_ok_answer [of gone ack, OF assms(2) ok]
      by (auto simp: handle_acquire_def st1_def [symmetric] lock_of_def)
  qed
qed

lemma dl_ok_await:
  assumes "dl_ok st" and "\<not> gone ack"
  shows "\<exists>st'. handle_await gone t1 t2 key tid ack st = Ok st' \<and> dl_ok st'"
proof -
  define st1 where "st1 = promote_key gone t1 key st"
  have ok: "dl_ok st1" using dl_ok_promote_key [OF assms(1)] st1_def by simp
  show ?thesis
    using dl_ok_answer [of gone ack, OF assms(2) ok] dl_ok_register [OF ok, of key _ tid ack]
    by (auto simp: handle_await_def st1_def [symmetric] lock_of_def split: option.split)
qed

lemma dl_ok_alive:
  assumes "dl_ok st" and "\<not> gone ack"
  shows "\<exists>st'. handle_alive gone t1 key tid ack st = Ok st' \<and> dl_ok st'"
  using dl_ok_answer [of gone ack, OF assms(2) assms(1)] dl_ok_answer [of gone ack, OF assms(2) dl_ok_set [OF assms(1)]]
  by (auto simp: handle_alive_def lock_of_def Let_def split: option.split)

lemma dl_ok_release:
  assumes "dl_ok st"
  shows "dl_ok (handle_release gone t1 key tid st)"
proof (cases "\<exists>lock. lock_of st key = Some lock \<and> current_ticket lock = Some tid")
  case False
  then show ?thesis using assms by (auto simp: handle_release_def lock_of_def split: option.splits)
next
  case True
  then obtain lock where lock: "lock_of st key = Some lock" "current_ticket lock = Some tid" by blast
  let ?l = "lock\<lparr>current_ticket := None\<rparr>"
  have inv: "lock_inv (lock_of st) (waiting st)" and m: "maps_ok st" using assms by (simp_all add: dl_ok_def)
  let ?st1 = "promote gone t1 key ?l st"
  have r: "handle_release gone t1 key tid st =
      (if lqueue lock = [] then full_remove gone key ?st1 else ?st1)"
    using lock promote_simps(1) [of gone t1 key ?l st]
    by (simp add: handle_release_def lock_of_def fun_eq_iff promoted_def is_free_def)
  show ?thesis
  proof (cases "lqueue lock = []")
    case True
    have "lock_inv ((lock_of st)(key := None)) ((waiting st)(key := []))"
    proof (rule lock_invI)
      show "current_ticket l \<noteq> None" if "((lock_of st)(key := None)) k = Some l" for k l
        using that lock_inv_holder [OF inv] by (auto split: if_splits)
      show "\<exists>l. ((lock_of st)(key := None)) k = Some l \<and> t \<in> set (lqueue l)"
        if "(t, ch) \<in> set (((waiting st)(key := [])) k)" for k t ch
        using that lock_inv_waits [OF inv, of t ch k] by (auto split: if_splits)
    qed
    then show ?thesis
      unfolding r dl_ok_def using True m by (simp add: dl_simps)
  next
    case False
    have "current_ticket (promoted t1 ?l) \<noteq> None"
      using False by (simp add: promoted_def is_free_def)
    from lock_inv_promote [OF inv lock(1) _ refl this] show ?thesis
      unfolding r dl_ok_def using False m by (simp add: dl_simps)
  qed
qed

lemma dl_ok_promote_keys: "dl_ok st \<Longrightarrow> dl_ok (snd (promote_keys gone clk i keys st))"
  by (induction keys arbitrary: i st) (simp_all add: dl_ok_promote_key)

lemma dl_ok_sweep: "dl_ok st \<Longrightarrow> dl_ok (snd (sweep_expired gone clk i st))"
  by (simp add: sweep_expired_def dl_ok_promote_keys)

text \<open>A request can be handled when the receiver of its answer has not been dropped; a snapshot is a table of
  locks that are held.\<close>

fun dl_accepts :: "(nat \<Rightarrow> bool) \<Rightarrow> lock_event \<Rightarrow> bool" where
  "dl_accepts gone (LRecv (LLock key tid ack)) \<longleftrightarrow> \<not> gone ack"
| "dl_accepts gone (LRecv (LAcquire key tid ack)) \<longleftrightarrow> \<not> gone ack"
| "dl_accepts gone (LRecv (LAlive key tid ack)) \<longleftrightarrow> \<not> gone ack"
| "dl_accepts gone (LRecv (LAwait key tid ack)) \<longleftrightarrow> \<not> gone ack"
| "dl_accepts gone (LRecv (LSnapshotBuild ack)) \<longleftrightarrow> \<not> gone ack"
| "dl_accepts gone (LRecv (LSnapshotInstall data ack)) \<longleftrightarrow> \<not> gone ack \<and> distinct (map fst data) \<and>
     list_all (\<lambda>(_, lock). current_ticket lock \<noteq> None) data"
| "dl_accepts gone ev \<longleftrightarrow> True"

lemma dl_ok_install:
  assumes "dl_accepts gone (LRecv (LSnapshotInstall data ack))"
  shows "\<exists>st'. install_locks gone data ack st = Ok st' \<and> dl_ok st'"
proof -
  have "dl_ok (st\<lparr>dl_locks := data, dl_waiters := []\<rparr>)"
    using assms
    by (auto simp: dl_ok_def maps_ok_def lock_inv_def lock_of_def waiting_def list_all_iff dest!: map_of_SomeD)
  then have "dl_ok (tell gone acks v (st\<lparr>dl_locks := data, dl_waiters := []\<rparr>))" for acks v
    by (simp add: dl_ok_def dl_simps)
  then show ?thesis
    using assms dl_ok_answer [of gone ack] by (simp add: install_locks_def)
qed

lemma dlock_step_total:
  assumes "dl_ok (snd s)" and "dl_accepts gone ev"
  shows "\<exists>r s'. dlock_step gone clk ev s = Ok (r, s') \<and> dl_ok (snd s')"
proof -
  obtain i st where s: "s = (i, st)" by (cases s)
  show ?thesis
  proof (cases ev)
    case Tick
    then show ?thesis using dl_ok_sweep assms(1) s by (simp add: dlock_step_def)
  next
    case (LRecv req)
    have "\<exists>st'. handle_request gone (clk i) (clk (Suc i)) req st = Ok st' \<and> dl_ok st'"
      using assms s LRecv
      by (cases req) (simp_all add: dl_ok_lock dl_ok_acquire dl_ok_release dl_ok_alive dl_ok_await
        dl_ok_install dl_ok_answer del: dl_accepts.simps(6))
    with LRecv s show ?thesis by (auto simp: dlock_step_def)
  qed
qed

interpretation dlock_task: handler_task "\<lambda>s. dl_ok (snd s)" "dl_accepts gone" "dlock_step gone clk" for gone clk
  by unfold_locales (rule dlock_step_total)

section \<open>Tasks\<close>

text \<open>C18. The task of the locks never panics as long as the receivers of the answers it owes exist. A lock in its
  table is always held, and a client that waits is registered for a ticket that is in the queue of its key,
  so that it can be answered.\<close>

theorem dlock_handler_inv:
  assumes "list_all (dl_accepts gone) evs"
  shows "\<exists>rs i st. dlock_handler gone clk evs = Ok (rs, i, st) \<and>
    (\<forall>key lock. lock_of st key = Some lock \<longrightarrow> current_ticket lock \<noteq> None) \<and>
    (\<forall>key tid ch. (tid, ch) \<in> set (waiting st key) \<longrightarrow>
       (\<exists>lock. lock_of st key = Some lock \<and> tid \<in> set (lqueue lock)))"
proof -
  obtain rs s where "dlock_handler gone clk evs = Ok (rs, s)" "dl_ok (snd s)"
    using dlock_task.run_total [of "(0, dlock_start)" gone evs clk] dl_ok_start assms
    by (auto simp: dlock_handler_def)
  then show ?thesis by (cases s) (auto simp: dl_ok_def lock_inv_def)
qed

definition ex_lock_evs :: "lock_event list" where
  "ex_lock_evs = [LRecv (LLock ''k'' 1 10), LRecv (LLock ''k'' 2 11), LRecv (LAwait ''k'' 2 12), Tick,
     LRecv (LRelease ''k'' 1)]"

theorem dlock_handler_inv_witness:
  "list_all (dl_accepts (\<lambda>_. False)) ex_lock_evs \<and>
   (\<exists>rs i st. dlock_handler (\<lambda>_. False) int ex_lock_evs = Ok (rs, i, st) \<and>
      (\<forall>key lock. lock_of st key = Some lock \<longrightarrow> current_ticket lock \<noteq> None) \<and>
      (\<forall>key tid ch. (tid, ch) \<in> set (waiting st key) \<longrightarrow>
         (\<exists>lock. lock_of st key = Some lock \<and> tid \<in> set (lqueue lock))))"
proof -
  have "list_all (dl_accepts (\<lambda>_. False)) ex_lock_evs" by (simp add: ex_lock_evs_def)
  with dlock_handler_inv [OF this, of int] show ?thesis by blast
qed

section \<open>Mutual exclusion\<close>

fun req_key :: "lock_request \<Rightarrow> string option" where
  "req_key (LLock key tid ack) = Some key"
| "req_key (LAcquire key tid ack) = Some key"
| "req_key (LRelease key tid) = Some key"
| "req_key (LAlive key tid ack) = Some key"
| "req_key (LAwait key tid ack) = Some key"
| "req_key (LSnapshotBuild ack) = None"
| "req_key (LSnapshotInstall data ack) = None"

text \<open>The events that may take the lock away from a ticket: its release, and a snapshot.\<close>

fun ends_lease :: "string \<Rightarrow> nat \<Rightarrow> lock_event \<Rightarrow> bool" where
  "ends_lease key tid (LRecv (LRelease k t)) \<longleftrightarrow> k = key \<and> t = tid"
| "ends_lease key tid (LRecv (LSnapshotInstall data ack)) \<longleftrightarrow> True"
| "ends_lease key tid ev \<longleftrightarrow> False"

definition holds :: "dlock \<Rightarrow> string \<Rightarrow> nat \<Rightarrow> int \<Rightarrow> bool" where
  "holds st key tid e \<longleftrightarrow> (\<exists>lock. lock_of st key = Some lock \<and> current_ticket lock = Some tid \<and> e \<le> lease_exp lock)"

lemma promoted_held: "current_ticket lock = Some tid \<Longrightarrow> now \<le> lease_exp lock \<Longrightarrow> promoted now lock = lock"
  by (simp add: promoted_def is_free_def)

lemma holds_promote_key:
  assumes "holds st key tid e" and "now \<le> e"
  shows "holds (promote_key gone now k st) key tid e"
proof -
  obtain lock where "lock_of st key = Some lock" "current_ticket lock = Some tid" "e \<le> lease_exp lock"
    using assms(1) by (auto simp: holds_def)
  moreover from this have "promoted now lock = lock" using assms(2) promoted_held by simp
  ultimately show ?thesis by (auto simp: holds_def dl_simps)
qed

lemma promote_key_held_out:
  assumes "holds st key tid e" and "now \<le> e"
  shows "dl_out (promote_key gone now key st) = dl_out st"
  using assms by (auto simp: holds_def promote_key_def dl_simps lock_of_def is_free_def split: option.splits)

lemma holds_promote_keys:
  "holds st key tid e \<Longrightarrow> (\<And>j. j < i + length keys \<Longrightarrow> clk j \<le> e) \<Longrightarrow>
   holds (snd (promote_keys gone clk i keys st)) key tid e"
proof (induction keys arbitrary: i st)
  case Nil
  then show ?case by simp
next
  case (Cons k keys)
  then show ?case using holds_promote_key [OF Cons.prems(1), of "clk i" gone k] by simp
qed

lemma fst_promote_keys: "fst (promote_keys gone clk i keys st) = i + length keys"
  by (induction keys arbitrary: i st) simp_all

definition no_other_grant :: "nat \<Rightarrow> dlock \<Rightarrow> dlock \<Rightarrow> bool" where
  "no_other_grant tid st st' \<longleftrightarrow> (\<exists>new. dl_out st' = dl_out st @ new \<and>
     (\<forall>ch t. (ch, AState (Locked t)) \<in> set new \<longrightarrow> t = tid))"

lemma holds_views:
  "k \<noteq> key \<Longrightarrow> holds (set_lock k l st) key tid e = holds st key tid e"
  "holds (st\<lparr>dl_out := xs\<rparr>) key tid e = holds st key tid e"
  "holds (register_waiter k t ack st) key tid e = holds st key tid e"
  by (simp_all add: holds_def dl_simps)

lemma holds_set_same:
  "current_ticket l = Some tid \<Longrightarrow> e \<le> lease_exp l \<Longrightarrow> holds (set_lock key l st) key tid e"
  by (simp add: holds_def dl_simps)

lemma holdsE:
  assumes "holds st key tid e"
  obtains lock where "map_of (dl_locks st) key = Some lock" and "current_ticket lock = Some tid"
    and "e \<le> lease_exp lock" and "\<forall>t\<le>e. \<not> is_free lock t"
  using assms by (auto simp: holds_def lock_of_def is_free_def)

lemma no_other_grantI:
  "dl_out st' = dl_out st @ new \<Longrightarrow> (\<And>ch t. (ch, AState (Locked t)) \<in> set new \<Longrightarrow> t = tid) \<Longrightarrow> no_other_grant tid st st'"
  by (auto simp: no_other_grant_def)

lemma held_lock:
  assumes h: "holds st key tid e" and t: "t1 \<le> e" "t2 \<le> e"
    and run: "handle_lock gone t1 t2 k t ack st = Ok st'"
  shows "holds st' key tid e" and "k = key \<Longrightarrow> no_other_grant tid st st'"
proof -
  define st1 where "st1 = promote_key gone t1 k st"
  have h1: "holds st1 key tid e" using holds_promote_key [OF h t(1)] st1_def by simp
  obtain lock where l: "map_of (dl_locks st1) key = Some lock" "current_ticket lock = Some tid"
      "e \<le> lease_exp lock" "\<forall>t\<le>e. \<not> is_free lock t"
    using h1 by (rule holdsE)
  have free: "\<not> is_free lock t2" using l(4) t(2) by blast
  note r = run [unfolded handle_lock_def Let_def, folded st1_def]
  show "holds st' key tid e"
  proof (cases "k = key")
    case True
    then show ?thesis using r l(1-3) free by (simp add: dl_simps holds_views holds_set_same)
  next
    case False
    then show ?thesis using r h1 by (auto simp: dl_simps holds_views split: option.splits if_splits)
  qed
  show "no_other_grant tid st st'" if "k = key"
  proof (rule no_other_grantI)
    show "dl_out st' = dl_out st @ [(ack, AState (Queued t))]"
      using r l(1-3) free that promote_key_held_out [OF h t(1)] by (auto simp: dl_simps st1_def)
  qed simp
qed

lemma held_acquire:
  assumes h: "holds st key tid e" and t: "t1 \<le> e" "t2 \<le> e"
    and run: "handle_acquire gone t1 t2 k t ack st = Ok st'"
  shows "holds st' key tid e" and "k = key \<Longrightarrow> no_other_grant tid st st'"
proof -
  define st1 where "st1 = promote_key gone t1 k st"
  have h1: "holds st1 key tid e" using holds_promote_key [OF h t(1)] st1_def by simp
  obtain lock where l: "map_of (dl_locks st1) key = Some lock" "current_ticket lock = Some tid"
      "e \<le> lease_exp lock" "\<forall>t\<le>e. \<not> is_free lock t"
    using h1 by (rule holdsE)
  have free: "\<not> is_free lock t2" using l(4) t(2) by blast
  note r = run [unfolded handle_acquire_def Let_def, folded st1_def]
  show "holds st' key tid e"
  proof (cases "k = key")
    case True
    then show ?thesis using r l(1-3) free h1 by (auto simp: dl_simps holds_views holds_set_same split: if_splits)
  next
    case False
    then show ?thesis using r h1 by (auto simp: dl_simps holds_views split: option.splits if_splits)
  qed
  show "no_other_grant tid st st'" if "k = key"
  proof (rule no_other_grantI)
    show "dl_out st' = dl_out st @ [(ack, AState (if t = tid then Locked tid else Queued t))]"
      using r l(1-3) free that promote_key_held_out [OF h t(1)] t(2)
      by (auto simp: dl_simps st1_def split: if_splits)
  qed (simp split: if_splits)
qed

lemma held_await:
  assumes h: "holds st key tid e" and t: "t1 \<le> e" "t2 \<le> e"
    and run: "handle_await gone t1 t2 k t ack st = Ok st'"
  shows "holds st' key tid e" and "k = key \<Longrightarrow> no_other_grant tid st st'"
proof -
  define st1 where "st1 = promote_key gone t1 k st"
  have h1: "holds st1 key tid e" using holds_promote_key [OF h t(1)] st1_def by simp
  obtain lock where l: "map_of (dl_locks st1) key = Some lock" "current_ticket lock = Some tid"
      "e \<le> lease_exp lock" "\<forall>t\<le>e. \<not> is_free lock t"
    using h1 by (rule holdsE)
  have free: "\<not> is_free lock t2" using l(4) t(2) by blast
  note r = run [unfolded handle_await_def Let_def, folded st1_def]
  show "holds st' key tid e"
    using r h1 by (auto simp: dl_simps holds_views split: option.splits if_splits)
  show "no_other_grant tid st st'" if "k = key"
  proof (rule no_other_grantI)
    show "dl_out st' = dl_out st @ (if t = tid then [(ack, AState (Locked tid))]
        else if t \<in> set (lqueue lock) then [] else [(ack, AState Released)])"
      using r l(1-3) free that promote_key_held_out [OF h t(1)] t(2)
      by (auto simp: dl_simps st1_def split: if_splits)
  qed (simp split: if_splits)
qed

lemma held_alive:
  assumes h: "holds st key tid e" and t: "e \<le> t1 + lock_valid_seconds"
    and run: "handle_alive gone t1 k t ack st = Ok st'"
  shows "holds st' key tid e" and "k = key \<Longrightarrow> no_other_grant tid st st'"
proof -
  obtain lock where l: "map_of (dl_locks st) key = Some lock" "current_ticket lock = Some tid" "e \<le> lease_exp lock"
    using h by (rule holdsE)
  show "holds st' key tid e"
  proof (cases "k = key \<and> t = tid")
    case True
    then show ?thesis
      using run l t by (simp add: handle_alive_def dl_simps holds_views holds_set_same)
  next
    case False
    then show ?thesis
      using run l h by (cases "k = key") (auto simp: handle_alive_def dl_simps holds_views split: option.splits if_splits)
  qed
  show "no_other_grant tid st st'" if "k = key"
  proof (rule no_other_grantI)
    show "dl_out st' = dl_out st @ [(ack, AState (if t = tid then Locked tid else Released))]"
      using run l that by (auto simp: handle_alive_def dl_simps split: if_splits)
  qed (simp split: if_splits)
qed

lemma held_release:
  assumes h: "holds st key tid e" and t: "t1 \<le> e" and r: "\<not> (k = key \<and> t = tid)"
  shows "holds (handle_release gone t1 k t st) key tid e"
    and "k = key \<Longrightarrow> no_other_grant tid st (handle_release gone t1 k t st)"
proof -
  obtain lock where l: "map_of (dl_locks st) key = Some lock" "current_ticket lock = Some tid" "e \<le> lease_exp lock"
    using h by (rule holdsE)
  have id: "handle_release gone t1 k t st = st" if "k = key"
    using l r that by (simp add: handle_release_def)
  have other: "lock_of (handle_release gone t1 k t st) key = lock_of st key" if "k \<noteq> key"
    using that by (auto simp: handle_release_def Let_def dl_simps split: option.split)
  show "holds (handle_release gone t1 k t st) key tid e"
    using h id other by (cases "k = key") (simp_all add: holds_def)
  show "no_other_grant tid st (handle_release gone t1 k t st)" if "k = key"
    using id [OF that] by (intro no_other_grantI [where new = "[]"]) simp_all
qed

lemma held_request:
  assumes h: "holds st key tid e" and t: "t1 \<le> e" "t2 \<le> e" "e \<le> t1 + lock_valid_seconds"
    and r: "\<not> ends_lease key tid (LRecv req)" and run: "handle_request gone t1 t2 req st = Ok st'"
  shows "holds st' key tid e \<and> (req_key req = Some key \<longrightarrow> no_other_grant tid st st')"
proof (cases req)
  case (LLock k tk ack)
  with held_lock [OF h t(1,2), of gone k tk ack st'] run show ?thesis by auto
next
  case (LAcquire k tk ack)
  with held_acquire [OF h t(1,2), of gone k tk ack st'] run show ?thesis by auto
next
  case (LRelease k tk)
  with held_release [OF h t(1), of k tk gone] run r show ?thesis by auto
next
  case (LAlive k tk ack)
  with held_alive [OF h t(3), of gone k tk ack st'] run show ?thesis by auto
next
  case (LAwait k tk ack)
  with held_await [OF h t(1,2), of gone k tk ack st'] run show ?thesis by auto
next
  case (LSnapshotBuild ack)
  with h run show ?thesis by (auto simp: dl_simps holds_views)
next
  case (LSnapshotInstall data ack)
  with r show ?thesis by simp
qed

lemma held_step:
  assumes h: "holds st key tid e" and clk: "mono clk" "e \<le> clk i + lock_valid_seconds"
    and r: "\<not> ends_lease key tid ev" and run: "dlock_step gone clk ev (i, st) = Ok (u, j, st')" and j: "clk j \<le> e"
  shows "holds st' key tid e" and "i \<le> j"
proof -
  have "holds st' key tid e \<and> i \<le> j"
  proof (cases ev)
    case (LRecv req)
    have "j = i + 2" "handle_request gone (clk i) (clk (Suc i)) req st = Ok st'"
      using run LRecv by (auto simp: dlock_step_def rbind_eq_Ok)
    moreover from this have "clk i \<le> e" "clk (Suc i) \<le> e"
      using j monoD [OF clk(1), of i j] monoD [OF clk(1), of "Suc i" j] by simp_all
    ultimately show ?thesis using held_request [OF h _ _ clk(2)] r LRecv by simp
  next
    case Tick
    define keys where "keys = map fst (filter (\<lambda>(_, lock). is_free lock (clk i) \<and> lqueue lock \<noteq> []) (dl_locks st))"
    have p: "promote_keys gone clk (Suc i) keys st = (j, st')"
      using run Tick by (simp add: dlock_step_def sweep_expired_def keys_def)
    then have len: "j = Suc i + length keys" using fst_promote_keys [of gone clk "Suc i" keys st] by simp
    moreover have "clk m \<le> e" if "m < Suc i + length keys" for m
      using j monoD [OF clk(1), of m j] that len by simp
    then have "holds st' key tid e"
      using holds_promote_keys [OF h, of "Suc i" keys clk gone] p by simp
    ultimately show ?thesis by simp
  qed
  then show "holds st' key tid e" and "i \<le> j" by blast+
qed

lemma dlock_step_index: "dlock_step gone clk ev (i, st) = Ok (u, j, st') \<Longrightarrow> i \<le> j"
proof (cases ev)
  case Tick
  assume "dlock_step gone clk ev (i, st) = Ok (u, j, st')"
  then have "j = fst (sweep_expired gone clk i st)" using Tick by (simp add: dlock_step_def)
  then show ?thesis by (simp add: sweep_expired_def fst_promote_keys)
qed (auto simp: dlock_step_def rbind_eq_Ok)

lemma dlock_run_index: "run_task (dlock_step gone clk) evs (i, st) = Ok (rs, j, st') \<Longrightarrow> i \<le> j"
proof (induction evs arbitrary: i st rs)
  case Nil
  then show ?case by simp
next
  case (Cons ev evs)
  from Cons.prems obtain u s' rs' where "dlock_step gone clk ev (i, st) = Ok (u, s')"
      "run_task (dlock_step gone clk) evs s' = Ok (rs', j, st')"
    by (elim run_task_ConsE)
  with Cons.IH [of "fst s'" "snd s'" rs'] dlock_step_index [of gone clk ev i st u "fst s'" "snd s'"] show ?case by simp
qed

lemma held_run:
  assumes "holds st key tid e" and clk: "mono clk" "e \<le> clk i + lock_valid_seconds"
    and "list_all (\<lambda>ev. \<not> ends_lease key tid ev) evs"
    and "run_task (dlock_step gone clk) evs (i, st) = Ok (rs, j, st')" and "clk j \<le> e"
  shows "holds st' key tid e"
  using assms
proof (induction evs arbitrary: i st rs)
  case Nil
  then show ?case by simp
next
  case (Cons ev evs)
  from Cons.prems(5) obtain u s' rs' where step: "dlock_step gone clk ev (i, st) = Ok (u, s')"
      "run_task (dlock_step gone clk) evs s' = Ok (rs', j, st')"
    by (elim run_task_ConsE)
  obtain m st1 where s': "s' = (m, st1)" by (cases s')
  have "clk m \<le> e"
    using dlock_run_index [of gone clk evs m st1] step(2) s' monoD [OF clk(1), of m j] Cons.prems(6) by simp
  then have "holds st1 key tid e" "i \<le> m"
    using held_step [OF Cons.prems(1-3)] step(1) s' Cons.prems(4) by auto
  then show ?case
    using Cons.IH [of st1 m rs'] step(2) s' Cons.prems monoD [OF clk(1), of i m] by simp
qed


definition ex_held :: dlock where
  "ex_held = \<lparr>dl_locks = [(''k'', \<lparr>current_ticket = Some 1, lease_exp = 10, lqueue = [2]\<rparr>)],
     dl_waiters = [(''k'', [(2, 12)])], dl_out = []\<rparr>"


section \<open>Waiting clients are served\<close>

text \<open>A series of ticks of the sweep, each with the clock readings it takes, at moments where the lease granted
  before has run out: the holders never come back.\<close>

fun spaced :: "int \<Rightarrow> (nat \<Rightarrow> int) list \<Rightarrow> bool" where
  "spaced e [] \<longleftrightarrow> True"
| "spaced e (c # cs) \<longleftrightarrow> (\<exists>h. (\<forall>m. e < c m \<and> c m \<le> h) \<and> spaced (h + lock_valid_seconds) cs)"

definition sweeps :: "(nat \<Rightarrow> bool) \<Rightarrow> (nat \<Rightarrow> int) list \<Rightarrow> dlock \<Rightarrow> dlock" where
  "sweeps gone cs st = fold (\<lambda>c st. snd (sweep_expired gone c 0 st)) cs st"

lemma spaced_mono:
  assumes "spaced e cs" and "e' \<le> e"
  shows "spaced e' cs"
proof (cases cs)
  case (Cons c cs')
  then obtain h where "\<forall>m. e < c m \<and> c m \<le> h" "spaced (h + lock_valid_seconds) cs'"
    using assms(1) by auto
  then show ?thesis using Cons assms(2) by (auto intro!: exI [of _ h] intro: le_less_trans)
qed simp

lemma promote_keys_out: "\<exists>new. dl_out (snd (promote_keys gone clk i keys st)) = dl_out st @ new"
proof (induction keys arbitrary: i st)
  case Nil
  then show ?case by simp
next
  case (Cons key keys)
  have "\<exists>new. dl_out (promote_key gone (clk i) key st) = dl_out st @ new"
    by (simp add: promote_key_def dl_simps split: option.split)
  then show ?case using Cons.IH [of "Suc i" "promote_key gone (clk i) key st"] by auto
qed

lemma sweeps_out: "\<exists>new. dl_out (sweeps gone cs st) = dl_out st @ new"
proof (induction cs arbitrary: st)
  case Nil
  then show ?case by (simp add: sweeps_def)
next
  case (Cons c cs)
  have "\<exists>new. dl_out (snd (sweep_expired gone c 0 st)) = dl_out st @ new"
    by (simp add: sweep_expired_def promote_keys_out)
  then show ?case using Cons.IH [of "snd (sweep_expired gone c 0 st)"] by (auto simp: sweeps_def)
qed

lemma promote_key_other:
  "key \<noteq> k \<Longrightarrow> lock_of (promote_key gone now k st) key = lock_of st key"
  "key \<noteq> k \<Longrightarrow> waiting (promote_key gone now k st) key = waiting st key"
  by (auto simp: promote_key_def dl_simps split: option.split)

lemma promote_keys_other:
  "key \<notin> set keys \<Longrightarrow> lock_of (snd (promote_keys gone clk i keys st)) key = lock_of st key \<and>
     waiting (snd (promote_keys gone clk i keys st)) key = waiting st key"
  by (induction keys arbitrary: i st) (simp_all add: promote_key_other)

lemma promote_keys_once:
  assumes "distinct keys" and "key \<in> set keys"
  shows "\<exists>m st1. lock_of st1 key = lock_of st key \<and> waiting st1 key = waiting st key \<and>
    (\<exists>new. dl_out (snd (promote_keys gone clk i keys st)) = dl_out (promote_key gone (clk m) key st1) @ new) \<and>
    lock_of (snd (promote_keys gone clk i keys st)) key = lock_of (promote_key gone (clk m) key st1) key \<and>
    waiting (snd (promote_keys gone clk i keys st)) key = waiting (promote_key gone (clk m) key st1) key"
  using assms
proof (induction keys arbitrary: i st)
  case Nil
  then show ?case by simp
next
  case (Cons k keys)
  show ?case
  proof (cases "k = key")
    case True
    then have "key \<notin> set keys" using Cons.prems(1) by simp
    with True show ?thesis
      using promote_keys_other [of key keys gone clk "Suc i" "promote_key gone (clk i) key st"]
        promote_keys_out [of gone clk "Suc i" keys "promote_key gone (clk i) key st"]
      by (intro exI [of _ i] exI [of _ st]) simp
  next
    case False
    then have "key \<in> set keys" "distinct keys" using Cons.prems by simp_all
    with Cons.IH [of "promote_key gone (clk i) k st" "Suc i"] False show ?thesis
      by (simp add: promote_key_other [of key k])
  qed
qed

lemma maps_ok_promote_keys: "maps_ok st \<Longrightarrow> maps_ok (snd (promote_keys gone clk i keys st))"
  by (induction keys arbitrary: i st) (simp_all add: promote_key_simps)

lemma sweep_promotes:
  assumes m: "maps_ok st" and l: "lock_of st key = Some lock" and q: "lqueue lock \<noteq> []"
    and c: "\<And>m. lease_exp lock < c m"
  shows "\<exists>m. lock_of (snd (sweep_expired gone c 0 st)) key = Some (promoted (c m) lock) \<and>
    waiting (snd (sweep_expired gone c 0 st)) key = filter (\<lambda>e. fst e \<noteq> hd (lqueue lock)) (waiting st key) \<and>
    (\<forall>ch. (hd (lqueue lock), ch) \<in> set (waiting st key) \<longrightarrow> \<not> gone ch \<longrightarrow>
      (ch, AState (Locked (hd (lqueue lock)))) \<in> set (dl_out (snd (sweep_expired gone c 0 st))))"
proof -
  define keys where "keys = map fst (filter (\<lambda>(_, lock). is_free lock (c 0) \<and> lqueue lock \<noteq> []) (dl_locks st))"
  have free: "is_free lock (c m)" for m using c by (simp add: is_free_def)
  have "distinct keys" using m by (simp add: keys_def maps_ok_def distinct_map_filter)
  moreover have "(key, lock) \<in> set (dl_locks st)" using l map_of_SomeD by (simp add: lock_of_def)
  then have "key \<in> set keys" using free q by (force simp: keys_def)
  ultimately obtain m st1 new where s: "lock_of st1 key = lock_of st key" "waiting st1 key = waiting st key"
      "dl_out (snd (promote_keys gone c 1 keys st)) = dl_out (promote_key gone (c m) key st1) @ new"
      "lock_of (snd (promote_keys gone c 1 keys st)) key = lock_of (promote_key gone (c m) key st1) key"
      "waiting (snd (promote_keys gone c 1 keys st)) key = waiting (promote_key gone (c m) key st1) key"
    using promote_keys_once [of keys key st gone c 1] by auto
  have k: "promote_key gone (c m) key st1 = promote gone (c m) key lock st1"
    using s(1) l by (simp add: promote_key_def lock_of_def)
  have sw: "snd (sweep_expired gone c 0 st) = snd (promote_keys gone c 1 keys st)"
    by (simp add: sweep_expired_def keys_def)
  show ?thesis
  proof (intro exI [of _ m] conjI allI impI)
    show "lock_of (snd (sweep_expired gone c 0 st)) key = Some (promoted (c m) lock)"
      unfolding sw s(4) k by (simp add: dl_simps)
    show "waiting (snd (sweep_expired gone c 0 st)) key = filter (\<lambda>e. fst e \<noteq> hd (lqueue lock)) (waiting st key)"
      unfolding sw s(5) k using free q s(2) by (simp add: dl_simps)
    show "(ch, AState (Locked (hd (lqueue lock)))) \<in> set (dl_out (snd (sweep_expired gone c 0 st)))"
      if "(hd (lqueue lock), ch) \<in> set (waiting st key)" "\<not> gone ch" for ch
      unfolding sw s(3) k using free q that s(2) by (force simp: dl_simps answers_def)
  qed
qed

text \<open>C19. A client that waits for its ticket is told when it is granted even if nobody ever releases anything: after
  as many sweeps as there are tickets up to its own, each after the previous lease has run out, the answer has
  been sent.\<close>

theorem dlock_waiter_served:
  assumes "maps_ok st" and "lock_of st key = Some lock" and "lqueue lock = pre @ tid # post" and "tid \<notin> set pre"
    and "(tid, ch) \<in> set (waiting st key)" and "\<not> gone ch"
    and "spaced (lease_exp lock) cs" and "length cs = Suc (length pre)"
  shows "(ch, AState (Locked tid)) \<in> set (dl_out (sweeps gone cs st))"
  using assms
proof (induction pre arbitrary: st lock cs)
  case Nil
  obtain c where cs: "cs = [c]" "\<And>m. lease_exp lock < c m"
    using Nil.prems(7,8) by (cases cs) auto
  have q: "hd (lqueue lock) = tid" "lqueue lock \<noteq> []" using Nil.prems(3) by simp_all
  show ?case
    using sweep_promotes [of st key lock c gone, OF Nil.prems(1,2) q(2) cs(2)] Nil.prems(5,6) q(1) cs(1) by (simp add: sweeps_def)
next
  case (Cons t pre)
  obtain c cs' h where cs: "cs = c # cs'" "\<And>m. lease_exp lock < c m" "\<And>m. c m \<le> h"
      "spaced (h + lock_valid_seconds) cs'"
    using Cons.prems(7,8) by (cases cs) auto
  have q: "hd (lqueue lock) = t" "lqueue lock \<noteq> []" using Cons.prems(3) by simp_all
  let ?st1 = "snd (sweep_expired gone c 0 st)"
  obtain m where m: "lock_of ?st1 key = Some (promoted (c m) lock)"
      "waiting ?st1 key = filter (\<lambda>e. fst e \<noteq> t) (waiting st key)"
    using sweep_promotes [of st key lock c gone, OF Cons.prems(1,2) q(2) cs(2)] q(1) by blast
  have l: "promoted (c m) lock = \<lparr>current_ticket = Some t, lease_exp = c m + lock_valid_seconds, lqueue = pre @ tid # post\<rparr>"
    using cs(2) [of m] Cons.prems(3) by (simp add: promoted_def is_free_def)
  have "spaced (lease_exp (promoted (c m) lock)) cs'"
    using spaced_mono [OF cs(4)] cs(3) [of m] l by simp
  moreover have "maps_ok ?st1" using Cons.prems(1) by (simp add: sweep_expired_def maps_ok_promote_keys)
  ultimately have "(ch, AState (Locked tid)) \<in> set (dl_out (sweeps gone cs' ?st1))"
    using Cons.IH [OF _ m(1)] m(2) Cons.prems(4-6,8) cs(1) l by simp
  then show ?case by (simp add: sweeps_def cs(1))
qed

theorem dlock_waiter_served_witness:
  "(12, AState (Locked 2)) \<in> set (dl_out (sweeps (\<lambda>_. False) [\<lambda>_. 11] ex_held))"
proof -
  let ?l = "\<lparr>current_ticket = Some 1, lease_exp = 10, lqueue = [2]\<rparr>"
  have "maps_ok ex_held" "lock_of ex_held ''k'' = Some ?l" "(2, 12) \<in> set (waiting ex_held ''k'')"
    by (simp_all add: ex_held_def maps_ok_def lock_of_def waiting_def)
  moreover have "spaced (lease_exp ?l) [\<lambda>_. 11]" by auto
  ultimately show ?thesis
    using dlock_waiter_served [of ex_held "''k''" ?l "[]" 2 "[]" 12 "\<lambda>_. False" "[\<lambda>_. 11]"] by simp
qed

section \<open>What does not hold\<close>

text \<open>C36. A newcomer can overtake the queue. The promotion and the decision read the clock separately: when the
  lease runs out between the two readings, nobody is promoted, and the newcomer is granted the lock although
  tickets are queued.\<close>

theorem dlock_newcomer_overtakes:
  assumes "lock_of st key = Some lock" and "current_ticket lock \<noteq> None" and "lqueue lock \<noteq> []"
    and "t1 \<le> lease_exp lock" and "lease_exp lock < t2" and "\<not> gone ack"
  shows "\<exists>st' lock'. handle_lock gone t1 t2 key log_id ack st = Ok st' \<and> lock_of st' key = Some lock' \<and>
    current_ticket lock' = Some log_id \<and> lqueue lock' = lqueue lock \<and>
    (ack, AState (Locked log_id)) \<in> set (dl_out st')"
proof -
  have "promoted t1 lock = lock" using assms(2,4) by (auto simp: promoted_def is_free_def)
  moreover define st1 where "st1 = promote_key gone t1 key st"
  ultimately have l: "map_of (dl_locks st1) key = Some lock"
    using assms(1) by (simp add: dl_simps lock_of_def [symmetric])
  let ?l = "lock\<lparr>current_ticket := Some log_id, lease_exp := t2 + lock_valid_seconds\<rparr>"
  have "handle_lock gone t1 t2 key log_id ack st
      = Ok (set_lock key ?l st1\<lparr>dl_out := dl_out st1 @ [(ack, AState (Locked log_id))]\<rparr>)"
    using l assms(5,6)
    by (simp add: handle_lock_def st1_def [symmetric] answer_def is_free_def dl_simps)
  then show ?thesis by (simp add: dl_simps)
qed

theorem dlock_newcomer_overtakes_witness:
  "\<exists>st' lock'. handle_lock (\<lambda>_. False) 10 11 ''k'' 7 15 ex_held = Ok st' \<and> lock_of st' ''k'' = Some lock' \<and>
     current_ticket lock' = Some 7 \<and> lqueue lock' = [2] \<and> (15, AState (Locked 7)) \<in> set (dl_out st')"
proof -
  let ?l = "\<lparr>current_ticket = Some 1, lease_exp = 10, lqueue = [2]\<rparr>"
  have "lock_of ex_held ''k'' = Some ?l" by (simp add: ex_held_def lock_of_def)
  from dlock_newcomer_overtakes [OF this, of 10 11 "\<lambda>_. False" 15 7] show ?thesis by simp
qed



end
