(* ===== verification/Cache_Sm_Props.thy ===== *)
theory Cache_Sm_Props
  imports Cache_Sm Kv_Handler_Props Dlock_Handler_Props
begin

text \<open>
  What the state machine of the cache satisfies. \<open>sm_ready\<close> is its invariant, composed of those of the tasks;
  \<open>advances\<close> relates the state before and after a step and says how the caches, seen as maps without expiry,
  change. From it follow that a batch of entries refines its meaning, that nodes with different clocks agree, and
  that a snapshot carries the whole state over.
\<close>

section \<open>Answers of the locks\<close>

text \<open>The channels the task of the locks has used or may still use.\<close>

definition lock_chans :: "dlock \<Rightarrow> nat set" where
  "lock_chans st = fst ` set (dl_out st) \<union> {ch. \<exists>key tid. (tid, ch) \<in> set (waiting st key)}"

lemma answers_chans: "fst ` set (answers gone acks v) \<subseteq> snd ` set acks"
  by (force simp: answers_def)

lemma lock_chans_promote: "lock_chans (promote gone now key lock st) \<subseteq> lock_chans st"
  using answers_chans [of gone "filter (\<lambda>e. fst e = hd (lqueue lock)) (waiting st key)" "Locked (hd (lqueue lock))"]
  by (force simp: lock_chans_def dl_simps split: if_splits)

lemma lock_chans_promote_key: "lock_chans (promote_key gone now key st) \<subseteq> lock_chans st"
  by (simp add: promote_key_def lock_chans_promote split: option.split)

lemma lock_chans_simps [dl_simps]:
  "lock_chans (set_lock key lock st) = lock_chans st"
  "lock_chans (st\<lparr>dl_out := dl_out st @ [(ch, v)]\<rparr>) = insert ch (lock_chans st)"
  by (auto simp: lock_chans_def dl_simps)

lemma lock_chans_out: "fst ` set (dl_out st) \<subseteq> lock_chans st"
  by (auto simp: lock_chans_def)

text \<open>The last answer is that to the request.\<close>

definition answered :: "nat \<Rightarrow> lock_answer \<Rightarrow> dlock \<Rightarrow> dlock \<Rightarrow> bool" where
  "answered ch a st st' \<longleftrightarrow> (\<exists>pre. dl_out st' = pre @ [(ch, a)] \<and> fst ` set pre \<subseteq> lock_chans st) \<and>
     lock_chans st' \<subseteq> insert ch (lock_chans st)"

lemma answeredI:
  assumes "answer gone ch a st1 = Ok st'" and "lock_chans st1 \<subseteq> lock_chans st"
  shows "answered ch a st st'"
  using assms lock_chans_out [of st1] by (auto simp: answered_def dl_simps)

lemma answered_map_of:
  assumes "answered ch a st st'" and "ch \<notin> lock_chans st"
  shows "map_of (dl_out st') ch = Some a"
proof -
  obtain pre where pre: "dl_out st' = pre @ [(ch, a)]" "fst ` set pre \<subseteq> lock_chans st"
    using assms(1) by (auto simp: answered_def)
  then have "map_of pre ch = None" using assms(2) by (auto simp: map_of_eq_None_iff)
  with pre(1) show ?thesis by (simp add: map_add_def)
qed

lemma answered_lock:
  assumes "handle_lock gone t1 t2 key tid ch st = Ok st'"
  shows "\<exists>s. answered ch (AState s) st st'"
proof -
  define st1 where "st1 = promote_key gone t1 key st"
  have c: "lock_chans st1 \<subseteq> lock_chans st" using lock_chans_promote_key st1_def by blast
  obtain s st2 where "answer gone ch (AState s) st2 = Ok st'" "lock_chans st2 = lock_chans st1"
    using assms [unfolded handle_lock_def Let_def, folded st1_def] lock_chans_simps(1) [of key _ st1]
    by (cases "map_of (dl_locks st1) key") (auto split: if_splits)
  with c answeredI show ?thesis by blast
qed

lemma answered_acquire:
  assumes "handle_acquire gone t1 t2 key tid ch st = Ok st'"
  shows "\<exists>s. answered ch (AState s) st st'"
proof -
  define st1 where "st1 = promote_key gone t1 key st"
  have c: "lock_chans st1 \<subseteq> lock_chans st" using lock_chans_promote_key st1_def by blast
  obtain s st2 where "answer gone ch (AState s) st2 = Ok st'" "lock_chans st2 = lock_chans st1"
    using assms [unfolded handle_acquire_def Let_def, folded st1_def] lock_chans_simps(1) [of key _ st1]
    by (cases "map_of (dl_locks st1) key") (auto split: if_splits)
  with c answeredI show ?thesis by blast
qed

lemma answered_alive:
  assumes "handle_alive gone t1 key tid ch st = Ok st'"
  shows "\<exists>s. answered ch (AState s) st st'"
proof -
  obtain s st2 where "answer gone ch (AState s) st2 = Ok st'" "lock_chans st2 = lock_chans st"
    using assms lock_chans_simps(1) [of key _ st]
    by (cases "map_of (dl_locks st) key") (auto simp: handle_alive_def split: if_splits)
  with answeredI show ?thesis by blast
qed

lemma answered_install:
  assumes "install_locks gone data ch st = Ok st'" and "maps_ok st"
  shows "answered ch AUnit st st'" and "dl_locks st' = data"
proof -
  let ?st2 = "tell gone (concat (map snd (dl_waiters st))) Released (st\<lparr>dl_locks := data, dl_waiters := []\<rparr>)"
  have w: "waiting ?st2 = (\<lambda>_. [])"
    by (simp add: waiting_def tell_def fun_eq_iff)
  have "snd ` set (concat (map snd (dl_waiters st))) \<subseteq> lock_chans st"
  proof
    fix ch
    assume "ch \<in> snd ` set (concat (map snd (dl_waiters st)))"
    then obtain key l tid where "(key, l) \<in> set (dl_waiters st)" "(tid, ch) \<in> set l"
      by auto
    then have "(tid, ch) \<in> set (waiting st key)"
      using assms(2) by (simp add: waiting_def maps_ok_def)
    then show "ch \<in> lock_chans st" unfolding lock_chans_def by blast
  qed
  then have "fst ` set (answers gone (concat (map snd (dl_waiters st))) Released) \<subseteq> lock_chans st"
    using answers_chans by (rule order_trans [rotated])
  moreover have "dl_out ?st2 = dl_out st @ answers gone (concat (map snd (dl_waiters st))) Released"
    by (simp add: dl_simps)
  ultimately have "lock_chans ?st2 \<subseteq> lock_chans st"
    using lock_chans_out [of st] w by (simp add: lock_chans_def [of ?st2] image_Un)
  with assms(1) show "answered ch AUnit st st'"
    unfolding install_locks_def by (rule answeredI)
  show "dl_locks st' = data"
    using assms(1) by (auto simp: install_locks_def dl_simps tell_def)
qed

lemma lock_chans_full_remove: "lock_chans (full_remove gone key st) \<subseteq> lock_chans st"
proof (cases "map_of (dl_waiters st) key")
  case None
  then show ?thesis by (auto simp: full_remove_def lock_chans_def waiting_def)
next
  case (Some acks)
  have "dl_out (full_remove gone key st) = dl_out st @ answers gone acks Released"
    using Some by (simp add: full_remove_def tell_def answers_def)
  moreover have "waiting (full_remove gone key st) k = (if k = key then [] else waiting st k)" for k
    by (simp add: dl_simps)
  moreover have "waiting st key = acks" using Some by (simp add: waiting_def)
  moreover have "snd ` set acks \<subseteq> lock_chans st"
    using calculation(3) by (force simp: lock_chans_def)
  then have "fst ` set (answers gone acks Released) \<subseteq> lock_chans st"
    using answers_chans by (rule order_trans [rotated])
  moreover have "{ch. \<exists>k tid. (tid, ch) \<in> set (if k = key then [] else waiting st k)} \<subseteq> lock_chans st"
    by (auto simp: lock_chans_def split: if_splits)
  ultimately show ?thesis
    using lock_chans_out [of st] by (simp add: lock_chans_def [of "full_remove gone key st"] image_Un)
qed

lemma lock_chans_release: "lock_chans (handle_release gone t1 key tid st) \<subseteq> lock_chans st"
proof (cases "map_of (dl_locks st) key")
  case None
  then show ?thesis by (simp add: handle_release_def)
next
  case (Some lock)
  let ?st1 = "promote gone t1 key (lock\<lparr>current_ticket := None\<rparr>) st"
  have "lock_chans (full_remove gone key ?st1) \<subseteq> lock_chans st"
    using lock_chans_full_remove lock_chans_promote by (rule order_trans)
  then show ?thesis
    using Some lock_chans_promote [of gone t1 key "lock\<lparr>current_ticket := None\<rparr>" st]
    by (simp add: handle_release_def Let_def split: option.split)
qed

section \<open>Well-formed states\<close>

definition env_ok :: "cache_env \<Rightarrow> nat \<Rightarrow> bool" where
  "env_ok env chan \<longleftrightarrow> (\<forall>idx. clock_ok (clk_kv env idx)) \<and> (\<forall>ch\<ge>chan. \<not> rx_gone env ch) \<and> \<not> listener_closed env 0"

text \<open>The tasks are well-formed, the reply channels still to be used are fresh and their receivers, which the state
  machine itself awaits, are not dropped.\<close>

definition sm_ready :: "cache_env \<Rightarrow> 'm cache_sm \<Rightarrow> bool" where
  "sm_ready env sm \<longleftrightarrow> env_ok env (sm_chan sm) \<and> list_all (\<lambda>t. kv_ok (snd t)) (sm_caches sm) \<and>
     dl_ok (snd (sm_locks sm)) \<and> (\<forall>ch\<in>lock_chans (snd (sm_locks sm)). ch < sm_chan sm) \<and>
     list_all (\<lambda>l. \<not> listener_bounded env l) (listeners (sm_notify sm))"

text \<open>The caches as maps, with the entries that have expired still in them.\<close>

type_synonym cache_abs = "(string \<rightharpoonup> bytes \<times> int option) \<times> (string \<rightharpoonup> int)"

definition caches_rel :: "cache_env \<Rightarrow> 'm cache_sm \<Rightarrow> cache_abs list \<Rightarrow> bool" where
  "caches_rel env sm cs \<longleftrightarrow> length cs = length (sm_caches sm) \<and>
     (\<forall>idx<length cs. \<exists>t. kv_rel (clk_kv env idx) (sm_caches sm ! idx) (t, cs ! idx))"

fun pure_kv :: "cache_request_handler \<Rightarrow> cache_abs \<Rightarrow> cache_abs" where
  "pure_kv (Put k v e) (A, C) = (A(k \<mapsto> (v, e)), C)"
| "pure_kv (GetRemove k) (A, C) = (A(k := None), C)"
| "pure_kv (Replace k v e) (A, C) = (A(k \<mapsto> (v, e)), C)"
| "pure_kv (Delete k) (A, C) = (A(k := None), C)"
| "pure_kv Clear (A, C) = (Map.empty, C)"
| "pure_kv ClearCounters (A, C) = (A, Map.empty)"
| "pure_kv (SnapshotInstall (vs, cs)) (A, C) = (map_of vs, map_of cs)"
| "pure_kv (CounterSet k c) (A, C) = (A, C(k \<mapsto> c))"
| "pure_kv (CounterAdd k d) (A, C) = (A, C(k \<mapsto> (case C k of None \<Rightarrow> d | Some c \<Rightarrow> saturating_add c d)))"
| "pure_kv (CounterDel k) (A, C) = (A, C(k := None))"
| "pure_kv req (A, C) = (A, C)"

lemma lazy_spec_pure: "lazy_spec t req A C r A' C' \<Longrightarrow> (A', C') = pure_kv req (A, C)"
  by (cases "(req, (A, C))" rule: pure_kv.cases) (auto simp: Let_def)

text \<open>What a step does to the whole state machine: the tasks stay well-formed and the caches change by \<open>f\<close>.\<close>

definition advances :: "cache_env \<Rightarrow> 'm cache_sm \<Rightarrow> (cache_abs list \<Rightarrow> cache_abs list) \<Rightarrow> 'm cache_sm \<Rightarrow> bool" where
  "advances env sm f sm' \<longleftrightarrow> sm_ready env sm' \<and> sm_applied sm' = sm_applied sm \<and>
     sm_membership sm' = sm_membership sm \<and> length (sm_caches sm') = length (sm_caches sm) \<and>
     (\<forall>cs. caches_rel env sm cs \<longrightarrow> caches_rel env sm' (f cs))"

lemma advances_refl: "sm_ready env sm \<Longrightarrow> advances env sm (\<lambda>cs. cs) sm"
  by (simp add: advances_def)

lemma advances_trans: "advances env sm f sm' \<Longrightarrow> advances env sm' g sm'' \<Longrightarrow> advances env sm (\<lambda>cs. g (f cs)) sm''"
  by (simp add: advances_def)


lemma send_cache_ok:
  assumes ok: "sm_ready env sm" and idx: "idx < length (sm_caches sm)" and acc: "kv_accepts (Recv req)"
  shows "\<exists>r sm'. send_cache env idx req sm = Ok (r, sm') \<and> (\<exists>t st. r = fst (handle_kv t req st)) \<and>
    advances env sm (\<lambda>cs. cs[idx := pure_kv req (cs ! idx)]) sm'"
proof -
  let ?clk = "clk_kv env idx" and ?s = "sm_caches sm ! idx"
  have clk: "clock_ok ?clk" and kv: "kv_ok (snd ?s)"
    using ok idx by (auto simp: sm_ready_def env_ok_def list_all_length)
  obtain r s' where step: "kv_step ?clk (Recv req) ?s = Ok (r, s')" "kv_ok (snd s')"
    using kv_step_total [OF clk kv acc] by blast
  let ?sm = "sm\<lparr>sm_caches := (sm_caches sm)[idx := s']\<rparr>"
  have "sm_ready env ?sm"
    using ok step(2) idx by (auto simp: sm_ready_def list_all_length nth_list_update)
  moreover have "caches_rel env ?sm (cs[idx := pure_kv req (cs ! idx)])" if rel: "caches_rel env sm cs" for cs
  proof -
    obtain t where t: "kv_rel ?clk ?s (t, cs ! idx)"
      using rel idx by (auto simp: caches_rel_def)
    obtain t' A' C' where n: "kv_spec ?clk (Recv req) (t, cs ! idx) r (t', A', C')" "kv_rel ?clk s' (t', A', C')"
      using kv_step_refines [OF clk kv acc t step(1)] by auto
    have "pure_kv req (cs ! idx) = (A', C')"
      using n(1) lazy_spec_pure by (cases "cs ! idx") auto
    then show ?thesis
      using rel n(2) idx by (auto simp: caches_rel_def nth_list_update)
  qed
  ultimately have "advances env sm (\<lambda>cs. cs[idx := pure_kv req (cs ! idx)]) ?sm"
    by (simp add: advances_def)
  moreover have "\<exists>t st. r = fst (handle_kv t req st)"
    using step(1) by (cases ?s) (auto simp: kv_step_def rbind_eq_Ok case_prod_beta Let_def)
  moreover have "send_cache env idx req sm = Ok (r, ?sm)"
    using idx step(1) by (simp add: send_cache_def from_task_def)
  ultimately show ?thesis by blast
qed

section \<open>Requests to the locks and notifications\<close>

lemma ask_locks_ok:
  assumes ok: "sm_ready env sm" and run: "\<And>ch. \<not> rx_gone env ch \<Longrightarrow> dl_accepts (rx_gone env) (LRecv (req ch))"
    and ans: "\<And>t1 t2 st'. handle_request (rx_gone env) t1 t2 (req (sm_chan sm)) (snd (sm_locks sm)) = Ok st' \<Longrightarrow>
      \<exists>a. answered (sm_chan sm) a (snd (sm_locks sm)) st' \<and> P a st'"
  shows "\<exists>a sm'. ask_locks env req sm = Ok (a, sm') \<and> P a (snd (sm_locks sm')) \<and> advances env sm (\<lambda>cs. cs) sm' \<and>
    sm_caches sm' = sm_caches sm"
proof -
  let ?ch = "sm_chan sm" and ?s = "sm_locks sm"
  have g: "\<not> rx_gone env ?ch" and fresh: "?ch \<notin> lock_chans (snd ?s)" and dl: "dl_ok (snd ?s)"
    using ok by (auto simp: sm_ready_def env_ok_def)
  obtain u s' where step: "dlock_step (rx_gone env) (clk_locks env) (LRecv (req ?ch)) ?s = Ok (u, s')" "dl_ok (snd s')"
    using dlock_step_total [OF dl run [OF g], of "clk_locks env"] by blast
  then obtain t1 t2 where "handle_request (rx_gone env) t1 t2 (req ?ch) (snd ?s) = Ok (snd s')"
    by (cases ?s) (auto simp: dlock_step_def rbind_eq_Ok)
  from ans [OF this] obtain a where a: "answered ?ch a (snd ?s) (snd s')" "P a (snd s')" by blast
  let ?sm = "sm\<lparr>sm_chan := Suc ?ch, sm_locks := s'\<rparr>"
  have "lock_chans (snd s') \<subseteq> insert ?ch (lock_chans (snd ?s))"
    using a(1) by (simp add: answered_def)
  then have "sm_ready env ?sm"
    using ok step(2) by (fastforce simp: sm_ready_def env_ok_def)
  then have "advances env sm (\<lambda>cs. cs) ?sm"
    by (simp add: advances_def caches_rel_def)
  moreover have "ask_locks env req sm = Ok (a, ?sm)"
    using step(1) answered_map_of [OF a(1) fresh]
    by (simp add: ask_locks_def send_locks_def from_task_def)
  ultimately show ?thesis using a(2) by (intro exI [of _ a] exI [of _ ?sm]) simp
qed

lemma send_release_ok:
  assumes ok: "sm_ready env sm"
  shows "\<exists>sm'. send_locks env (LRelease key tid) sm = Ok sm' \<and> advances env sm (\<lambda>cs. cs) sm'"
proof -
  let ?s = "sm_locks sm"
  let ?t = "(fst ?s + 2, handle_release (rx_gone env) (clk_locks env (fst ?s)) key tid (snd ?s))"
  have "sm_ready env (sm\<lparr>sm_locks := ?t\<rparr>)"
    using ok dl_ok_release lock_chans_release unfolding sm_ready_def by fastforce
  then have "advances env sm (\<lambda>cs. cs) (sm\<lparr>sm_locks := ?t\<rparr>)"
    by (simp add: advances_def caches_rel_def)
  moreover have "send_locks env (LRelease key tid) sm = Ok (sm\<lparr>sm_locks := ?t\<rparr>)"
    by (cases ?s) (simp add: send_locks_def dlock_step_def from_task_def)
  ultimately show ?thesis by blast
qed

lemma send_notify_ok:
  assumes ok: "sm_ready env sm"
  shows "\<exists>sm'. send_notify env n sm = Ok sm' \<and> advances env sm (\<lambda>cs. cs) sm'"
proof -
  obtain u t where t: "notify_step 0 (listener_bounded env) (listener_closed env, Notify n) (sm_notify sm) = Ok (u, t)"
      "list_all (\<lambda>l. \<not> listener_bounded env l) (listeners t)"
    using notify_task.step_total [of "listener_bounded env" "sm_notify sm" 0 "(listener_closed env, Notify n)"] ok
    by (auto simp: sm_ready_def env_ok_def)
  have "sm_ready env (sm\<lparr>sm_notify := t\<rparr>)" using ok t(2) by (simp add: sm_ready_def)
  then have "advances env sm (\<lambda>cs. cs) (sm\<lparr>sm_notify := t\<rparr>)"
    by (simp add: advances_def caches_rel_def)
  then show ?thesis using t(1) by (simp add: send_notify_def from_task_def del: notify_step.simps)
qed

section \<open>Applying entries\<close>

text \<open>The requests that may come through the log: reads and awaits never do, and the index is that of a cache.\<close>

fun request_ok :: "nat \<Rightarrow> cache_request \<Rightarrow> bool" where
  "request_ok n (CrPut idx key v e) \<longleftrightarrow> idx < n \<and> expires_ok e"
| "request_ok n (CrGetRemove idx key) \<longleftrightarrow> idx < n"
| "request_ok n (CrReplace idx key v e) \<longleftrightarrow> idx < n \<and> expires_ok e"
| "request_ok n (CrDelete idx key) \<longleftrightarrow> idx < n"
| "request_ok n (CrClear idx) \<longleftrightarrow> idx < n"
| "request_ok n (CrClearCounters idx) \<longleftrightarrow> idx < n"
| "request_ok n (CrCounterSet idx key c) \<longleftrightarrow> idx < n \<and> is_i64 c"
| "request_ok n (CrCounterAdd idx key c) \<longleftrightarrow> idx < n \<and> is_i64 c"
| "request_ok n (CrCounterDel idx key) \<longleftrightarrow> idx < n"
| "request_ok n (CrGet idx key) \<longleftrightarrow> False"
| "request_ok n (CrCounterGet idx key) \<longleftrightarrow> False"
| "request_ok n (CrLockAwait key tid) \<longleftrightarrow> False"
| "request_ok n req \<longleftrightarrow> True"

definition at_cache :: "nat \<Rightarrow> cache_request_handler \<Rightarrow> cache_abs list \<Rightarrow> cache_abs list" where
  "at_cache idx req cs = cs[idx := pure_kv req (cs ! idx)]"

fun pure_request :: "cache_request \<Rightarrow> cache_abs list \<Rightarrow> cache_abs list" where
  "pure_request (CrPut idx key v e) cs = at_cache idx (Put key v e) cs"
| "pure_request (CrGetRemove idx key) cs = at_cache idx (GetRemove key) cs"
| "pure_request (CrReplace idx key v e) cs = at_cache idx (Replace key v e) cs"
| "pure_request (CrDelete idx key) cs = at_cache idx (Delete key) cs"
| "pure_request (CrClear idx) cs = at_cache idx Clear cs"
| "pure_request (CrClearCounters idx) cs = at_cache idx ClearCounters cs"
| "pure_request CrClearAll cs = map (\<lambda>_. (Map.empty, Map.empty)) cs"
| "pure_request (CrCounterSet idx key c) cs = at_cache idx (CounterSet key c) cs"
| "pure_request (CrCounterAdd idx key c) cs = at_cache idx (CounterAdd key c) cs"
| "pure_request (CrCounterDel idx key) cs = at_cache idx (CounterDel key) cs"
| "pure_request req cs = cs"

lemma put_ok_send:
  assumes "sm_ready env sm" and "idx < length (sm_caches sm)" and "kv_accepts (Recv req)"
  shows "\<exists>resp sm'. put_ok (send_cache env idx req sm) = Ok (resp, sm') \<and> advances env sm (at_cache idx req) sm'"
  using send_cache_ok [OF assms] by (auto simp: put_ok_def at_cache_def [abs_def])

lemma reply_send:
  assumes "sm_ready env sm" and "idx < length (sm_caches sm)" and "kv_accepts (Recv req)"
    and "\<And>t st. \<exists>resp. f (fst (handle_kv t req st)) = Ok resp"
  shows "\<exists>resp sm'. reply_with f (send_cache env idx req sm) = Ok (resp, sm') \<and> advances env sm (at_cache idx req) sm'"
proof -
  obtain r sm' t st where "send_cache env idx req sm = Ok (r, sm')" "r = fst (handle_kv t req st)"
      "advances env sm (at_cache idx req) sm'"
    using send_cache_ok [OF assms(1-3)] by (auto simp: at_cache_def [abs_def])
  with assms(4) [of t st] show ?thesis by (auto simp: reply_with_def)
qed

lemma advances_cong:
  assumes "advances env sm f sm'" and "\<And>cs. length cs = length (sm_caches sm) \<Longrightarrow> f cs = g cs"
  shows "advances env sm g sm'"
  using assms by (auto simp: advances_def caches_rel_def)

definition empty_cache :: cache_abs where
  "empty_cache = (Map.empty, Map.empty)"

lemma at_cache_clear:
  assumes "idx < length cs"
  shows "at_cache idx ClearCounters (at_cache idx Clear cs) = cs[idx := empty_cache]"
  using assms by (cases "cs ! idx") (simp add: at_cache_def empty_cache_def)

lemma clear_all_ok:
  assumes "sm_ready env sm" and "\<And>idx. idx \<in> set idxs \<Longrightarrow> idx < length (sm_caches sm)"
  shows "\<exists>sm'. clear_all env idxs sm = Ok sm' \<and>
    advances env sm (\<lambda>cs. fold (\<lambda>idx cs. cs[idx := empty_cache]) idxs cs) sm'"
  using assms
proof (induction idxs arbitrary: sm)
  case Nil
  then show ?case by (simp add: advances_refl)
next
  case (Cons idx idxs)
  obtain r1 sm1 where 1: "send_cache env idx Clear sm = Ok (r1, sm1)" "advances env sm (at_cache idx Clear) sm1"
    using send_cache_ok [of env sm idx Clear] Cons.prems by (auto simp: at_cache_def [abs_def])
  then obtain r2 sm2 where 2: "send_cache env idx ClearCounters sm1 = Ok (r2, sm2)"
      "advances env sm1 (at_cache idx ClearCounters) sm2"
    using send_cache_ok [of env sm1 idx ClearCounters] Cons.prems
    by (auto simp: at_cache_def [abs_def] advances_def)
  have 12: "advances env sm (\<lambda>cs. cs[idx := empty_cache]) sm2"
    using advances_trans [OF 1(2) 2(2)] by (rule advances_cong) (simp add: at_cache_clear Cons.prems(2))
  obtain sm' where "clear_all env idxs sm2 = Ok sm'"
      "advances env sm2 (\<lambda>cs. fold (\<lambda>idx cs. cs[idx := empty_cache]) idxs cs) sm'"
    using Cons.IH [of sm2] 12 Cons.prems(2) by (auto simp: advances_def)
  with 1(1) 2(1) advances_trans [OF 12] show ?case by auto
qed

lemma fold_update_all: "n \<le> length cs \<Longrightarrow> fold (\<lambda>i cs. cs[i := z]) [0..<n] cs = replicate n z @ drop n cs"
proof (induction n)
  case 0
  then show ?case by simp
next
  case (Suc n)
  then have "fold (\<lambda>i cs. cs[i := z]) [0..<Suc n] cs = (replicate n z @ drop n cs)[n := z]" by simp
  also have "\<dots> = replicate n z @ (drop n cs)[0 := z]" by (simp add: list_update_append)
  also have "(drop n cs)[0 := z] = z # drop (Suc n) cs"
    using Suc.prems by (cases "drop n cs") (auto simp: drop_Suc tl_drop [symmetric])
  finally show ?case by (simp add: replicate_append_same)
qed

lemma clear_all_map:
  assumes "sm_ready env sm"
  shows "\<exists>sm'. clear_all env [0..<length (sm_caches sm)] sm = Ok sm' \<and>
    advances env sm (\<lambda>cs. map (\<lambda>_. (Map.empty, Map.empty)) cs) sm'"
proof -
  obtain sm' where "clear_all env [0..<length (sm_caches sm)] sm = Ok sm'"
    "advances env sm (\<lambda>cs. fold (\<lambda>idx cs. cs[idx := empty_cache]) [0..<length (sm_caches sm)] cs) sm'"
    using clear_all_ok [OF assms, of "[0..<length (sm_caches sm)]"] by auto
  moreover have "fold (\<lambda>idx cs. cs[idx := empty_cache]) [0..<length (sm_caches sm)] cs = map (\<lambda>_. (Map.empty, Map.empty)) cs"
    if "length cs = length (sm_caches sm)" for cs
    using that fold_update_all [of "length cs" cs empty_cache] by (simp add: map_replicate_const empty_cache_def)
  ultimately show ?thesis using advances_cong by blast
qed

lemma ask_lock_state:
  assumes "sm_ready env sm"
    and "\<And>ch. (\<exists>key tid. req ch = LLock key tid ch) \<or> (\<exists>key tid. req ch = LAcquire key tid ch) \<or> (\<exists>key tid. req ch = LAlive key tid ch)"
  shows "\<exists>resp sm'. reply_with as_lock (ask_locks env req sm) = Ok (resp, sm') \<and> advances env sm (\<lambda>cs. cs) sm'"
proof -
  have "\<exists>a sm'. ask_locks env req sm = Ok (a, sm') \<and> (\<exists>s. a = AState s) \<and> advances env sm (\<lambda>cs. cs) sm' \<and>
      sm_caches sm' = sm_caches sm"
  proof (rule ask_locks_ok [OF assms(1)])
    show "dl_accepts (rx_gone env) (LRecv (req ch))" if "\<not> rx_gone env ch" for ch
      using assms(2) [of ch] that by auto
    show "\<exists>a. answered (sm_chan sm) a (snd (sm_locks sm)) st' \<and> (\<exists>s. a = AState s)"
      if "handle_request (rx_gone env) t1 t2 (req (sm_chan sm)) (snd (sm_locks sm)) = Ok st'" for t1 t2 st'
      using assms(2) [of "sm_chan sm"] that answered_lock answered_acquire answered_alive by fastforce
  qed
  then show ?thesis by (auto simp: reply_with_def)
qed

lemma pure_request_fun:
  "pure_request (CrPut idx key v e) = at_cache idx (Put key v e)"
  "pure_request (CrGetRemove idx key) = at_cache idx (GetRemove key)"
  "pure_request (CrReplace idx key v e) = at_cache idx (Replace key v e)"
  "pure_request (CrDelete idx key) = at_cache idx (Delete key)"
  "pure_request (CrClear idx) = at_cache idx Clear"
  "pure_request (CrClearCounters idx) = at_cache idx ClearCounters"
  "pure_request CrClearAll = map (\<lambda>_. (Map.empty, Map.empty))"
  "pure_request (CrCounterSet idx key c) = at_cache idx (CounterSet key c)"
  "pure_request (CrCounterAdd idx key c) = at_cache idx (CounterAdd key c)"
  "pure_request (CrCounterDel idx key) = at_cache idx (CounterDel key)"
  "pure_request (CrNotify n) = (\<lambda>cs. cs)"
  "pure_request (CrLock key tid) = (\<lambda>cs. cs)"
  "pure_request (CrLockAlive key t) = (\<lambda>cs. cs)"
  "pure_request (CrLockRelease key t) = (\<lambda>cs. cs)"
  by (simp_all add: fun_eq_iff)

lemma apply_request_ok:
  assumes ok: "sm_ready env sm" and req: "request_ok (length (sm_caches sm)) req"
  shows "\<exists>resp sm'. apply_request env lid req sm = Ok (resp, sm') \<and> advances env sm (pure_request req) sm'"
proof (cases req)
  case (CrPut idx key v e)
  with put_ok_send [OF ok, of idx "Put key v e"] req show ?thesis by (simp add: pure_request_fun)
next
  case (CrGetRemove idx key)
  with reply_send [OF ok, of idx "GetRemove key" as_value] req show ?thesis by (simp add: pure_request_fun)
next
  case (CrReplace idx key v e)
  with reply_send [OF ok, of idx "Replace key v e" as_value] req show ?thesis by (simp add: pure_request_fun)
next
  case (CrDelete idx key)
  with put_ok_send [OF ok, of idx "Delete key"] req show ?thesis by (simp add: pure_request_fun)
next
  case (CrClear idx)
  with put_ok_send [OF ok, of idx Clear] req show ?thesis by (simp add: pure_request_fun)
next
  case (CrClearCounters idx)
  with put_ok_send [OF ok, of idx ClearCounters] req show ?thesis by (simp add: pure_request_fun)
next
  case CrClearAll
  with clear_all_map [OF ok] show ?thesis by (auto simp: pure_request_fun)
next
  case (CrNotify n)
  with send_notify_ok [OF ok, of n] show ?thesis by (auto simp: pure_request_fun)
next
  case (CrLock key tid)
  have "\<exists>resp sm'. reply_with as_lock (ask_locks env (\<lambda>ch. case tid of
        Some log_id \<Rightarrow> LAcquire key log_id ch | None \<Rightarrow> LLock key (lid_index lid) ch) sm) = Ok (resp, sm') \<and>
      advances env sm (\<lambda>cs. cs) sm'"
    by (rule ask_lock_state [OF ok]) (simp split: option.split)
  with CrLock show ?thesis by (simp add: pure_request_fun)
next
  case (CrLockAlive key tid)
  with ask_lock_state [OF ok, of "\<lambda>ch. LAlive key tid ch"] show ?thesis by (simp add: pure_request_fun)
next
  case (CrLockRelease key tid)
  with send_release_ok [OF ok, of key tid] show ?thesis by (auto simp: pure_request_fun)
next
  case (CrCounterSet idx key c)
  with put_ok_send [OF ok, of idx "CounterSet key c"] req show ?thesis by (simp add: pure_request_fun)
next
  case (CrCounterAdd idx key c)
  with reply_send [OF ok, of idx "CounterAdd key c" as_counter] req show ?thesis by (simp add: Let_def pure_request_fun)
next
  case (CrCounterDel idx key)
  with put_ok_send [OF ok, of idx "CounterDel key"] req show ?thesis by (simp add: pure_request_fun)
qed (use req in simp_all)

fun entry_payload_ok :: "nat \<Rightarrow> 'm entry_payload \<Rightarrow> bool" where
  "entry_payload_ok n (Normal req) \<longleftrightarrow> request_ok n req"
| "entry_payload_ok n p \<longleftrightarrow> True"

text \<open>What the entries mean, without tasks, clocks and channels.\<close>

definition pure_entry :: "'m cache_entry \<Rightarrow> cache_abs list \<Rightarrow> cache_abs list" where
  "pure_entry e cs = (case ce_payload e of Normal req \<Rightarrow> pure_request req cs | _ \<Rightarrow> cs)"

definition member_entry :: "'m cache_entry \<Rightarrow> 'm stored_membership \<Rightarrow> 'm stored_membership" where
  "member_entry e m = (case ce_payload e of Membership mem \<Rightarrow> (Some (ce_log_id e), mem) | _ \<Rightarrow> m)"

definition cache_entries_ok :: "nat \<Rightarrow> 'm cache_entry list \<Rightarrow> bool" where
  "cache_entries_ok n es \<longleftrightarrow> list_all (\<lambda>e. entry_payload_ok n (ce_payload e)) es"

lemma apply_entry_ok:
  assumes ok: "sm_ready env sm" and e: "entry_payload_ok (length (sm_caches sm)) (ce_payload e)"
  shows "\<exists>resp sm'. apply_entry env e sm = Ok (resp, sm') \<and> sm_ready env sm' \<and>
    length (sm_caches sm') = length (sm_caches sm) \<and> sm_membership sm' = member_entry e (sm_membership sm) \<and>
    (\<forall>cs. caches_rel env sm cs \<longrightarrow> caches_rel env sm' (pure_entry e cs))"
proof (cases "ce_payload e")
  case Blank
  with ok show ?thesis by (simp add: apply_entry_def member_entry_def pure_entry_def)
next
  case (Normal req)
  with apply_request_ok [OF ok, of req "ce_log_id e"] e show ?thesis
    by (auto simp: apply_entry_def advances_def member_entry_def pure_entry_def)
next
  case (Membership mem)
  with ok show ?thesis by (simp add: apply_entry_def sm_ready_def caches_rel_def member_entry_def pure_entry_def)
qed

lemma apply_entries_ok:
  assumes "sm_ready env sm" and "cache_entries_ok (length (sm_caches sm)) es"
  shows "\<exists>resps sm'. apply_entries env es lst sm = Ok (resps, (if es = [] then lst else Some (ce_log_id (last es))), sm') \<and>
    length resps = length es \<and> sm_ready env sm' \<and> length (sm_caches sm') = length (sm_caches sm) \<and>
    sm_membership sm' = fold member_entry es (sm_membership sm) \<and>
    (\<forall>cs. caches_rel env sm cs \<longrightarrow> caches_rel env sm' (fold pure_entry es cs))"
  using assms
proof (induction es arbitrary: lst sm)
  case Nil
  then show ?case by simp
next
  case (Cons e es)
  obtain resp sm1 where 1: "apply_entry env e sm = Ok (resp, sm1)" "sm_ready env sm1"
      "length (sm_caches sm1) = length (sm_caches sm)" "sm_membership sm1 = member_entry e (sm_membership sm)"
      "\<And>cs. caches_rel env sm cs \<Longrightarrow> caches_rel env sm1 (pure_entry e cs)"
    using apply_entry_ok [OF Cons.prems(1), of e] Cons.prems(2) by (auto simp: cache_entries_ok_def)
  obtain resps sm2 where 2:
      "apply_entries env es (Some (ce_log_id e)) sm1
        = Ok (resps, (if es = [] then Some (ce_log_id e) else Some (ce_log_id (last es))), sm2)"
      "length resps = length es" "sm_ready env sm2" "length (sm_caches sm2) = length (sm_caches sm1)"
      "sm_membership sm2 = fold member_entry es (sm_membership sm1)"
      "\<And>cs. caches_rel env sm1 cs \<Longrightarrow> caches_rel env sm2 (fold pure_entry es cs)"
    using Cons.IH [OF 1(2), of "Some (ce_log_id e)"] Cons.prems(2) 1(3) by (auto simp: cache_entries_ok_def)
  show ?case
    using 1 2 by (intro exI [of _ "resp # resps"] exI [of _ sm2]) auto
qed

lemma apply_sm_ok:
  assumes "sm_ready env sm" and "cache_entries_ok (length (sm_caches sm)) es" and "es \<noteq> []"
  shows "\<exists>resps sm'. apply_sm env es sm = Ok (resps, sm') \<and> length resps = length es \<and> sm_ready env sm' \<and>
    length (sm_caches sm') = length (sm_caches sm) \<and> sm_applied sm' = Some (ce_log_id (last es)) \<and>
    sm_membership sm' = fold member_entry es (sm_membership sm) \<and>
    (\<forall>cs. caches_rel env sm cs \<longrightarrow> caches_rel env sm' (fold pure_entry es cs))"
proof -
  obtain resps sm1 where "apply_entries env es None sm = Ok (resps, Some (ce_log_id (last es)), sm1)"
      "length resps = length es" "sm_ready env sm1" "length (sm_caches sm1) = length (sm_caches sm)"
      "sm_membership sm1 = fold member_entry es (sm_membership sm)"
      "\<And>cs. caches_rel env sm cs \<Longrightarrow> caches_rel env sm1 (fold pure_entry es cs)"
    using apply_entries_ok [OF assms(1,2), of None] assms(3) by auto
  then show ?thesis
    by (intro exI [of _ resps] exI [of _ "sm1\<lparr>sm_applied := Some (ce_log_id (last es))\<rparr>"])
      (simp add: apply_sm_def sm_ready_def caches_rel_def)
qed

section \<open>The state machine refines the log\<close>


definition ex_env :: cache_env where
  "ex_env = \<lparr>clk_kv = (\<lambda>_. ex_clk), clk_locks = (\<lambda>_. 0), rx_gone = (\<lambda>_. False), listener_closed = (\<lambda>_. False),
     listener_bounded = (\<lambda>_. False)\<rparr>"

definition ex_sm :: "nat cache_sm" where
  "ex_sm = \<lparr>sm_applied = None, sm_membership = (None, 0), sm_snapshot_mem = None,
     sm_caches = [(0, kv_start), (0, ex_kv)], sm_locks = (0, dlock_start), sm_notify = notify_start, sm_chan = 0\<rparr>"

definition ex_lid :: "nat \<Rightarrow> log_id_rec" where
  "ex_lid i = \<lparr>lid_term = 1, lid_node = 1, lid_index = i\<rparr>"

definition ex_entries :: "nat cache_entry list" where
  "ex_entries = [\<lparr>ce_log_id = ex_lid 1, ce_payload = Membership 7\<rparr>,
     \<lparr>ce_log_id = ex_lid 2, ce_payload = Normal (CrPut 0 ''k'' [9] None)\<rparr>,
     \<lparr>ce_log_id = ex_lid 3, ce_payload = Normal (CrLock ''l'' None)\<rparr>,
     \<lparr>ce_log_id = ex_lid 4, ce_payload = Normal (CrCounterAdd 1 ''n'' 3)\<rparr>]"

definition ex_abs :: "cache_abs list" where
  "ex_abs = [(Map.empty, Map.empty), (map_of (kv_vals ex_kv), Map.empty)]"

lemma ex_sm_ready: "sm_ready ex_env ex_sm"
  using ex_clk_ok kv_ok_start ex_kv_ok dl_ok_start
  by (simp add: sm_ready_def ex_env_def ex_sm_def env_ok_def lock_chans_def dlock_start_def waiting_def notify_start_def)

lemma ex_sm_rel: "caches_rel ex_env ex_sm ex_abs"
proof -
  have c: "kv_counts ex_kv = []" by (simp add: ex_kv_def kv_start_def put_value_def)
  have "kv_rel ex_clk (0, kv_start) (0, Map.empty, Map.empty)"
    by (simp add: kv_start_def ex_clk_def)
  moreover have "kv_rel ex_clk (0, ex_kv) (0, map_of (kv_vals ex_kv), Map.empty)"
    using c by (simp add: ex_clk_def)
  ultimately show ?thesis
    unfolding caches_rel_def ex_sm_def ex_env_def ex_abs_def by (auto simp: less_Suc_eq simp del: kv_rel.simps)
qed

lemma ex_entries_ok: "cache_entries_ok (length (sm_caches ex_sm)) ex_entries" "ex_entries \<noteq> []"
  by (simp_all add: cache_entries_ok_def ex_entries_def ex_sm_def expires_ok_def is_i64_def i64_min_def i64_max_def)



definition ex_env2 :: cache_env where
  "ex_env2 = ex_env\<lparr>clk_kv := (\<lambda>_ _. 50)\<rparr>"

lemma ex_env2_ready: "sm_ready ex_env2 ex_sm" "caches_rel ex_env2 ex_sm ex_abs"
proof -
  have "clock_ok (\<lambda>_. 50)" by (simp add: clock_ok_def mono_def i64_max_def)
  then show "sm_ready ex_env2 ex_sm"
    using ex_sm_ready by (simp add: sm_ready_def ex_env2_def env_ok_def ex_env_def)
  have c: "kv_counts ex_kv = []" by (simp add: ex_kv_def kv_start_def put_value_def)
  have "kv_rel (\<lambda>_. 50) (0, kv_start) (0, Map.empty, Map.empty)"
    "kv_rel (\<lambda>_. 50) (0, ex_kv) (0, map_of (kv_vals ex_kv), Map.empty)"
    using c by (simp_all add: kv_start_def)
  then show "caches_rel ex_env2 ex_sm ex_abs"
    unfolding caches_rel_def ex_sm_def ex_env2_def ex_env_def ex_abs_def by (auto simp: less_Suc_eq simp del: kv_rel.simps)
qed


section \<open>Snapshots\<close>

text \<open>What bincode documents: decoding what was encoded gives it back, a hash map up to the order of its entries.\<close>

definition cache_codec_ok :: "'m cache_codec \<Rightarrow> bool" where
  "cache_codec_ok cod \<longleftrightarrow> (\<forall>l bs. ser_locks cod l = Some bs \<longrightarrow> (\<exists>l'. de_locks cod bs = Some l' \<and> mset l' = mset l)) \<and>
     (\<forall>c bs. ser_content cod c = Some bs \<longrightarrow> de_content cod bs = Some c)"

definition cache_contents :: "nat \<times> kv_state \<Rightarrow> cache_snapshot" where
  "cache_contents t = (kv_vals (snd t), kv_counts (snd t))"

lemma contents_accepted: "kv_ok (snd t) \<Longrightarrow> kv_accepts (Recv (SnapshotInstall (cache_contents t)))"
proof -
  assume ok: "kv_ok (snd t)"
  note D = kv_okD [OF ok]
  have "expires_ok e" if "(k, v, e) \<in> set (kv_vals (snd t))" for k v e
  proof -
    have "map_of (kv_vals (snd t)) k = Some (v, e)"
      using that bt_ok_distinct [OF D(1)] by simp
    then have "expiry_of (kv_vals (snd t)) k = e" by (simp add: expiry_of_def)
    then show ?thesis using D(4) [of k] by (cases e) (simp_all add: expires_ok_def)
  qed
  moreover have "is_i64 c" if "(k, c) \<in> set (kv_counts (snd t))" for k c
    using that bt_ok_distinct [OF D(2)] D(5) [of k c] by simp
  ultimately show ?thesis using D(1,2) by (auto simp: cache_contents_def list_all_iff)
qed

lemma send_cache_exact:
  assumes ok: "sm_ready env sm" and idx: "idx < length (sm_caches sm)" and acc: "kv_accepts (Recv req)"
  obtains t j st where "send_cache env idx req sm = Ok (fst (handle_kv t req st),
      sm\<lparr>sm_caches := (sm_caches sm)[idx := (j, snd (handle_kv t req st))]\<rparr>)" and "kv_ok st"
    and "sm_ready env (sm\<lparr>sm_caches := (sm_caches sm)[idx := (j, snd (handle_kv t req st))]\<rparr>)"
proof -
  let ?clk = "clk_kv env idx"
  have clk: "clock_ok ?clk" and kv: "kv_ok (snd (sm_caches sm ! idx))"
    using ok idx by (auto simp: sm_ready_def env_ok_def list_all_length)
  obtain d j st where h: "head_loop ?clk (fst (sm_caches sm ! idx)) (snd (sm_caches sm ! idx)) = Ok (d, j, st)" "kv_ok st"
    using head_loop_spec [OF kv clk] by blast
  have step: "kv_step ?clk (Recv req) (sm_caches sm ! idx)
      = Ok (fst (handle_kv (?clk j) req st), Suc j, snd (handle_kv (?clk j) req st))"
    using h(1) by (cases "sm_caches sm ! idx") (simp add: kv_step_def case_prod_beta Let_def)
  have "send_cache env idx req sm = Ok (fst (handle_kv (?clk j) req st),
      sm\<lparr>sm_caches := (sm_caches sm)[idx := (Suc j, snd (handle_kv (?clk j) req st))]\<rparr>)"
    using idx step by (simp add: send_cache_def from_task_def)
  moreover have "sm_ready env (sm\<lparr>sm_caches := (sm_caches sm)[idx := (Suc j, snd (handle_kv (?clk j) req st))]\<rparr>)"
    using ok idx kv_ok_handle [OF h(2) acc] by (auto simp: sm_ready_def list_all_length nth_list_update)
  ultimately show thesis using h(2) that by blast
qed

lemma collect_caches_ok:
  assumes "sm_ready env sm" and "distinct idxs" and "\<And>i. i \<in> set idxs \<Longrightarrow> i < length (sm_caches sm)"
  shows "\<exists>cs. collect_caches env idxs sm = Ok (map (\<lambda>i. cache_contents (cs ! i)) idxs, sm\<lparr>sm_caches := cs\<rparr>) \<and>
    length cs = length (sm_caches sm) \<and> (\<forall>i. i \<notin> set idxs \<longrightarrow> cs ! i = sm_caches sm ! i) \<and>
    sm_ready env (sm\<lparr>sm_caches := cs\<rparr>)"
  using assms
proof (induction idxs arbitrary: sm)
  case Nil
  then show ?case by (intro exI [of _ "sm_caches sm"]) simp
next
  case (Cons idx idxs)
  have idx: "idx < length (sm_caches sm)" using Cons.prems(3) by simp
  obtain j st where 1: "send_cache env idx SnapshotBuild sm
        = Ok (RSnapshot (kv_vals st, kv_counts st), sm\<lparr>sm_caches := (sm_caches sm)[idx := (j, st)]\<rparr>)"
      "sm_ready env (sm\<lparr>sm_caches := (sm_caches sm)[idx := (j, st)]\<rparr>)"
    by (rule send_cache_exact [OF Cons.prems(1) idx, of SnapshotBuild]) auto
  obtain cs where 2: "collect_caches env idxs (sm\<lparr>sm_caches := (sm_caches sm)[idx := (j, st)]\<rparr>)
        = Ok (map (\<lambda>i. cache_contents (cs ! i)) idxs, sm\<lparr>sm_caches := cs\<rparr>)"
      "length cs = length (sm_caches sm)" "\<And>i. i \<notin> set idxs \<Longrightarrow> cs ! i = (sm_caches sm)[idx := (j, st)] ! i"
      "sm_ready env (sm\<lparr>sm_caches := cs\<rparr>)"
    using Cons.IH [OF 1(2)] Cons.prems(2,3) by auto
  have "cs ! idx = (j, st)" using 2(3) [of idx] Cons.prems(2) idx by simp
  moreover have "cs ! i = sm_caches sm ! i" if "i \<notin> set (idx # idxs)" for i
    using 2(3) [of i] that by simp
  ultimately show ?case
    using 1(1) 2(1,2,4) by (intro exI [of _ cs]) (simp add: cache_contents_def)
qed

lemma install_caches_ok:
  assumes "sm_ready env sm" and "list_all (\<lambda>s. kv_accepts (Recv (SnapshotInstall s))) snaps"
    and "idx + length snaps \<le> length (sm_caches sm)"
  shows "\<exists>cs. install_caches env idx snaps sm = Ok (sm\<lparr>sm_caches := cs\<rparr>) \<and> length cs = length (sm_caches sm) \<and>
    (\<forall>i<length snaps. cache_contents (cs ! (idx + i)) = snaps ! i) \<and> (\<forall>i<idx. cs ! i = sm_caches sm ! i) \<and>
    sm_ready env (sm\<lparr>sm_caches := cs\<rparr>)"
  using assms
proof (induction snaps arbitrary: idx sm)
  case Nil
  then show ?case by (intro exI [of _ "sm_caches sm"]) simp
next
  case (Cons snap snaps)
  have idx: "idx < length (sm_caches sm)" using Cons.prems(3) by simp
  obtain vs counts where snap: "snap = (vs, counts)" by (cases snap)
  obtain r j st where 1: "send_cache env idx (SnapshotInstall snap) sm = Ok (r, sm\<lparr>sm_caches := (sm_caches sm)[idx := (j, st)]\<rparr>)"
      "sm_ready env (sm\<lparr>sm_caches := (sm_caches sm)[idx := (j, st)]\<rparr>)" "cache_contents (j, st) = snap"
    by (rule send_cache_exact [OF Cons.prems(1) idx, of "SnapshotInstall snap"])
      (use Cons.prems(2) snap in \<open>auto simp: cache_contents_def\<close>)
  obtain cs where 2: "install_caches env (Suc idx) snaps (sm\<lparr>sm_caches := (sm_caches sm)[idx := (j, st)]\<rparr>)
        = Ok (sm\<lparr>sm_caches := cs\<rparr>)" "length cs = length (sm_caches sm)"
      "\<And>i. i < length snaps \<Longrightarrow> cache_contents (cs ! (Suc idx + i)) = snaps ! i"
      "\<And>i. i < Suc idx \<Longrightarrow> cs ! i = (sm_caches sm)[idx := (j, st)] ! i" "sm_ready env (sm\<lparr>sm_caches := cs\<rparr>)"
    using Cons.IH [OF 1(2), of "Suc idx"] Cons.prems(2,3) by auto
  have "cache_contents (cs ! (idx + i)) = (snap # snaps) ! i" if "i < length (snap # snaps)" for i
    using that 2(3) [of "i - 1"] 2(4) [of idx] idx 1(3) by (cases i) simp_all
  moreover have "cs ! i = sm_caches sm ! i" if "i < idx" for i
    using 2(4) [of i] that by simp
  ultimately show ?case using 1(1) 2(1,2,5) by (intro exI [of _ cs]) simp
qed

lemma ask_snapshot_build:
  assumes "sm_ready env sm"
  shows "\<exists>sm'. ask_locks env LSnapshotBuild sm = Ok (ALocks (dl_locks (snd (sm_locks sm))), sm') \<and>
    dl_locks (snd (sm_locks sm')) = dl_locks (snd (sm_locks sm)) \<and> advances env sm (\<lambda>cs. cs) sm' \<and>
    sm_caches sm' = sm_caches sm"
proof -
  let ?l = "dl_locks (snd (sm_locks sm))"
  have "\<exists>a sm'. ask_locks env LSnapshotBuild sm = Ok (a, sm') \<and>
      (a = ALocks ?l \<and> dl_locks (snd (sm_locks sm')) = ?l) \<and> advances env sm (\<lambda>cs. cs) sm' \<and>
      sm_caches sm' = sm_caches sm"
  proof (rule ask_locks_ok [OF assms])
    show "\<exists>a. answered (sm_chan sm) a (snd (sm_locks sm)) st' \<and> a = ALocks ?l \<and> dl_locks st' = ?l"
      if "handle_request (rx_gone env) t1 t2 (LSnapshotBuild (sm_chan sm)) (snd (sm_locks sm)) = Ok st'" for t1 t2 st'
      using that answeredI [of "rx_gone env" "sm_chan sm" "ALocks ?l" "snd (sm_locks sm)" st'] by (auto simp: dl_simps)
  qed simp
  then show ?thesis by auto
qed

lemma ask_snapshot_install:
  assumes "sm_ready env sm" and "distinct (map fst data)" and "list_all (\<lambda>(_, lock). current_ticket lock \<noteq> None) data"
  shows "\<exists>a sm'. ask_locks env (\<lambda>ch. LSnapshotInstall data ch) sm = Ok (a, sm') \<and>
    dl_locks (snd (sm_locks sm')) = data \<and> advances env sm (\<lambda>cs. cs) sm' \<and> sm_caches sm' = sm_caches sm"
proof (rule ask_locks_ok [OF assms(1)])
  have m: "maps_ok (snd (sm_locks sm))" using assms(1) by (simp add: sm_ready_def dl_ok_def)
  show "\<exists>a. answered (sm_chan sm) a (snd (sm_locks sm)) st' \<and> dl_locks st' = data"
    if "handle_request (rx_gone env) t1 t2 (LSnapshotInstall data (sm_chan sm)) (snd (sm_locks sm)) = Ok st'" for t1 t2 st'
    using answered_install [OF _ m, of "rx_gone env" data "sm_chan sm" st'] that by auto
qed (use assms(2,3) in simp)

lemma locks_installable:
  assumes "dl_ok st" and l: "mset l = mset (dl_locks st)"
  shows "distinct (map fst l)" and "list_all (\<lambda>(_, lock). current_ticket lock \<noteq> None) l"
proof -
  have d: "distinct (map fst (dl_locks st))" using assms by (simp add: dl_ok_def maps_ok_def)
  then show "distinct (map fst l)" using l mset_eq_imp_distinct_iff [of "map fst l" "map fst (dl_locks st)"] by simp
  have "current_ticket lock \<noteq> None" if "(key, lock) \<in> set (dl_locks st)" for key lock
    using dl_ok_holder [OF assms(1), of key lock] that d by (simp add: lock_of_def)
  then show "list_all (\<lambda>(_, lock). current_ticket lock \<noteq> None) l"
    using mset_eq_setD [OF l] by (auto simp: list_all_iff)
qed

text \<open>C10. A snapshot carries over the whole state. Installed on any well-formed node with as many caches, it gives
  that node the values with their expiries and the counters of every cache, the locks with their queues, the last
  applied log id and the membership of the node that built it.\<close>

theorem snapshot_roundtrip:
  assumes "cache_codec_ok cod" and "sm_ready env sm" and "sm_ready env' sm2"
    and "length (sm_caches sm2) = length (sm_caches sm)"
    and "build_snapshot_data cod env now sm = Ok (meta, bs, sm1)"
  shows "\<exists>sm3. apply_snapshot_bytes cod env' meta bs sm2 = Ok sm3 \<and> sm_ready env' sm3 \<and>
    applied_state sm3 = applied_state sm \<and> map cache_contents (sm_caches sm3) = map cache_contents (sm_caches sm1) \<and>
    mset (dl_locks (snd (sm_locks sm3))) = mset (dl_locks (snd (sm_locks sm)))"
proof -
  let ?n = "length (sm_caches sm)" and ?locks = "dl_locks (snd (sm_locks sm))"
  obtain cs where cs: "collect_caches env [0..<?n] sm = Ok (map (\<lambda>i. cache_contents (cs ! i)) [0..<?n], sm\<lparr>sm_caches := cs\<rparr>)"
      "length cs = ?n" "sm_ready env (sm\<lparr>sm_caches := cs\<rparr>)"
    using collect_caches_ok [OF assms(2), of "[0..<?n]"] by auto
  then have snaps: "map (\<lambda>i. cache_contents (cs ! i)) [0..<?n] = map cache_contents cs"
    by (intro nth_equalityI) simp_all
  obtain sm' where l: "ask_locks env LSnapshotBuild (sm\<lparr>sm_caches := cs\<rparr>) = Ok (ALocks ?locks, sm')" "sm_caches sm' = cs"
    using ask_snapshot_build [OF cs(3)] by auto
  obtain lb where lb: "ser_locks cod ?locks = Some lb" "ser_content cod (meta, map cache_contents cs, lb) = Some bs"
      "last_log_id meta = sm_applied sm" "last_membership meta = sm_membership sm" "sm1 = sm'"
    using assms(5) by (auto simp: build_snapshot_data_def cs(1) l(1) snaps unwrap_def Let_def split: option.splits)
  obtain l' where dec: "de_content cod bs = Some (meta, map cache_contents cs, lb)" "de_locks cod lb = Some l'"
      and l': "mset l' = mset ?locks"
    using assms(1) lb(1,2) unfolding cache_codec_ok_def by blast
  have acc: "list_all (\<lambda>s. kv_accepts (Recv (SnapshotInstall s))) (map cache_contents cs)"
    using cs(3) contents_accepted by (auto simp: sm_ready_def list_all_iff)
  obtain cs2 where i: "install_caches env' 0 (map cache_contents cs) sm2 = Ok (sm2\<lparr>sm_caches := cs2\<rparr>)"
      "length cs2 = ?n" "\<And>i. i < ?n \<Longrightarrow> cache_contents (cs2 ! i) = cache_contents (cs ! i)"
      "sm_ready env' (sm2\<lparr>sm_caches := cs2\<rparr>)"
    using install_caches_ok [OF assms(3) acc, of 0] cs(2) assms(4) by auto
  have dl: "dl_ok (snd (sm_locks sm))" using assms(2) by (simp add: sm_ready_def)
  obtain a sm3 where s: "ask_locks env' (\<lambda>ch. LSnapshotInstall l' ch) (sm2\<lparr>sm_caches := cs2\<rparr>) = Ok (a, sm3)"
      "dl_locks (snd (sm_locks sm3)) = l'" "sm_ready env' sm3" "sm_caches sm3 = cs2"
    using ask_snapshot_install [OF i(4) locks_installable [OF dl l']] by (auto simp: advances_def)
  let ?sm3 = "sm3\<lparr>sm_applied := last_log_id meta, sm_membership := last_membership meta\<rparr>"
  have "apply_snapshot_bytes cod env' meta bs sm2 = Ok ?sm3"
    using dec i(1) s(1) by (simp add: apply_snapshot_bytes_def update_state_machine_def)
  moreover have "map cache_contents cs2 = map cache_contents cs"
    using i(2,3) cs(2) by (intro nth_equalityI) simp_all
  ultimately show ?thesis
    using s lb l(2) l' by (intro exI [of _ ?sm3]) (simp add: sm_ready_def applied_state_def)
qed

definition ex_sm0 :: "nat cache_sm" where
  "ex_sm0 = \<lparr>sm_applied = Some (ex_lid 7), sm_membership = (None, 3), sm_snapshot_mem = None,
     sm_caches = [(0, kv_start)], sm_locks = (0, dlock_start), sm_notify = notify_start, sm_chan = 0\<rparr>"

definition ex_content :: "nat snapshot_content" where
  "ex_content = (\<lparr>last_log_id = Some (ex_lid 7), last_membership = (None, 3), snapshot_id = ''5-T1-N1-7''\<rparr>, [([], [])], [0])"

definition ex_cod :: "nat cache_codec" where
  "ex_cod = \<lparr>ser_locks = (\<lambda>l. if l = [] then Some [0] else None), de_locks = (\<lambda>bs. if bs = [0] then Some [] else None),
     ser_content = (\<lambda>c. if c = ex_content then Some [1] else None),
     de_content = (\<lambda>bs. if bs = [1] then Some ex_content else None), fmt_leader = (\<lambda>t n. ''T1-N1'')\<rparr>"

lemma ex_cod_ok: "cache_codec_ok ex_cod"
  by (simp add: cache_codec_ok_def ex_cod_def)

lemma ex_sm0_ready: "sm_ready ex_env ex_sm0"
  using ex_clk_ok kv_ok_start dl_ok_start
  by (simp add: sm_ready_def ex_env_def ex_sm0_def env_ok_def lock_chans_def dlock_start_def waiting_def notify_start_def)

lemma ex_build: "\<exists>sm1. build_snapshot_data ex_cod ex_env 5 ex_sm0 = Ok (fst ex_content, [1], sm1)"
proof -
  have t: "to_string 5 = ''5''" "to_string 7 = ''7''"
    by (simp_all add: to_string.simps [of 5] to_string.simps [of 7] digit_def char_of_def bit_0)
  have "loop_head t1 t2 kv_start = Ok (SleepExp (Secs u64_max) 0)" for t1 t2
    by (simp add: loop_head_def kv_start_def)
  then have h: "head_loop ex_clk 0 kv_start = Ok (Secs u64_max, 0, kv_start)"
    by (simp add: head_loop.simps [of ex_clk 0 kv_start])
  have k: "kv_vals kv_start = []" "kv_counts kv_start = []" by (simp_all add: kv_start_def)
  show ?thesis
    using t h k
    by (simp add: build_snapshot_data_def ex_sm0_def send_cache_def from_task_def kv_step_def ex_env_def
      ask_locks_def send_locks_def dlock_step_def answer_def dlock_start_def ex_cod_def ex_content_def
      make_snapshot_id_def show_int_def ex_lid_def Let_def)
qed

theorem snapshot_roundtrip_witness:
  "cache_codec_ok ex_cod \<and> (\<exists>sm1 sm3. build_snapshot_data ex_cod ex_env 5 ex_sm0 = Ok (fst ex_content, [1], sm1) \<and>
     apply_snapshot_bytes ex_cod ex_env2 (fst ex_content) [1] (ex_sm0\<lparr>sm_applied := None\<rparr>) = Ok sm3 \<and>
     applied_state sm3 = (Some (ex_lid 7), (None, 3)) \<and>
     map cache_contents (sm_caches sm3) = map cache_contents (sm_caches sm1))"
proof -
  obtain sm1 where b: "build_snapshot_data ex_cod ex_env 5 ex_sm0 = Ok (fst ex_content, [1], sm1)"
    using ex_build by blast
  have r: "sm_ready ex_env2 (ex_sm0\<lparr>sm_applied := None\<rparr>)"
    using ex_sm0_ready ex_env2_ready(1) by (simp add: sm_ready_def ex_env2_def env_ok_def ex_env_def ex_sm0_def ex_sm_def)
  show ?thesis
    using snapshot_roundtrip [OF ex_cod_ok ex_sm0_ready r _ b] b ex_cod_ok
    by (auto simp: applied_state_def ex_sm0_def)
qed

section \<open>Snapshots of a node without a disk\<close>

lemma send_cache_mem: "send_cache env idx req sm = Ok (r, sm') \<Longrightarrow> sm_snapshot_mem sm' = sm_snapshot_mem sm"
  by (auto simp: send_cache_def rbind_eq_Ok split: if_splits)

lemma ask_locks_mem: "ask_locks env req sm = Ok (a, sm') \<Longrightarrow> sm_snapshot_mem sm' = sm_snapshot_mem sm"
  by (auto simp: ask_locks_def send_locks_def rbind_eq_Ok Let_def split: option.splits)

lemma install_caches_mem: "install_caches env idx snaps sm = Ok sm' \<Longrightarrow> sm_snapshot_mem sm' = sm_snapshot_mem sm"
  by (induction snaps arbitrary: idx sm) (auto simp: rbind_eq_Ok dest: send_cache_mem)

lemma apply_snapshot_mem: "apply_snapshot_bytes cod env meta bs sm = Ok sm' \<Longrightarrow> sm_snapshot_mem sm' = sm_snapshot_mem sm"
  by (auto simp: apply_snapshot_bytes_def update_state_machine_def rbind_eq_Ok split: option.splits prod.splits
      dest!: install_caches_mem ask_locks_mem)

text \<open>The current snapshot of such a node is the last one it built or received. A received one is kept before it is
  decoded, so also when that fails.\<close>

lemma mem_snapshot_current:
  shows "build_snapshot_mem cod env now sm = Ok (snap, sm1) \<Longrightarrow> get_current_snapshot_mem sm1 = Some snap"
    and "install_snapshot_mem cod env meta bs sm = (r, sm2) \<Longrightarrow> get_current_snapshot_mem sm2 = Some (meta, bs)"
  by (auto simp: build_snapshot_mem_def install_snapshot_mem_def get_current_snapshot_mem_def rbind_eq_Ok Let_def
      split: res.splits dest: apply_snapshot_mem)

end
