(* ===== verification/Ext_State.thy ===== *)
theory Ext_State
  imports Btree_Map Hql_Text
begin

text \<open>
  The state machine for applications that own their consensus, \<^verbatim>\<open>hiqlite/src/external_state_machine.rs\<close>: the data
  it keeps in two SQLite tables, what it reads back and checks, and how a committed operation, its checkpoint and
  its receipt become one transaction. The theory \<^verbatim>\<open>Ext_Engine\<close> has the thread that serves the requests and the
  opening of a database, \<^verbatim>\<open>Ext_State_Props\<close> and \<^verbatim>\<open>Ext_Apply_Props\<close> what the definitions satisfy.

  The messages of errors are shortened to their constant part.

  The SQL statements of the source act on a database of two tables and the tables of the application, whose
  contents \<open>'a\<close> are abstract. A connection has the committed database and the open transaction, if any. The
  environment \<open>sql_env\<close> decides which statements fail and how a commit ends. Coordinates, the outputs of
  operations, their encodings and SHA-256 are parameters, \<open>ext_codec\<close>.
\<close>

section \<open>Constants\<close>

definition external_format_version :: nat where "external_format_version = 1"

definition external_sqlite_snapshot_format :: string where
  "external_sqlite_snapshot_format = ''sqlite3-online-backup/page-image-v1''"

definition metadata_table :: string where "metadata_table = ''_hiqlite_external_state''"
definition receipts_table :: string where "receipts_table = ''_hiqlite_external_receipts''"
definition advance_receipt_codec :: string where "advance_receipt_codec = ''hiqlite/advance-v1''"
definition max_read_pool_size :: nat where "max_read_pool_size = 128"
definition max_receipt_retention :: nat where "max_receipt_retention = 1000000"
definition max_receipt_bytes :: nat where "max_receipt_bytes = 16 * 1024 * 1024"
definition max_prepared_statements :: nat where "max_prepared_statements = 1000000"

section \<open>Data\<close>

record 'c external_commit =
  sequence :: nat
  coordinate :: 'c
  command_digest :: bytes
  state_schema :: nat
  receipt_schema :: nat

datatype external_entry_kind = Operation | Advance

record 'c external_applied =
  ap_commit :: "'c external_commit"
  ap_kind :: external_entry_kind
  ap_receipt_digest :: bytes

datatype 'o apply_outcome = Applied 'o | Recovered 'o

datatype ext_error =
    Locked string
  | RebuildRequired string
  | RebuildNotRequired string
  | AdoptionNotAllowed string
  | InvalidOptions string
  | MissingMetadata
  | InvalidMetadata string
  | UnsupportedFormat nat
  | ConfigurationMismatch "string list"
  | SequenceGap nat nat
  | SequenceBeforeInitial nat nat
  | SequenceOverflow
  | CommitConflict nat
  | ReceiptUnavailable nat
  | ReceiptTooLarge nat nat
  | Serialization
  | Sqlite
  | XIo
  | Setup
  | Pool
  | WriterClosed
  | WriterStopped
  | WriterPoisoned ext_error
  | SnapshotMismatch string
  | SnapshotDestinationExists string
  | StaleSnapshot

datatype 'e external_apply_error = OperationError 'e | Engine ext_error

record 'c stored_state =
  application_id :: string
  initial_sequence :: nat
  initial_state_schema :: nat
  receipt_codec :: string
  receipt_retention :: nat
  st_max_bytes :: nat
  last_applied :: "'c external_applied option"
  receipt_floor :: "nat option"
  st_snapshot_id :: "string option"

record 'c stored_receipt =
  re_commit :: "'c external_commit"
  re_kind :: external_entry_kind
  re_codec :: string
  re_receipt :: bytes
  re_digest :: bytes

record ('c, 'o) ext_codec =
  xc_ser :: "'c \<Rightarrow> bytes option"
  xc_de :: "bytes \<Rightarrow> ('c \<times> nat) option"
  xc_unit :: "bytes option"
  xc_encode_receipt :: "'o \<Rightarrow> bytes option"
  xc_decode_receipt :: "bytes \<Rightarrow> 'o option"
  xc_receipt_codec :: string
  xc_sha :: "bytes \<Rightarrow> bytes"

definition checked_next :: "nat \<Rightarrow> (ext_error, nat) res" where
  "checked_next n = (if n + 1 \<le> u64_max then Ok (n + 1) else Err SequenceOverflow)"

fun as_i64 :: "external_entry_kind \<Rightarrow> int" where
  "as_i64 Operation = 1"
| "as_i64 Advance = 2"

definition from_i64 :: "int \<Rightarrow> (ext_error, external_entry_kind) res" where
  "from_i64 v = (if v = 1 then Ok Operation else if v = 2 then Ok Advance
     else Err (InvalidMetadata ''unknown external entry kind''))"

section \<open>Encodings\<close>

definition encode_u64 :: "nat \<Rightarrow> bytes" where
  "encode_u64 v = be_bytes 8 v"

definition decode_u64 :: "bytes \<Rightarrow> (ext_error, nat) res" where
  "decode_u64 bs = (if length bs = 8 then Ok (be_nat bs) else Err (InvalidMetadata ''must contain exactly 8 bytes''))"

definition decode_digest :: "bytes \<Rightarrow> (ext_error, bytes) res" where
  "decode_digest bs = (if length bs = 32 then Ok bs else Err (InvalidMetadata ''must contain exactly 32 bytes''))"

definition deserialize_exact :: "('c, 'o) ext_codec \<Rightarrow> bytes \<Rightarrow> (ext_error, 'c) res" where
  "deserialize_exact cod bs = (case xc_de cod bs of
     None \<Rightarrow> Err Serialization
   | Some (v, consumed) \<Rightarrow>
       if consumed \<noteq> length bs then Err (InvalidMetadata ''contains trailing bytes'') else Ok v)"

definition serialize :: "bytes option \<Rightarrow> (ext_error, bytes) res" where
  "serialize r = (case r of Some bs \<Rightarrow> Ok bs | None \<Rightarrow> Err Serialization)"

section \<open>Tables\<close>

record receipt_row =
  rr_coordinate :: bytes
  rr_command_digest :: bytes
  rr_kind :: int
  rr_state_schema :: bytes
  rr_receipt_schema :: bytes
  rr_codec :: string
  rr_receipt :: bytes
  rr_receipt_digest :: bytes

record meta_row =
  mr_format_version :: int
  mr_application_id :: string
  mr_initial_sequence :: bytes
  mr_initial_state_schema :: bytes
  mr_receipt_codec :: string
  mr_receipt_retention :: bytes
  mr_max_receipt_bytes :: bytes
  mr_last_sequence :: "bytes option"
  mr_last_coordinate :: "bytes option"
  mr_last_command_digest :: "bytes option"
  mr_last_kind :: "int option"
  mr_last_state_schema :: "bytes option"
  mr_last_receipt_schema :: "bytes option"
  mr_last_receipt_digest :: "bytes option"
  mr_receipt_floor :: "bytes option"
  mr_snapshot_id :: "string option"

text \<open>A table that does not exist is \<open>None\<close>. The check on \<^verbatim>\<open>singleton\<close> leaves at most one row of metadata; the
  receipts are kept in the order of their key, a blob compared byte by byte.\<close>

record 'a db =
  db_app :: 'a
  db_meta :: "meta_row option option"
  db_receipts :: "(bytes, receipt_row) btree option"

section \<open>Connections\<close>

datatype auth_action =
    CreateIndex string string | DropIndex string string | CreateTrigger string string | DropTrigger string string
  | CreateTable string | DropTable string | CreateVtable string | DropVtable string | AlterTable string
  | Analyze string | Insert string | Delete_from string | Update string string | Read string string | Reindex string
  | CreateTempIndex | CreateTempTable | CreateTempTrigger | CreateTempView
  | DropTempIndex | DropTempTable | DropTempTrigger | DropTempView
  | Pragma | Attach | Detach | Transaction | Savepoint | OtherAction

definition protected_name :: "string \<Rightarrow> bool" where
  "protected_name name \<longleftrightarrow> starts_with name ''_hiqlite_external_''"

text \<open>\<open>True\<close> is \<^verbatim>\<open>Allow\<close>.\<close>

fun external_operation_authorizer :: "auth_action \<Rightarrow> bool" where
  "external_operation_authorizer (CreateIndex i t) = (\<not> (protected_name i \<or> protected_name t))"
| "external_operation_authorizer (DropIndex i t) = (\<not> (protected_name i \<or> protected_name t))"
| "external_operation_authorizer (CreateTrigger i t) = (\<not> (protected_name i \<or> protected_name t))"
| "external_operation_authorizer (DropTrigger i t) = (\<not> (protected_name i \<or> protected_name t))"
| "external_operation_authorizer (CreateTable t) = (\<not> protected_name t)"
| "external_operation_authorizer (DropTable t) = (\<not> protected_name t)"
| "external_operation_authorizer (CreateVtable t) = (\<not> protected_name t)"
| "external_operation_authorizer (DropVtable t) = (\<not> protected_name t)"
| "external_operation_authorizer (AlterTable t) = (\<not> protected_name t)"
| "external_operation_authorizer (Analyze t) = (\<not> protected_name t)"
| "external_operation_authorizer (Insert t) = (\<not> protected_name t)"
| "external_operation_authorizer (Delete_from t) = (\<not> protected_name t)"
| "external_operation_authorizer (Update t c) = (\<not> protected_name t)"
| "external_operation_authorizer (Read t c) = (\<not> protected_name t)"
| "external_operation_authorizer (Reindex i) = (\<not> protected_name i)"
| "external_operation_authorizer OtherAction = True"
| "external_operation_authorizer _ = False"

text \<open>The statements of the engine, by what they need the authorizer for.\<close>

datatype sql_op =
    SqBegin | SqAuthorizer | SqNoAuthorizer | SqInsertReceipt | SqUpdateState | SqDeleteReceipts
  | SqRollback | SqDropRollback | SqTableExists | SqState | SqCountReceipts | SqSequences
  | SqReceiptLength nat | SqReceipt nat | SqSnapshotId | SqCreateState | SqCreateReceipts | SqInsertState

fun sql_action :: "sql_op \<Rightarrow> auth_action" where
  "sql_action SqInsertReceipt = Insert receipts_table"
| "sql_action SqInsertState = Insert metadata_table"
| "sql_action SqUpdateState = Update metadata_table ''last_sequence''"
| "sql_action SqSnapshotId = Update metadata_table ''snapshot_id''"
| "sql_action SqDeleteReceipts = Delete_from receipts_table"
| "sql_action SqState = Read metadata_table ''format_version''"
| "sql_action SqCountReceipts = Read receipts_table ''sequence''"
| "sql_action SqSequences = Read receipts_table ''sequence''"
| "sql_action (SqReceiptLength _) = Read receipts_table ''receipt''"
| "sql_action (SqReceipt _) = Read receipts_table ''receipt''"
| "sql_action SqCreateState = CreateTable metadata_table"
| "sql_action SqCreateReceipts = CreateTable receipts_table"
| "sql_action SqTableExists = Read ''sqlite_master'' ''name''"
| "sql_action SqAuthorizer = OtherAction"
| "sql_action SqNoAuthorizer = OtherAction"
| "sql_action SqBegin = Transaction"
| "sql_action SqRollback = Transaction"
| "sql_action SqDropRollback = Transaction"

text \<open>A commit is reported as done, or as failed: with the transaction still open, rolled back, or done after all.\<close>

datatype commit_end = CommitDone | CommitOpen | CommitRolledBack | CommitUnreported

record sql_env =
  sql_fails :: "sql_op \<Rightarrow> bool"
  sql_commit :: commit_end

record 'a conn =
  cn_db :: "'a db"
  cn_txn :: "'a db option"
  cn_auth :: bool

definition conn_db :: "'a conn \<Rightarrow> 'a db" where
  "conn_db c = (case cn_txn c of Some d \<Rightarrow> d | None \<Rightarrow> cn_db c)"

definition is_autocommit :: "'a conn \<Rightarrow> bool" where
  "is_autocommit c \<longleftrightarrow> cn_txn c = None"

definition sql_ok :: "sql_env \<Rightarrow> 'a conn \<Rightarrow> sql_op \<Rightarrow> bool" where
  "sql_ok env c opn \<longleftrightarrow>
     \<not> sql_fails env opn \<and> (cn_auth c \<longrightarrow> external_operation_authorizer (sql_action opn))"

definition sql_query :: "sql_env \<Rightarrow> 'a conn \<Rightarrow> sql_op \<Rightarrow> (ext_error, 'a db) res" where
  "sql_query env c opn = (if sql_ok env c opn then Ok (conn_db c) else Err Sqlite)"

text \<open>A change to the open transaction, or to the database where there is none.\<close>

definition put_db :: "'a db \<Rightarrow> 'a conn \<Rightarrow> 'a conn" where
  "put_db d c = (case cn_txn c of
     Some _ \<Rightarrow> c\<lparr>cn_txn := Some d\<rparr>
   | None \<Rightarrow> c\<lparr>cn_db := d\<rparr>)"

definition sql_exec :: "sql_env \<Rightarrow> sql_op \<Rightarrow> ('a db \<Rightarrow> (ext_error, 'a db) res) \<Rightarrow> ('a conn, ext_error, unit) act" where
  "sql_exec env opn f = (\<lambda>c.
     case rbind (sql_query env c opn) f of
       Ok d \<Rightarrow> (Ok (), put_db d c)
     | Err e \<Rightarrow> (Err e, c)
     | Panic p \<Rightarrow> (Panic p, c))"

definition begin_immediate :: "sql_env \<Rightarrow> ('a conn, ext_error, unit) act" where
  "begin_immediate env = (\<lambda>c.
     if sql_ok env c SqBegin \<and> is_autocommit c then (Ok (), c\<lparr>cn_txn := Some (cn_db c)\<rparr>) else (Err Sqlite, c))"

definition set_authorizer :: "sql_env \<Rightarrow> bool \<Rightarrow> ('a conn, ext_error, unit) act" where
  "set_authorizer env on = (\<lambda>c.
     if sql_fails env (if on then SqAuthorizer else SqNoAuthorizer) then (Err Sqlite, c)
     else (Ok (), c\<lparr>cn_auth := on\<rparr>))"

definition roll_back :: "sql_env \<Rightarrow> sql_op \<Rightarrow> ('a conn, ext_error, unit) act" where
  "roll_back env opn = (\<lambda>c.
     if sql_ok env c opn \<and> \<not> is_autocommit c then (Ok (), c\<lparr>cn_txn := None\<rparr>) else (Err Sqlite, c))"

text \<open>Dropping a transaction rolls it back and ignores the error.\<close>

definition drop_transaction :: "sql_env \<Rightarrow> 'a conn \<Rightarrow> 'a conn" where
  "drop_transaction env c = (if is_autocommit c then c else snd (roll_back env SqDropRollback c))"

definition commit_transaction :: "sql_env \<Rightarrow> ('a conn, ext_error, unit) act" where
  "commit_transaction env = (\<lambda>c. case cn_txn c of
     None \<Rightarrow> (Err Sqlite, c)
   | Some d \<Rightarrow>
       if cn_auth c then (Err Sqlite, c)
       else (case sql_commit env of
               CommitDone \<Rightarrow> (Ok (), c\<lparr>cn_db := d, cn_txn := None\<rparr>)
             | CommitOpen \<Rightarrow> (Err Sqlite, c)
             | CommitRolledBack \<Rightarrow> (Err Sqlite, c\<lparr>cn_txn := None\<rparr>)
             | CommitUnreported \<Rightarrow> (Err Sqlite, c\<lparr>cn_db := d, cn_txn := None\<rparr>)))"

section \<open>Reading the tables\<close>

definition metadata_table_exists :: "sql_env \<Rightarrow> 'a conn \<Rightarrow> (ext_error, bool) res" where
  "metadata_table_exists env c = rbind (sql_query env c SqTableExists) (\<lambda>d. Ok (db_meta d \<noteq> None))"

definition require_metadata_table :: "sql_env \<Rightarrow> 'a conn \<Rightarrow> (ext_error, unit) res" where
  "require_metadata_table env c =
     rbind (metadata_table_exists env c) (\<lambda>b. if b then Ok () else Err MissingMetadata)"

definition select_state :: "sql_env \<Rightarrow> 'a conn \<Rightarrow> (ext_error, meta_row) res" where
  "select_state env c = rbind (sql_query env c SqState) (\<lambda>d. case db_meta d of
     Some (Some row) \<Rightarrow> Ok row
   | _ \<Rightarrow> Err Sqlite)"

text \<open>The columns of the last applied entry, which must be all present or all absent.\<close>

definition last_values_present :: "meta_row \<Rightarrow> bool list" where
  "last_values_present row =
     [mr_last_sequence row \<noteq> None, mr_last_coordinate row \<noteq> None, mr_last_command_digest row \<noteq> None,
      mr_last_kind row \<noteq> None, mr_last_state_schema row \<noteq> None, mr_last_receipt_schema row \<noteq> None,
      mr_last_receipt_digest row \<noteq> None, mr_receipt_floor row \<noteq> None]"

definition decode_last :: "('c, 'o) ext_codec \<Rightarrow> meta_row \<Rightarrow> (ext_error, 'c external_applied \<times> nat) res" where
  "decode_last cod row =
     rbind (unwrap (mr_last_sequence row)) (\<lambda>b. rbind (decode_u64 b) (\<lambda>sq.
     rbind (unwrap (mr_last_coordinate row)) (\<lambda>b. rbind (deserialize_exact cod b) (\<lambda>coord.
     rbind (unwrap (mr_last_command_digest row)) (\<lambda>b. rbind (decode_digest b) (\<lambda>cd.
     rbind (unwrap (mr_last_kind row)) (\<lambda>k. rbind (from_i64 k) (\<lambda>kind.
     rbind (unwrap (mr_last_state_schema row)) (\<lambda>b. rbind (decode_u64 b) (\<lambda>ss.
     rbind (unwrap (mr_last_receipt_schema row)) (\<lambda>b. rbind (decode_u64 b) (\<lambda>rs.
     rbind (unwrap (mr_last_receipt_digest row)) (\<lambda>b. rbind (decode_digest b) (\<lambda>rd.
     rbind (unwrap (mr_receipt_floor row)) (\<lambda>b. rbind (decode_u64 b) (\<lambda>floor.
       Ok (\<lparr>ap_commit = \<lparr>sequence = sq, coordinate = coord, command_digest = cd, state_schema = ss, receipt_schema = rs\<rparr>,
            ap_kind = kind, ap_receipt_digest = rd\<rparr>, floor)))))))))))))))))"

definition decode_state :: "('c, 'o) ext_codec \<Rightarrow> meta_row \<Rightarrow> (ext_error, 'c stored_state) res" where
  "decode_state cod row =
     (if mr_format_version row < 0 \<or> 65535 < mr_format_version row then Err (InvalidMetadata ''invalid format version'')
      else if nat (mr_format_version row) \<noteq> external_format_version
      then Err (UnsupportedFormat (nat (mr_format_version row)))
      else
        rbind (decode_u64 (mr_initial_sequence row)) (\<lambda>initial.
        rbind (decode_u64 (mr_initial_state_schema row)) (\<lambda>schema.
        rbind (decode_u64 (mr_receipt_retention row)) (\<lambda>retention.
        rbind (decode_u64 (mr_max_receipt_bytes row)) (\<lambda>max_bytes.
        if \<not> (1 \<le> retention \<and> retention \<le> max_receipt_retention)
        then Err (InvalidMetadata ''receipt_retention is outside the supported range'')
        else if \<not> (1 \<le> max_bytes \<and> max_bytes \<le> max_receipt_bytes)
        then Err (InvalidMetadata ''max_receipt_bytes is outside the supported range'')
        else if True \<in> set (last_values_present row) \<and> False \<in> set (last_values_present row)
        then Err (InvalidMetadata ''partial last-applied metadata'')
        else
          rbind (if hd (last_values_present row)
                 then rbind (decode_last cod row) (\<lambda>(a, floor). Ok (Some a, Some floor))
                 else Ok (None, None)) (\<lambda>(lst, floor).
            Ok \<lparr>application_id = mr_application_id row, initial_sequence = initial, initial_state_schema = schema,
                receipt_codec = mr_receipt_codec row, receipt_retention = retention, st_max_bytes = max_bytes,
                last_applied = lst, receipt_floor = floor, st_snapshot_id = mr_snapshot_id row\<rparr>))))))"

definition load_state :: "sql_env \<Rightarrow> ('c, 'o) ext_codec \<Rightarrow> 'a conn \<Rightarrow> (ext_error, 'c stored_state) res" where
  "load_state env cod c =
     rbind (require_metadata_table env c) (\<lambda>_. rbind (select_state env c) (decode_state cod))"

text \<open>A query on the table of receipts, which fails when the table does not exist.\<close>

definition query_receipts :: "sql_env \<Rightarrow> 'a conn \<Rightarrow> sql_op \<Rightarrow> (ext_error, (bytes, receipt_row) btree) res" where
  "query_receipts env c opn = rbind (sql_query env c opn) (\<lambda>d. case db_receipts d of
     Some rs \<Rightarrow> Ok rs
   | None \<Rightarrow> Err Sqlite)"

definition decode_receipt_row :: "('c, 'o) ext_codec \<Rightarrow> nat \<Rightarrow> receipt_row \<Rightarrow> (ext_error, 'c stored_receipt) res" where
  "decode_receipt_row cod sq row =
     rbind (deserialize_exact cod (rr_coordinate row)) (\<lambda>coord.
     rbind (decode_digest (rr_receipt_digest row)) (\<lambda>rd.
     if xc_sha cod (rr_receipt row) \<noteq> rd then Err (InvalidMetadata ''receipt digest mismatch'')
     else
       rbind (decode_digest (rr_command_digest row)) (\<lambda>cd.
       rbind (decode_u64 (rr_state_schema row)) (\<lambda>ss.
       rbind (decode_u64 (rr_receipt_schema row)) (\<lambda>rs.
       rbind (from_i64 (rr_kind row)) (\<lambda>kind.
         Ok \<lparr>re_commit = \<lparr>sequence = sq, coordinate = coord, command_digest = cd, state_schema = ss, receipt_schema = rs\<rparr>,
             re_kind = kind, re_codec = rr_codec row, re_receipt = rr_receipt row, re_digest = rd\<rparr>))))))"

definition load_receipt :: "sql_env \<Rightarrow> ('c, 'o) ext_codec \<Rightarrow> 'a conn \<Rightarrow> nat \<Rightarrow> nat \<Rightarrow>
    (ext_error, 'c stored_receipt option) res" where
  "load_receipt env cod c sq max_bytes =
     rbind (query_receipts env c (SqReceiptLength sq)) (\<lambda>rs.
       case map_of rs (encode_u64 sq) of
         None \<Rightarrow> Ok None
       | Some row \<Rightarrow>
           if max_bytes < length (rr_receipt row) then Err (InvalidMetadata ''receipt exceeds configured maximum'')
           else
             rbind (query_receipts env c (SqReceipt sq)) (\<lambda>rs.
               case map_of rs (encode_u64 sq) of
                 None \<Rightarrow> Ok None
               | Some row \<Rightarrow> rbind (decode_receipt_row cod sq row) (\<lambda>r. Ok (Some r))))"

section \<open>Checking the tables\<close>

text \<open>The lowest retained sequence, as every place of the source computes it.\<close>

definition retention_floor :: "'c stored_state \<Rightarrow> nat \<Rightarrow> nat" where
  "retention_floor st sq = max (sq - (receipt_retention st - 1)) (initial_sequence st)"

definition validate_receipt :: "('c, 'o) ext_codec \<Rightarrow> 'c stored_state \<Rightarrow> 'c stored_receipt \<Rightarrow> (ext_error, unit) res" where
  "validate_receipt cod st r =
     (if re_codec r \<noteq> (case re_kind r of Operation \<Rightarrow> receipt_codec st | Advance \<Rightarrow> advance_receipt_codec)
      then Err (InvalidMetadata ''receipt codec mismatch'')
      else if st_max_bytes st < length (re_receipt r)
      then Err (InvalidMetadata ''receipt exceeds configured maximum'')
      else (case re_kind r of
              Operation \<Rightarrow>
                (case xc_decode_receipt cod (re_receipt r) of
                   None \<Rightarrow> Err (InvalidMetadata ''operation receipt is not decodable'')
                 | Some _ \<Rightarrow> Ok ())
            | Advance \<Rightarrow>
                rbind (serialize (xc_unit cod)) (\<lambda>canonical.
                  if re_receipt r \<noteq> canonical then Err (InvalidMetadata ''advance receipt is not canonical'') else Ok ())))"

text \<open>The loop over the stored sequences; \<open>expected\<close> is \<^verbatim>\<open>floor.0 + offset\<close>.\<close>

fun validate_suffix :: "sql_env \<Rightarrow> ('c, 'o) ext_codec \<Rightarrow> 'a conn \<Rightarrow> 'c stored_state \<Rightarrow> nat \<Rightarrow> bytes list \<Rightarrow>
    (ext_error, unit) res" where
  "validate_suffix env cod c st expected [] = Ok ()"
| "validate_suffix env cod c st expected (key # keys) =
     rbind (decode_u64 key) (\<lambda>actual.
     if actual \<noteq> expected then Err (InvalidMetadata ''receipt suffix contains a gap'')
     else
       rbind (load_receipt env cod c actual (st_max_bytes st)) (\<lambda>r. case r of
         None \<Rightarrow> Err (InvalidMetadata ''receipt disappeared during validation'')
       | Some r \<Rightarrow>
           rbind (validate_receipt cod st r) (\<lambda>_. validate_suffix env cod c st (Suc expected) keys)))"

definition validate_newest :: "sql_env \<Rightarrow> ('c, 'o) ext_codec \<Rightarrow> 'a conn \<Rightarrow> 'c stored_state \<Rightarrow> 'c external_applied \<Rightarrow>
    (ext_error, unit) res" where
  "validate_newest env cod c st lst =
     rbind (load_receipt env cod c (sequence (ap_commit lst)) (st_max_bytes st)) (\<lambda>r. case r of
       None \<Rightarrow> Err (InvalidMetadata ''newest receipt is missing'')
     | Some r \<Rightarrow>
         if re_commit r \<noteq> ap_commit lst \<or> re_kind r \<noteq> ap_kind lst \<or> re_digest r \<noteq> ap_receipt_digest lst
         then Err (InvalidMetadata ''newest receipt does not match checkpoint'') else Ok ())"

definition validate_receipts :: "sql_env \<Rightarrow> ('c, 'o) ext_codec \<Rightarrow> 'a conn \<Rightarrow> 'c stored_state \<Rightarrow> (ext_error, unit) res" where
  "validate_receipts env cod c st = (case (last_applied st, receipt_floor st) of
     (None, None) \<Rightarrow>
       rbind (query_receipts env c SqCountReceipts) (\<lambda>rs.
         if rs \<noteq> [] then Err (InvalidMetadata ''receipts exist without a checkpoint'') else Ok ())
   | (Some lst, Some floor) \<Rightarrow>
       (let sq = sequence (ap_commit lst) in
        if sq < floor then Err (InvalidMetadata ''receipt floor exceeds checkpoint'')
        else
          rbind (add_u64 (sq - floor) 1) (\<lambda>expected_count.
          if receipt_retention st < expected_count
          then Err (InvalidMetadata ''receipt suffix exceeds configured retention'')
          else if floor \<noteq> retention_floor st sq
          then Err (InvalidMetadata ''receipt floor does not match configured retention'')
          else
            rbind (query_receipts env c SqSequences) (\<lambda>rs.
            if length rs \<noteq> expected_count then Err (InvalidMetadata ''receipt suffix count mismatch'')
            else
              rbind (validate_suffix env cod c st floor (map fst rs)) (\<lambda>_.
                validate_newest env cod c st lst))))
   | _ \<Rightarrow> Err (InvalidMetadata ''checkpoint and receipt floor presence mismatch''))"

section \<open>Committing\<close>

datatype 'c commit_class = New | Retry "'c stored_receipt"

definition classify_commit :: "sql_env \<Rightarrow> ('c, 'o) ext_codec \<Rightarrow> 'a conn \<Rightarrow> 'c stored_state \<Rightarrow> 'c external_commit \<Rightarrow>
    external_entry_kind \<Rightarrow> string \<Rightarrow> (ext_error, 'c commit_class) res" where
  "classify_commit env cod c st commit kind codec = (case last_applied st of
     None \<Rightarrow>
       if sequence commit = initial_sequence st then Ok New
       else if initial_sequence st < sequence commit then Err (SequenceGap (initial_sequence st) (sequence commit))
       else Err (SequenceBeforeInitial (initial_sequence st) (sequence commit))
   | Some current \<Rightarrow>
       if sequence commit \<le> sequence (ap_commit current) then
         rbind (load_receipt env cod c (sequence commit) (st_max_bytes st)) (\<lambda>r. case r of
           None \<Rightarrow> Err (ReceiptUnavailable (sequence commit))
         | Some r \<Rightarrow>
             if re_commit r \<noteq> commit \<or> re_kind r \<noteq> kind \<or> re_codec r \<noteq> codec
             then Err (CommitConflict (sequence commit)) else Ok (Retry r))
       else
         rbind (checked_next (sequence (ap_commit current))) (\<lambda>expected.
           if sequence commit = expected then Ok New
           else Err (SequenceGap expected (sequence commit))))"

definition update_state_after_commit :: "'c external_commit \<Rightarrow> external_entry_kind \<Rightarrow> bytes \<Rightarrow> 'c stored_state \<Rightarrow> 'c stored_state" where
  "update_state_after_commit commit kind digest st =
     st\<lparr>last_applied := Some \<lparr>ap_commit = commit, ap_kind = kind, ap_receipt_digest = digest\<rparr>,
        receipt_floor := Some (retention_floor st (sequence commit))\<rparr>"

definition insert_receipt :: "bytes \<Rightarrow> receipt_row \<Rightarrow> 'a db \<Rightarrow> (ext_error, 'a db) res" where
  "insert_receipt key row d = (case db_receipts d of
     None \<Rightarrow> Err Sqlite
   | Some rs \<Rightarrow> if map_of rs key \<noteq> None then Err Sqlite else Ok (d\<lparr>db_receipts := Some (bt_insert key row rs)\<rparr>))"

definition update_meta :: "(meta_row \<Rightarrow> meta_row) \<Rightarrow> 'a db \<Rightarrow> (ext_error, 'a db) res" where
  "update_meta f d = (case db_meta d of
     None \<Rightarrow> Err Sqlite
   | Some row \<Rightarrow> Ok (d\<lparr>db_meta := Some (map_option f row)\<rparr>))"

definition delete_receipts :: "bytes \<Rightarrow> 'a db \<Rightarrow> (ext_error, 'a db) res" where
  "delete_receipts key d = (case db_receipts d of
     None \<Rightarrow> Err Sqlite
   | Some rs \<Rightarrow> Ok (d\<lparr>db_receipts := Some (filter (\<lambda>(k, _). \<not> k < key) rs)\<rparr>))"

definition persist_new_commit :: "sql_env \<Rightarrow> ('c, 'o) ext_codec \<Rightarrow> 'c stored_state \<Rightarrow> 'c external_commit \<Rightarrow>
    external_entry_kind \<Rightarrow> string \<Rightarrow> bytes \<Rightarrow> bytes \<Rightarrow> ('a conn, ext_error, unit) act" where
  "persist_new_commit env cod st commit kind codec receipt digest =
     abind (alift (serialize (xc_ser cod (coordinate commit)))) (\<lambda>coord.
     let floor = retention_floor st (sequence commit) in
     athen (sql_exec env SqInsertReceipt (insert_receipt (encode_u64 (sequence commit))
       \<lparr>rr_coordinate = coord, rr_command_digest = command_digest commit, rr_kind = as_i64 kind,
        rr_state_schema = encode_u64 (state_schema commit), rr_receipt_schema = encode_u64 (receipt_schema commit),
        rr_codec = codec, rr_receipt = receipt, rr_receipt_digest = digest\<rparr>))
     (athen (sql_exec env SqUpdateState (update_meta (\<lambda>row. row\<lparr>
        mr_last_sequence := Some (encode_u64 (sequence commit)), mr_last_coordinate := Some coord,
        mr_last_command_digest := Some (command_digest commit), mr_last_kind := Some (as_i64 kind),
        mr_last_state_schema := Some (encode_u64 (state_schema commit)),
        mr_last_receipt_schema := Some (encode_u64 (receipt_schema commit)),
        mr_last_receipt_digest := Some digest, mr_receipt_floor := Some (encode_u64 floor)\<rparr>)))
     (sql_exec env SqDeleteReceipts (delete_receipts (encode_u64 floor)))))"

text \<open>An operation of the application gets the contents of its tables and returns its result with the new contents.
  The authorizer keeps it from the tables and the transactions of the engine, so that nothing else can change, but
  SQLite itself may roll the transaction back while the operation runs (a conflict clause \<^verbatim>\<open>OR ROLLBACK\<close>, a trigger
  with \<^verbatim>\<open>RAISE(ROLLBACK)\<close>), which the flag tells; what the operation does afterwards then is not in a transaction.\<close>

type_synonym ('a, 'e, 'o) operation = "'a \<Rightarrow> ('e + 'o) \<times> 'a \<times> bool"

definition run_operation :: "('a, 'e, 'o) operation \<Rightarrow> 'a conn \<Rightarrow> ('e + 'o) \<times> 'a conn" where
  "run_operation opr c = (case opr (db_app (conn_db c)) of (r, a, rolled_back) \<Rightarrow>
     (r, if rolled_back then c\<lparr>cn_txn := None, cn_db := (cn_db c)\<lparr>db_app := a\<rparr>\<rparr>
         else put_db ((conn_db c)\<lparr>db_app := a\<rparr>) c))"

definition map_err :: "('e \<Rightarrow> 'x) \<Rightarrow> ('s, 'e, 'b) act \<Rightarrow> ('s, 'x, 'b) act" where
  "map_err f m = (\<lambda>s. case m s of
     (Ok b, s') \<Rightarrow> (Ok b, s')
   | (Err e, s') \<Rightarrow> (Err (f e), s')
   | (Panic p, s') \<Rightarrow> (Panic p, s'))"

text \<open>The scope of a \<^verbatim>\<open>Transaction\<close>: it is dropped at the end, whatever happened.\<close>

definition in_transaction :: "(ext_error \<Rightarrow> 'x) \<Rightarrow> sql_env \<Rightarrow> ('a conn, 'x, 'b) act \<Rightarrow> ('a conn, 'x, 'b) act" where
  "in_transaction f env m =
     athen (map_err f (begin_immediate env)) (\<lambda>c. case m c of (r, c') \<Rightarrow> (r, drop_transaction env c'))"

definition operation_body :: "sql_env \<Rightarrow> ('c, 'o) ext_codec \<Rightarrow> 'c stored_state \<Rightarrow> 'c external_commit \<Rightarrow>
    ('a, 'e, 'o) operation \<Rightarrow> ('a conn, 'e external_apply_error, 'o \<times> bytes) act" where
  "operation_body env cod st commit opr =
     athen (map_err Engine (set_authorizer env True)) (\<lambda>c. case run_operation opr c of (r, c1) \<Rightarrow>
     athen (map_err Engine (set_authorizer env False))
      (case r of
         Inl e \<Rightarrow> athrow (OperationError e)
       | Inr output \<Rightarrow>
           abind (map_err Engine (alift (serialize (xc_encode_receipt cod output)))) (\<lambda>receipt.
           if st_max_bytes st < length receipt
           then athrow (Engine (ReceiptTooLarge (length receipt) (st_max_bytes st)))
           else
             athen (map_err Engine (persist_new_commit env cod st commit Operation (xc_receipt_codec cod) receipt
                     (xc_sha cod receipt)))
             (athen (map_err Engine (commit_transaction env)) (aret (output, xc_sha cod receipt))))) c1)"

type_synonym ('a, 'c) ext_st = "'a conn \<times> 'c stored_state"

definition apply_operation :: "sql_env \<Rightarrow> ('c, 'o) ext_codec \<Rightarrow> 'c external_commit \<Rightarrow> ('a, 'e, 'o) operation \<Rightarrow>
    (('a, 'c) ext_st, 'e external_apply_error, 'o apply_outcome) act" where
  "apply_operation env cod commit opr = (\<lambda>(c, st).
     case classify_commit env cod c st commit Operation (xc_receipt_codec cod) of
       Err e \<Rightarrow> (Err (Engine e), (c, st))
     | Panic p \<Rightarrow> (Panic p, (c, st))
     | Ok (Retry r) \<Rightarrow>
         (case xc_decode_receipt cod (re_receipt r) of
            None \<Rightarrow> (Err (Engine Serialization), (c, st))
          | Some output \<Rightarrow> (Ok (Recovered output), (c, st)))
     | Ok New \<Rightarrow>
         (case in_transaction Engine env (operation_body env cod st commit opr) c of
            (Err e, c') \<Rightarrow> (Err e, (c', st))
          | (Panic p, c') \<Rightarrow> (Panic p, (c', st))
          | (Ok (output, digest), c') \<Rightarrow>
              (Ok (Applied output), (c', update_state_after_commit commit Operation digest st))))"

definition apply_advance :: "sql_env \<Rightarrow> ('c, 'o) ext_codec \<Rightarrow> 'c external_commit \<Rightarrow>
    (('a, 'c) ext_st, ext_error, unit apply_outcome) act" where
  "apply_advance env cod commit = (\<lambda>(c, st).
     case classify_commit env cod c st commit Advance advance_receipt_codec of
       Err e \<Rightarrow> (Err e, (c, st))
     | Panic p \<Rightarrow> (Panic p, (c, st))
     | Ok (Retry r) \<Rightarrow> (Ok (Recovered ()), (c, st))
     | Ok New \<Rightarrow>
         (case serialize (xc_unit cod) of
            Err e \<Rightarrow> (Err e, (c, st))
          | Panic p \<Rightarrow> (Panic p, (c, st))
          | Ok receipt \<Rightarrow>
              (case in_transaction (\<lambda>e. e) env
                      (athen (persist_new_commit env cod st commit Advance advance_receipt_codec receipt (xc_sha cod receipt))
                        (commit_transaction env)) c of
                 (Err e, c') \<Rightarrow> (Err e, (c', st))
               | (Panic p, c') \<Rightarrow> (Panic p, (c', st))
               | (Ok _, c') \<Rightarrow>
                   (Ok (Applied ()), (c', update_state_after_commit commit Advance (xc_sha cod receipt) st)))))"

definition reconcile_after_apply :: "sql_env \<Rightarrow> ('c, 'o) ext_codec \<Rightarrow> bool \<Rightarrow> (('a, 'c) ext_st, ext_error, unit) act" where
  "reconcile_after_apply env cod apply_failed = (\<lambda>(c, st).
     case (if is_autocommit c then (Ok (), c) else roll_back env SqRollback c) of
       (Err e, c1) \<Rightarrow> (Err e, (c1, st))
     | (Panic p, c1) \<Rightarrow> (Panic p, (c1, st))
     | (Ok _, c1) \<Rightarrow>
         if \<not> is_autocommit c1
         then (Err (InvalidMetadata ''SQLite remained inside a transaction after apply''), (c1, st))
         else if apply_failed then
           (case rbind (load_state env cod c1) (\<lambda>stored.
                   rbind (validate_receipts env cod c1 stored) (\<lambda>_. Ok stored)) of
              Err e \<Rightarrow> (Err e, (c1, st))
            | Panic p \<Rightarrow> (Panic p, (c1, st))
            | Ok stored \<Rightarrow> (Ok (), (c1, stored)))
         else (Ok (), (c1, st)))"

text \<open>The closure that the writer runs for a request: it applies, reconciles and tells whether the writer is
  poisoned. The environments of the two phases are independent.\<close>

definition reconciled :: "(ext_error \<Rightarrow> 'x) \<Rightarrow> sql_env \<Rightarrow> ('c, 'o) ext_codec \<Rightarrow> (('a, 'c) ext_st, 'x, 'r) act \<Rightarrow>
    ('a, 'c) ext_st \<Rightarrow> (unit, ('x, 'r) res \<times> ext_error option \<times> ('a, 'c) ext_st) res" where
  "reconciled f env cod m s = (case m s of
     (Panic p, _) \<Rightarrow> Panic p
   | (r, s1) \<Rightarrow>
       (case reconcile_after_apply env cod (case r of Err _ \<Rightarrow> True | _ \<Rightarrow> False) s1 of
          (Panic p, _) \<Rightarrow> Panic p
        | (Ok _, s2) \<Rightarrow> Ok (r, None, s2)
        | (Err e, s2) \<Rightarrow> Ok (Err (f (WriterPoisoned e)), Some (WriterPoisoned e), s2)))"

definition apply_committed :: "sql_env \<Rightarrow> sql_env \<Rightarrow> ('c, 'o) ext_codec \<Rightarrow> 'c external_commit \<Rightarrow> ('a, 'e, 'o) operation \<Rightarrow>
    ('a, 'c) ext_st \<Rightarrow>
    (unit, ('e external_apply_error, 'o apply_outcome) res \<times> ext_error option \<times> ('a, 'c) ext_st) res" where
  "apply_committed env env' cod commit opr = reconciled Engine env' cod (apply_operation env cod commit opr)"

definition advance_committed :: "sql_env \<Rightarrow> sql_env \<Rightarrow> ('c, 'o) ext_codec \<Rightarrow> 'c external_commit \<Rightarrow> ('a, 'c) ext_st \<Rightarrow>
    (unit, (ext_error, unit apply_outcome) res \<times> ext_error option \<times> ('a, 'c) ext_st) res" where
  "advance_committed env env' cod commit = reconciled (\<lambda>e. e) env' cod (apply_advance env cod commit)"

end
