(* ===== verification/Ext_State_Props.thy ===== *)
theory Ext_State_Props
  imports Ext_State
begin

text \<open>
  What the state machine for external consensus guarantees. The invariant \<open>ext_rep\<close> relates the two tables and
  the state in memory to the history of the accepted entries, of which the table of receipts keeps the end.
\<close>

section \<open>Keys\<close>

lemma be_bytes_less:
  "a < 256 ^ k \<Longrightarrow> b < 256 ^ k \<Longrightarrow> be_bytes k a < be_bytes k b \<longleftrightarrow> a < b"
proof (induction k arbitrary: a b)
  case 0
  then show ?case by simp
next
  case (Suc k)
  let ?p = "256 ^ k :: nat"
  have d: "a div ?p < 256" "b div ?p < 256" using Suc.prems by (simp_all add: less_mult_imp_div_less mult.commute)
  then have w: "(word_of_nat (a div ?p) :: byte) < word_of_nat (b div ?p) \<longleftrightarrow> a div ?p < b div ?p"
    "(word_of_nat (a div ?p) :: byte) = word_of_nat (b div ?p) \<longleftrightarrow> a div ?p = b div ?p"
    by (simp_all add: word_less_nat_alt word_unat_eq_iff unat_byte_of_nat)
  have m: "be_bytes k x = be_bytes k (x mod ?p)" for x
    using be_bytes_add_high [of k "x div ?p" "x mod ?p"] by (simp only: div_mult_mod_eq)
  have ih: "be_bytes k a < be_bytes k b \<longleftrightarrow> a mod ?p < b mod ?p"
    using Suc.IH [of "a mod ?p" "b mod ?p"] m [of a] m [of b] by simp
  have "a < b \<longleftrightarrow> a div ?p < b div ?p \<or> a div ?p = b div ?p \<and> a mod ?p < b mod ?p"
  proof (cases "a div ?p" "b div ?p" rule: linorder_cases)
    case less
    then show ?thesis using div_le_mono [of b a ?p] by (auto simp: not_le [symmetric])
  next
    case equal
    then have "a = b div ?p * ?p + a mod ?p" by (metis div_mult_mod_eq)
    moreover have "b = b div ?p * ?p + b mod ?p" by (rule div_mult_mod_eq [symmetric])
    ultimately have "a < b \<longleftrightarrow> a mod ?p < b mod ?p" by (metis add_less_cancel_left)
    then show ?thesis using equal by simp
  next
    case greater
    then show ?thesis using div_le_mono [of a b ?p] by auto
  qed
  then show ?case using w ih by simp
qed

lemma encode_u64_less: "a \<le> u64_max \<Longrightarrow> b \<le> u64_max \<Longrightarrow> encode_u64 a < encode_u64 b \<longleftrightarrow> a < b"
  unfolding encode_u64_def by (rule be_bytes_less) (simp_all add: u64_max_def)

lemma encode_u64_eq: "a \<le> u64_max \<Longrightarrow> b \<le> u64_max \<Longrightarrow> encode_u64 a = encode_u64 b \<longleftrightarrow> a = b"
  using encode_u64_less [of a b] encode_u64_less [of b a] by (metis linorder_less_linear less_irrefl)

lemma decode_encode_u64 [simp]: "n \<le> u64_max \<Longrightarrow> decode_u64 (encode_u64 n) = Ok n"
  by (simp add: decode_u64_def encode_u64_def be_nat_be_bytes u64_max_def)

lemma from_as_i64 [simp]: "from_i64 (as_i64 k) = Ok k"
  by (cases k) (simp_all add: from_i64_def)

lemma decode_digest_eq [simp]: "length bs = 32 \<Longrightarrow> decode_digest bs = Ok bs"
  by (simp add: decode_digest_def)

section \<open>Invariant\<close>

text \<open>What bincode, the codec of the receipts and SHA-256 document.\<close>

definition ext_codec_ok :: "('c, 'o) ext_codec \<Rightarrow> bool" where
  "ext_codec_ok cod \<longleftrightarrow>
     (\<forall>c bs. xc_ser cod c = Some bs \<longrightarrow> xc_de cod bs = Some (c, length bs)) \<and>
     (\<forall>out bs. xc_encode_receipt cod out = Some bs \<longrightarrow> xc_decode_receipt cod bs = Some out) \<and>
     (\<forall>bs. length (xc_sha cod bs) = 32) \<and> xc_unit cod = Some []"

type_synonym 'c ext_entry = "'c external_commit \<times> external_entry_kind \<times> bytes"

abbreviation ent_commit :: "'c ext_entry \<Rightarrow> 'c external_commit" where
  "ent_commit e \<equiv> fst e"

definition kind_codec :: "('c, 'o) ext_codec \<Rightarrow> external_entry_kind \<Rightarrow> string" where
  "kind_codec cod k = (case k of Operation \<Rightarrow> xc_receipt_codec cod | Advance \<Rightarrow> advance_receipt_codec)"

definition commit_ok :: "'c external_commit \<Rightarrow> bool" where
  "commit_ok cm \<longleftrightarrow> sequence cm \<le> u64_max \<and> length (command_digest cm) = 32 \<and> state_schema cm \<le> u64_max \<and>
     receipt_schema cm \<le> u64_max"

definition entry_ok :: "('c, 'o) ext_codec \<Rightarrow> nat \<Rightarrow> 'c ext_entry \<Rightarrow> bool" where
  "entry_ok cod max_bytes e = (case e of (cm, kind, receipt) \<Rightarrow>
     commit_ok cm \<and> xc_ser cod (coordinate cm) \<noteq> None \<and> length receipt \<le> max_bytes \<and>
     (case kind of Operation \<Rightarrow> xc_decode_receipt cod receipt \<noteq> None | Advance \<Rightarrow> receipt = []))"

definition entry_row :: "('c, 'o) ext_codec \<Rightarrow> 'c ext_entry \<Rightarrow> bytes \<times> receipt_row" where
  "entry_row cod e = (case e of (cm, kind, receipt) \<Rightarrow>
     (encode_u64 (sequence cm),
      \<lparr>rr_coordinate = the (xc_ser cod (coordinate cm)), rr_command_digest = command_digest cm, rr_kind = as_i64 kind,
       rr_state_schema = encode_u64 (state_schema cm), rr_receipt_schema = encode_u64 (receipt_schema cm),
       rr_codec = kind_codec cod kind, rr_receipt = receipt, rr_receipt_digest = xc_sha cod receipt\<rparr>))"

definition entry_receipt :: "('c, 'o) ext_codec \<Rightarrow> 'c ext_entry \<Rightarrow> 'c stored_receipt" where
  "entry_receipt cod e = (case e of (cm, kind, receipt) \<Rightarrow>
     \<lparr>re_commit = cm, re_kind = kind, re_codec = kind_codec cod kind, re_receipt = receipt,
      re_digest = xc_sha cod receipt\<rparr>)"

definition entry_applied :: "('c, 'o) ext_codec \<Rightarrow> 'c ext_entry \<Rightarrow> 'c external_applied" where
  "entry_applied cod e = (case e of (cm, kind, receipt) \<Rightarrow>
     \<lparr>ap_commit = cm, ap_kind = kind, ap_receipt_digest = xc_sha cod receipt\<rparr>)"

definition state_row :: "('c, 'o) ext_codec \<Rightarrow> 'c stored_state \<Rightarrow> meta_row" where
  "state_row cod st =
     (let cm = map_option ap_commit (last_applied st) in
      \<lparr>mr_format_version = 1, mr_application_id = application_id st,
       mr_initial_sequence = encode_u64 (initial_sequence st),
       mr_initial_state_schema = encode_u64 (initial_state_schema st), mr_receipt_codec = receipt_codec st,
       mr_receipt_retention = encode_u64 (receipt_retention st), mr_max_receipt_bytes = encode_u64 (st_max_bytes st),
       mr_last_sequence = map_option (\<lambda>c. encode_u64 (sequence c)) cm,
       mr_last_coordinate = map_option (\<lambda>c. the (xc_ser cod (coordinate c))) cm,
       mr_last_command_digest = map_option command_digest cm,
       mr_last_kind = map_option (\<lambda>a. as_i64 (ap_kind a)) (last_applied st),
       mr_last_state_schema = map_option (\<lambda>c. encode_u64 (state_schema c)) cm,
       mr_last_receipt_schema = map_option (\<lambda>c. encode_u64 (receipt_schema c)) cm,
       mr_last_receipt_digest = map_option ap_receipt_digest (last_applied st),
       mr_receipt_floor = map_option encode_u64 (receipt_floor st), mr_snapshot_id = st_snapshot_id st\<rparr>)"

definition config_ok :: "('c, 'o) ext_codec \<Rightarrow> 'c stored_state \<Rightarrow> bool" where
  "config_ok cod st \<longleftrightarrow> initial_sequence st \<le> u64_max \<and> initial_state_schema st \<le> u64_max \<and>
     1 \<le> receipt_retention st \<and> receipt_retention st \<le> max_receipt_retention \<and>
     1 \<le> st_max_bytes st \<and> st_max_bytes st \<le> max_receipt_bytes \<and> receipt_codec st = xc_receipt_codec cod"

definition dense_from :: "nat \<Rightarrow> 'c ext_entry list \<Rightarrow> bool" where
  "dense_from s es \<longleftrightarrow> (\<forall>i<length es. sequence (ent_commit (es ! i)) = s + i)"

definition kept :: "'c stored_state \<Rightarrow> 'c ext_entry list \<Rightarrow> 'c ext_entry list" where
  "kept st hist = drop (length hist - receipt_retention st) hist"

definition state_of :: "('c, 'o) ext_codec \<Rightarrow> 'c stored_state \<Rightarrow> 'c ext_entry list \<Rightarrow> bool" where
  "state_of cod st hist \<longleftrightarrow>
     last_applied st = (if hist = [] then None else Some (entry_applied cod (last hist))) \<and>
     receipt_floor st = (if hist = [] then None else Some (initial_sequence st + (length hist - receipt_retention st)))"

definition ext_rep :: "('c, 'o) ext_codec \<Rightarrow> 'c ext_entry list \<Rightarrow> 'c stored_state \<Rightarrow> 'a db \<Rightarrow> bool" where
  "ext_rep cod hist st d \<longleftrightarrow> config_ok cod st \<and> list_all (entry_ok cod (st_max_bytes st)) hist \<and>
     dense_from (initial_sequence st) hist \<and> state_of cod st hist \<and>
     db_meta d = Some (Some (state_row cod st)) \<and>
     db_receipts d = Some (map (entry_row cod) (kept st hist))"

section \<open>Reading back\<close>

lemmas sql_read_simps = sql_query_def query_receipts_def rbind_eq_Ok

lemma deserialize_ser:
  "ext_codec_ok cod \<Longrightarrow> xc_ser cod c \<noteq> None \<Longrightarrow> deserialize_exact cod (the (xc_ser cod c)) = Ok c"
  by (auto simp: ext_codec_ok_def deserialize_exact_def)

lemma sha_length: "ext_codec_ok cod \<Longrightarrow> length (xc_sha cod bs) = 32"
  by (simp add: ext_codec_ok_def)

lemma entry_okD:
  assumes "entry_ok cod m (cm, kind, receipt)"
  shows "commit_ok cm" and "xc_ser cod (coordinate cm) \<noteq> None" and "length receipt \<le> m"
    and "kind = Operation \<Longrightarrow> xc_decode_receipt cod receipt \<noteq> None" and "kind = Advance \<Longrightarrow> receipt = []"
  using assms by (auto simp: entry_ok_def)

lemma decode_entry_row:
  assumes cod: "ext_codec_ok cod" and e: "entry_ok cod m e"
  shows "decode_receipt_row cod (sequence (ent_commit e)) (snd (entry_row cod e)) = Ok (entry_receipt cod e)"
proof -
  obtain cm kind receipt where [simp]: "e = (cm, kind, receipt)" by (cases e)
  note D = entry_okD [OF e [simplified]]
  show ?thesis
    using D(1) deserialize_ser [OF cod D(2)] sha_length [OF cod]
    by (simp add: decode_receipt_row_def entry_row_def entry_receipt_def commit_ok_def)
qed

lemma decode_state_row:
  assumes cod: "ext_codec_ok cod" and cfg: "config_ok cod st"
    and lst: "case last_applied st of None \<Rightarrow> receipt_floor st = None
      | Some a \<Rightarrow> commit_ok (ap_commit a) \<and> xc_ser cod (coordinate (ap_commit a)) \<noteq> None \<and>
          length (ap_receipt_digest a) = 32 \<and> (\<exists>f\<le>u64_max. receipt_floor st = Some f)"
  shows "decode_state cod (state_row cod st) = Ok st"
proof -
  have [simp]: "receipt_retention st \<le> u64_max" "st_max_bytes st \<le> u64_max"
    using cfg by (simp_all add: config_ok_def max_receipt_retention_def max_receipt_bytes_def u64_max_def)
  have head: "1 \<le> receipt_retention st" "receipt_retention st \<le> max_receipt_retention" "1 \<le> st_max_bytes st"
      "st_max_bytes st \<le> max_receipt_bytes" "initial_sequence st \<le> u64_max" "initial_state_schema st \<le> u64_max"
    using cfg by (simp_all add: config_ok_def)
  show ?thesis
  proof (cases "last_applied st")
    case None
    then show ?thesis
      using head lst by (simp add: decode_state_def state_row_def external_format_version_def last_values_present_def)
  next
    case (Some a)
    obtain f where f: "receipt_floor st = Some f" "f \<le> u64_max" using lst Some by auto
    obtain y where y: "xc_ser cod (coordinate (ap_commit a)) = Some y" using lst Some by auto
    then have "deserialize_exact cod y = Ok (coordinate (ap_commit a))" using deserialize_ser [OF cod, of "coordinate (ap_commit a)"] by simp
    then have "decode_last cod (state_row cod st) = Ok (a, f)"
      using lst Some f y by (simp add: decode_last_def state_row_def commit_ok_def)
    moreover have "last_values_present (state_row cod st) = replicate 8 True"
      using Some f by (simp add: last_values_present_def state_row_def numeral_eq_Suc)
    ultimately show ?thesis
      using head Some f by (simp add: decode_state_def external_format_version_def) (simp add: state_row_def)
  qed
qed

lemma dense_fromD: "dense_from s es \<Longrightarrow> i < length es \<Longrightarrow> sequence (ent_commit (es ! i)) = s + i"
  by (simp add: dense_from_def)

lemma dense_from_drop: "dense_from s es \<Longrightarrow> dense_from (s + k) (drop k es)"
  by (simp add: dense_from_def)

lemma dense_from_snoc: "dense_from s (es @ [e]) \<longleftrightarrow> dense_from s es \<and> sequence (ent_commit e) = s + length es"
  by (auto simp: dense_from_def nth_append less_Suc_eq)

lemma dense_from_Cons: "dense_from s (e # es) \<longleftrightarrow> sequence (ent_commit e) = s \<and> dense_from (Suc s) es"
proof
  assume d: "dense_from s (e # es)"
  then show "sequence (ent_commit e) = s \<and> dense_from (Suc s) es"
    using dense_fromD [OF d, of 0] dense_fromD [OF d, of "Suc i" for i] by (auto simp: dense_from_def)
next
  assume "sequence (ent_commit e) = s \<and> dense_from (Suc s) es"
  then show "dense_from s (e # es)" by (auto simp: dense_from_def nth_Cons split: nat.split)
qed

lemma fst_entry_row [simp]: "fst (entry_row cod e) = encode_u64 (sequence (ent_commit e))"
  by (simp add: entry_row_def split: prod.split)

lemma find_entry:
  assumes "dense_from s es" and "list_all (entry_ok cod m) es" and "q \<le> u64_max"
  shows "map_of (map (entry_row cod) es) (encode_u64 q) =
    (if s \<le> q \<and> q < s + length es then Some (snd (entry_row cod (es ! (q - s)))) else None)"
  using assms
proof (induction es arbitrary: s)
  case Nil
  then show ?case by simp
next
  case (Cons e es)
  have s: "sequence (ent_commit e) = s" and d: "dense_from (Suc s) es"
    using Cons.prems(1) by (simp_all add: dense_from_Cons)
  have "s \<le> u64_max" using Cons.prems(2) s by (auto simp: entry_ok_def commit_ok_def)
  then have "encode_u64 s = encode_u64 q \<longleftrightarrow> s = q" using encode_u64_eq [OF _ Cons.prems(3)] by simp
  then show ?case
    using Cons.IH [OF d _ Cons.prems(3)] Cons.prems(2) s fst_entry_row [of cod e]
    by (cases "entry_row cod e") (auto simp: nth_Cons')
qed

text \<open>A read that gives a value unless a statement fails.\<close>

definition quiet :: "sql_env \<Rightarrow> 'a conn \<Rightarrow> bool" where
  "quiet env c \<longleftrightarrow> (\<forall>opn. sql_ok env c opn)"

definition reads :: "sql_env \<Rightarrow> 'a conn \<Rightarrow> (ext_error, 'b) res \<Rightarrow> 'b \<Rightarrow> bool" where
  "reads env c r v \<longleftrightarrow> r = Ok v \<or> r = Err Sqlite \<and> \<not> quiet env c"

lemma reads_Ok [simp]: "reads env c (Ok v) v"
  by (simp add: reads_def)

lemma reads_bind: "reads env c m v \<Longrightarrow> reads env c (f v) w \<Longrightarrow> reads env c (rbind m f) w"
  by (auto simp: reads_def)

lemma reads_query: "reads env c (sql_query env c opn) (conn_db c)"
  by (auto simp: reads_def sql_query_def quiet_def)

lemma reads_receipts:
  "db_receipts (conn_db c) = Some rs \<Longrightarrow> reads env c (query_receipts env c opn) rs"
  unfolding query_receipts_def by (rule reads_bind [OF reads_query]) simp

text \<open>What the receipts table of a history answers.\<close>

definition retained :: "('c, 'o) ext_codec \<Rightarrow> 'c stored_state \<Rightarrow> 'c ext_entry list \<Rightarrow> nat \<Rightarrow> 'c ext_entry option" where
  "retained cod st hist q =
     (if initial_sequence st + (length hist - receipt_retention st) \<le> q \<and> q < initial_sequence st + length hist
      then Some (hist ! (q - initial_sequence st)) else None)"

lemma ext_repD:
  assumes "ext_rep cod hist st d"
  shows "config_ok cod st" and "list_all (entry_ok cod (st_max_bytes st)) hist" and "dense_from (initial_sequence st) hist"
    and "state_of cod st hist" and "db_meta d = Some (Some (state_row cod st))"
    and "db_receipts d = Some (map (entry_row cod) (kept st hist))"
  using assms by (simp_all add: ext_rep_def)

lemma rep_nth:
  assumes "ext_rep cod hist st d" and "i < length hist"
  shows "entry_ok cod (st_max_bytes st) (hist ! i)" and "sequence (ent_commit (hist ! i)) = initial_sequence st + i"
    and "commit_ok (ent_commit (hist ! i))"
proof -
  show e: "entry_ok cod (st_max_bytes st) (hist ! i)" using ext_repD(2) [OF assms(1)] assms(2) by (simp add: list_all_length)
  then show "commit_ok (ent_commit (hist ! i))" by (auto simp: entry_ok_def)
  show "sequence (ent_commit (hist ! i)) = initial_sequence st + i"
    using dense_fromD [OF ext_repD(3) [OF assms(1)] assms(2)] .
qed

lemma kept_dense: "ext_rep cod hist st d \<Longrightarrow> dense_from (initial_sequence st + (length hist - receipt_retention st)) (kept st hist)"
  unfolding kept_def by (rule dense_from_drop) (rule ext_repD(3))

lemma kept_ok: "ext_rep cod hist st d \<Longrightarrow> list_all (entry_ok cod (st_max_bytes st)) (kept st hist)"
  using ext_repD(2) unfolding kept_def list_all_iff by (metis in_set_dropD)

lemma find_kept:
  assumes rep: "ext_rep cod hist st d" and q: "q \<le> u64_max"
  shows "map_of (map (entry_row cod) (kept st hist)) (encode_u64 q) = map_option (\<lambda>e. snd (entry_row cod e)) (retained cod st hist q)"
proof -
  let ?k = "length hist - receipt_retention st"
  have "kept st hist ! (q - (initial_sequence st + ?k)) = hist ! (q - initial_sequence st)"
    if "initial_sequence st + ?k \<le> q"
    using that by (simp add: kept_def)
  moreover have "initial_sequence st + ?k + length (kept st hist) = initial_sequence st + length hist"
    by (simp add: kept_def)
  ultimately show ?thesis
    using find_entry [OF kept_dense [OF rep] kept_ok [OF rep] q] by (auto simp: retained_def)
qed

lemma load_receipt_rep:
  assumes cod: "ext_codec_ok cod" and rep: "ext_rep cod hist st (conn_db c)" and q: "q \<le> u64_max"
  shows "reads env c (load_receipt env cod c q (st_max_bytes st)) (map_option (entry_receipt cod) (retained cod st hist q))"
proof (cases "retained cod st hist q")
  case None
  then show ?thesis
    unfolding load_receipt_def
    by (intro reads_bind [OF reads_receipts [OF ext_repD(6) [OF rep]]]) (simp add: find_kept [OF rep q])
next
  case (Some e)
  then have e: "entry_ok cod (st_max_bytes st) e" "sequence (ent_commit e) = q"
    using rep_nth [OF rep, of "q - initial_sequence st"] by (auto simp: retained_def split: if_splits)
  then have "length (rr_receipt (snd (entry_row cod e))) \<le> st_max_bytes st"
    by (auto simp: entry_ok_def entry_row_def)
  moreover have "decode_receipt_row cod q (snd (entry_row cod e)) = Ok (entry_receipt cod e)"
    using decode_entry_row [OF cod e(1)] e(2) by simp
  ultimately show ?thesis
    unfolding load_receipt_def
    using Some
    by (intro reads_bind [OF reads_receipts [OF ext_repD(6) [OF rep]]])
      (auto simp: find_kept [OF rep q] intro!: reads_bind [OF reads_receipts [OF ext_repD(6) [OF rep]]])
qed

lemma rep_bounds:
  assumes rep: "ext_rep cod hist st d" and "hist \<noteq> []"
  shows "sequence (ent_commit (last hist)) = initial_sequence st + length hist - 1"
    and "initial_sequence st + length hist - 1 \<le> u64_max"
proof -
  have "last hist = hist ! (length hist - 1)" using assms(2) by (simp add: last_conv_nth)
  then show 1: "sequence (ent_commit (last hist)) = initial_sequence st + length hist - 1"
    using rep_nth(2) [OF rep, of "length hist - 1"] assms(2) by (cases hist) auto
  then show "initial_sequence st + length hist - 1 \<le> u64_max"
    using rep_nth(3) [OF rep, of "length hist - 1"] assms(2) \<open>last hist = _\<close> by (cases hist) (auto simp: commit_ok_def)
qed

lemma floor_eq:
  assumes "config_ok cod st"
  shows "retention_floor st (initial_sequence st + n) = initial_sequence st + (Suc n - receipt_retention st)"
  using assms by (auto simp: retention_floor_def config_ok_def max_def)

lemma rep_floor_le:
  assumes rep: "ext_rep cod hist st d" and "hist \<noteq> []"
  shows "initial_sequence st + (length hist - receipt_retention st) \<le> sequence (ent_commit (last hist))"
  using rep_bounds(1) [OF assms] assms(2) ext_repD(1) [OF rep] by (cases hist) (auto simp: config_ok_def)

lemma load_state_rep:
  assumes cod: "ext_codec_ok cod" and rep: "ext_rep cod hist st (conn_db c)"
  shows "reads env c (load_state env cod c) st"
proof -
  have "case last_applied st of None \<Rightarrow> receipt_floor st = None
      | Some a \<Rightarrow> commit_ok (ap_commit a) \<and> xc_ser cod (coordinate (ap_commit a)) \<noteq> None \<and>
          length (ap_receipt_digest a) = 32 \<and> (\<exists>f\<le>u64_max. receipt_floor st = Some f)"
  proof (cases "hist = []")
    case True
    then show ?thesis using ext_repD(4) [OF rep] by (simp add: state_of_def)
  next
    case False
    then obtain cm kind receipt where l: "last hist = (cm, kind, receipt)" by (metis prod_cases3)
    have "entry_ok cod (st_max_bytes st) (last hist)"
      using ext_repD(2) [OF rep] False by (simp add: list_all_iff)
    moreover have "initial_sequence st + (length hist - receipt_retention st) \<le> u64_max"
      using rep_floor_le [OF rep False] rep_bounds [OF rep False] by simp
    ultimately show ?thesis
      using ext_repD(4) [OF rep] False l sha_length [OF cod]
      by (simp add: state_of_def entry_applied_def entry_ok_def)
  qed
  then have "decode_state cod (state_row cod st) = Ok st"
    by (rule decode_state_row [OF cod ext_repD(1) [OF rep]])
  then show ?thesis
    using ext_repD(5) [OF rep]
    unfolding load_state_def require_metadata_table_def metadata_table_exists_def select_state_def
    by (intro reads_bind [of env c _ "()"] reads_bind [of env c _ True] reads_bind [OF reads_query]
          reads_bind [of env c _ "state_row cod st"]) simp_all
qed

lemma validate_entry:
  assumes cod: "ext_codec_ok cod" and cfg: "config_ok cod st" and e: "entry_ok cod (st_max_bytes st) e"
  shows "validate_receipt cod st (entry_receipt cod e) = Ok ()"
proof -
  obtain cm kind receipt where [simp]: "e = (cm, kind, receipt)" by (cases e)
  note D = entry_okD [OF e [simplified]]
  show ?thesis
    using D(3-5) cfg cod
    by (cases kind) (auto simp: validate_receipt_def entry_receipt_def kind_codec_def config_ok_def ext_codec_ok_def serialize_def)
qed

lemma retained_nth:
  assumes rep: "ext_rep cod hist st d" and i: "i < length (kept st hist)"
  shows "retained cod st hist (initial_sequence st + (length hist - receipt_retention st) + i) = Some (kept st hist ! i)"
proof -
  let ?k = "length hist - receipt_retention st"
  have "?k + i < length hist" using i by (simp add: kept_def)
  moreover have "kept st hist ! i = hist ! (?k + i)" using i by (simp add: kept_def)
  ultimately show ?thesis by (simp add: retained_def)
qed

lemma validate_suffix_rep:
  assumes cod: "ext_codec_ok cod" and rep: "ext_rep cod hist st (conn_db c)" and "k \<le> length (kept st hist)"
  shows "reads env c (validate_suffix env cod c st
    (initial_sequence st + (length hist - receipt_retention st) + k)
    (map (\<lambda>e. encode_u64 (sequence (ent_commit e))) (drop k (kept st hist)))) ()"
  using assms(3)
proof (induction "length (kept st hist) - k" arbitrary: k)
  case 0
  then show ?case by simp
next
  case (Suc n)
  let ?s = "initial_sequence st + (length hist - receipt_retention st)"
  let ?e = "kept st hist ! k"
  have k: "k < length (kept st hist)" using Suc.hyps(2) by simp
  have e: "entry_ok cod (st_max_bytes st) ?e" "sequence (ent_commit ?e) = ?s + k"
    using kept_ok [OF rep] k dense_fromD [OF kept_dense [OF rep] k] by (simp_all add: list_all_length)
  have q: "?s + k \<le> u64_max" using e by (auto simp: entry_ok_def commit_ok_def)
  have load: "reads env c (load_receipt env cod c (?s + k) (st_max_bytes st)) (Some (entry_receipt cod ?e))"
    using load_receipt_rep [OF cod rep q] by (simp add: retained_nth [OF rep k])
  have rest: "reads env c (validate_suffix env cod c st (Suc (?s + k))
      (map (\<lambda>e. encode_u64 (sequence (ent_commit e))) (drop (Suc k) (kept st hist)))) ()"
    using Suc.hyps(1) [of "Suc k"] Suc.hyps(2) k by simp
  have d: "drop k (kept st hist) = ?e # drop (Suc k) (kept st hist)"
    using k by (rule Cons_nth_drop_Suc [symmetric])
  show ?case
    unfolding d using q e(2) validate_entry [OF cod ext_repD(1) [OF rep] e(1)] rest
    by (auto intro: reads_bind [OF load])
qed

lemma kept_length: "length (kept st hist) = min (length hist) (receipt_retention st)"
  by (simp add: kept_def)

lemma validate_receipts_rep:
  assumes cod: "ext_codec_ok cod" and rep: "ext_rep cod hist st (conn_db c)"
  shows "reads env c (validate_receipts env cod c st) ()"
proof (cases "hist = []")
  case True
  then show ?thesis
    using ext_repD(4) [OF rep] ext_repD(6) [OF rep] unfolding validate_receipts_def
    by (auto simp: state_of_def kept_def intro!: reads_bind [OF reads_receipts])
next
  case False
  let ?s = "initial_sequence st + (length hist - receipt_retention st)" and ?a = "entry_applied cod (last hist)"
  have sq: "sequence (ap_commit ?a) = initial_sequence st + length hist - 1"
    using rep_bounds(1) [OF rep False] by (cases "last hist") (simp add: entry_applied_def)
  have st: "last_applied st = Some ?a" "receipt_floor st = Some ?s"
    using ext_repD(4) [OF rep] False by (simp_all add: state_of_def)
  have ret: "1 \<le> receipt_retention st" "1 \<le> length hist" "receipt_retention st \<le> max_receipt_retention"
    using ext_repD(1) [OF rep] False by (simp_all add: config_ok_def Suc_le_eq)
  then have cnt: "sequence (ap_commit ?a) - ?s + 1 = length (kept st hist)" "?s \<le> sequence (ap_commit ?a)"
    "length (kept st hist) \<le> u64_max"
    unfolding sq by (auto simp: kept_length min_def max_receipt_retention_def u64_max_def)
  have fl: "?s = retention_floor st (sequence (ap_commit ?a))"
    using floor_eq [OF ext_repD(1) [OF rep], of "length hist - 1"] ret(2) unfolding sq by (simp add: Suc_diff_le)
  have "retained cod st hist (sequence (ap_commit ?a)) = Some (last hist)"
    unfolding sq using ret False by (auto simp: retained_def last_conv_nth)
  moreover have "sequence (ap_commit ?a) \<le> u64_max" unfolding sq using rep_bounds(2) [OF rep False] .
  ultimately have "reads env c (load_receipt env cod c (sequence (ap_commit ?a)) (st_max_bytes st))
      (Some (entry_receipt cod (last hist)))"
    using load_receipt_rep [OF cod rep, of "sequence (ap_commit ?a)"] by simp
  then have newest: "reads env c (validate_newest env cod c st ?a) ()"
    unfolding validate_newest_def
    by (rule reads_bind) (simp add: entry_applied_def entry_receipt_def split: prod.split)
  have suffix: "reads env c (validate_suffix env cod c st ?s (map fst (map (entry_row cod) (kept st hist)))) ()"
    using validate_suffix_rep [OF cod rep, of 0 env] by (simp add: comp_def)
  have body: "reads env c (rbind (query_receipts env c SqSequences) (\<lambda>rs.
      if length rs \<noteq> length (kept st hist) then Err (InvalidMetadata ''receipt suffix count mismatch'')
      else rbind (validate_suffix env cod c st ?s (map fst rs)) (\<lambda>_. validate_newest env cod c st ?a))) ()"
    using reads_bind [OF suffix newest] by (auto intro!: reads_bind [OF reads_receipts [OF ext_repD(6) [OF rep]]])
  show ?thesis
    unfolding validate_receipts_def using st fl body [unfolded fl] cnt by (simp add: Let_def kept_length add_u64_eq)
qed

section \<open>Classification\<close>

lemma rep_last:
  assumes "ext_rep cod hist st d"
  shows "last_applied st = (if hist = [] then None else Some (entry_applied cod (last hist)))"
    and "hist \<noteq> [] \<Longrightarrow> Suc (sequence (ap_commit (entry_applied cod (last hist)))) = initial_sequence st + length hist"
proof -
  show "last_applied st = (if hist = [] then None else Some (entry_applied cod (last hist)))"
    using ext_repD(4) [OF assms] by (simp add: state_of_def)
  assume h: "hist \<noteq> []"
  then show "Suc (sequence (ap_commit (entry_applied cod (last hist)))) = initial_sequence st + length hist"
    using rep_bounds(1) [OF assms h] by (cases "last hist", cases hist) (simp_all add: entry_applied_def)
qed

lemma classify_next:
  assumes rep: "ext_rep cod hist st d" and cm: "commit_ok cm" and sq: "sequence cm = initial_sequence st + length hist"
  shows "classify_commit env cod c st cm kind codec = Ok New"
proof (cases "hist = []")
  case True
  then show ?thesis using rep_last [OF rep] sq by (simp add: classify_commit_def)
next
  case False
  then have "\<not> sequence cm \<le> sequence (ap_commit (entry_applied cod (last hist)))"
      and "checked_next (sequence (ap_commit (entry_applied cod (last hist)))) = Ok (sequence cm)"
    using rep_last(2) [OF rep] sq cm by (simp_all add: checked_next_def commit_ok_def)
  then show ?thesis
    using False rep_last(1) [OF rep] by (simp add: classify_commit_def)
qed

definition entry_is :: "'c external_commit \<Rightarrow> external_entry_kind \<Rightarrow> 'c ext_entry \<Rightarrow> bool" where
  "entry_is cm kind e \<longleftrightarrow> ent_commit e = cm \<and> fst (snd e) = kind"

lemma classify_old:
  assumes cod: "ext_codec_ok cod" and rep: "ext_rep cod hist st (conn_db c)" and "hist \<noteq> []"
    and cm: "commit_ok cm" and sq: "sequence cm < initial_sequence st + length hist"
  shows "case retained cod st hist (sequence cm) of
      Some e \<Rightarrow>
        if entry_is cm kind e then reads env c (classify_commit env cod c st cm kind (kind_codec cod kind)) (Retry (entry_receipt cod e))
        else classify_commit env cod c st cm kind (kind_codec cod kind) \<in> {Err (CommitConflict (sequence cm)), Err Sqlite} \<and>
          (quiet env c \<longrightarrow> classify_commit env cod c st cm kind (kind_codec cod kind) \<noteq> Err Sqlite)
    | None \<Rightarrow>
        classify_commit env cod c st cm kind (kind_codec cod kind) \<in> {Err (ReceiptUnavailable (sequence cm)), Err Sqlite} \<and>
          (quiet env c \<longrightarrow> classify_commit env cod c st cm kind (kind_codec cod kind) \<noteq> Err Sqlite)"
proof -
  have q: "sequence cm \<le> u64_max" using cm by (simp add: commit_ok_def)
  have cl: "classify_commit env cod c st cm kind (kind_codec cod kind) =
      rbind (load_receipt env cod c (sequence cm) (st_max_bytes st)) (\<lambda>r. case r of
           None \<Rightarrow> Err (ReceiptUnavailable (sequence cm))
         | Some r \<Rightarrow>
             if re_commit r \<noteq> cm \<or> re_kind r \<noteq> kind \<or> re_codec r \<noteq> kind_codec cod kind
             then Err (CommitConflict (sequence cm)) else Ok (Retry r))"
  proof -
    have "sequence cm \<le> sequence (ap_commit (entry_applied cod (last hist)))"
      using rep_last(2) [OF rep assms(3)] sq by simp
    then show ?thesis
      using assms(3) by (simp only: classify_commit_def rep_last(1) [OF rep] option.case if_True if_False)
  qed
  show ?thesis
    unfolding cl using load_receipt_rep [OF cod rep q, of env]
    by (auto simp: reads_def entry_is_def entry_receipt_def split: option.splits prod.splits)
qed

lemma classify_cases:
  assumes cod: "ext_codec_ok cod" and rep: "ext_rep cod hist st (conn_db c)" and cm: "commit_ok cm"
  obtains (New) "classify_commit env cod c st cm kind (kind_codec cod kind) = Ok New"
      "sequence cm = initial_sequence st + length hist"
  | (Retry) e where "classify_commit env cod c st cm kind (kind_codec cod kind) = Ok (Retry (entry_receipt cod e))"
      "e \<in> set hist" "entry_is cm kind e"
  | (Refused) e where "classify_commit env cod c st cm kind (kind_codec cod kind) = Err e"
proof -
  let ?cl = "classify_commit env cod c st cm kind (kind_codec cod kind)"
  consider "sequence cm = initial_sequence st + length hist" | "initial_sequence st + length hist < sequence cm"
    | "sequence cm < initial_sequence st + length hist" "hist = []"
    | "sequence cm < initial_sequence st + length hist" "hist \<noteq> []" by fastforce
  then show thesis
  proof cases
    case 1
    then show thesis using classify_next [OF rep cm 1, of env c kind "kind_codec cod kind"] that(1) by blast
  next
    case 2
    then have "hist \<noteq> [] \<Longrightarrow> \<not> sequence cm \<le> sequence (ap_commit (entry_applied cod (last hist)))"
      and "hist \<noteq> [] \<Longrightarrow> sequence cm \<noteq> sequence (ap_commit (entry_applied cod (last hist))) + 1"
      using rep_last(2) [OF rep] by auto
    then have "\<exists>e. ?cl = Err e"
      using 2 rep_last(1) [OF rep] by (cases "hist = []") (auto simp: classify_commit_def checked_next_def)
    then show thesis using that(3) by blast
  next
    case 3
    then show thesis using rep_last [OF rep] that(3) by (simp add: classify_commit_def)
  next
    case 4
    show thesis
    proof (cases "retained cod st hist (sequence cm)")
      case None
      then show thesis using classify_old [OF cod rep 4(2) cm 4(1), of env kind] that(3) by auto
    next
      case (Some e)
      then have e: "e \<in> set hist" by (auto simp: retained_def split: if_splits)
      have "(\<exists>x. ?cl = Err x) \<or> ?cl = Ok (Retry (entry_receipt cod e)) \<and> entry_is cm kind e"
        using classify_old [OF cod rep 4(2) cm 4(1), of env kind] Some by (auto simp: reads_def split: if_splits)
      then show thesis using e that(2) [of e] that(3) by blast
    qed
  qed
qed

section \<open>Persisting a commit\<close>

lemma conn_db_put [simp]: "conn_db (put_db d c) = d"
  by (simp add: conn_db_def put_db_def split: option.split)

lemma cn_auth_put [simp]: "cn_auth (put_db d c) = cn_auth c"
  by (simp add: put_db_def split: option.split)

lemma sql_ok_put [simp]: "sql_ok env (put_db d c) = sql_ok env c"
  by (simp add: sql_ok_def fun_eq_iff)

lemma put_put [simp]: "put_db d' (put_db d c) = put_db d' c"
  by (simp add: put_db_def split: option.split)

lemma put_in_txn: "cn_txn c \<noteq> None \<Longrightarrow> put_db d c = c\<lparr>cn_txn := Some d\<rparr>"
  by (auto simp: put_db_def)

lemma sql_exec_apply:
  "sql_exec env opn f c = (if sql_ok env c opn then
     (case f (conn_db c) of Ok d \<Rightarrow> (Ok (), put_db d c) | Err e \<Rightarrow> (Err e, c) | Panic p \<Rightarrow> (Panic p, c)) else (Err Sqlite, c))"
  by (simp add: sql_exec_def sql_query_def split: res.split)

lemma bt_insert_last: "(\<And>x. x \<in> set m \<Longrightarrow> fst x < k) \<Longrightarrow> bt_insert k v m = m @ [(k, v)]"
proof (induction m)
  case (Cons x m)
  then have "\<not> k < fst x" "k \<noteq> fst x" by (metis less_asym list.set_intros(1), metis less_irrefl list.set_intros(1))
  then show ?case using Cons by simp
qed simp

lemma filter_dense:
  assumes "dense_from s es"
  shows "filter (\<lambda>e. f \<le> sequence (ent_commit e)) es = drop (f - s) es"
  using assms
proof (induction es arbitrary: s)
  case (Cons e es)
  then have e: "sequence (ent_commit e) = s" "dense_from (Suc s) es" by (simp_all add: dense_from_Cons)
  show ?case
  proof (cases "f \<le> s")
    case True
    then show ?thesis using Cons.IH [OF e(2)] e(1) by simp
  next
    case False
    then have "f - s = Suc (f - Suc s)" by simp
    then show ?thesis using Cons.IH [OF e(2)] e(1) False by simp
  qed
qed simp

text \<open>The tables after a new entry.\<close>

definition next_state :: "('c, 'o) ext_codec \<Rightarrow> 'c ext_entry \<Rightarrow> 'c stored_state \<Rightarrow> 'c stored_state" where
  "next_state cod e st = (case e of (cm, kind, receipt) \<Rightarrow> update_state_after_commit cm kind (xc_sha cod receipt) st)"

lemma next_state_simps [simp]:
  "initial_sequence (next_state cod e st) = initial_sequence st" "receipt_retention (next_state cod e st) = receipt_retention st"
  "st_max_bytes (next_state cod e st) = st_max_bytes st" "config_ok cod (next_state cod e st) = config_ok cod st"
  "retention_floor (next_state cod e st) q = retention_floor st q" "kept (next_state cod e st) h = kept st h"
  by (simp_all add: next_state_def update_state_after_commit_def config_ok_def retention_floor_def kept_def split: prod.split)

lemma kept_snoc:
  assumes rep: "ext_rep cod hist st d" and sq: "sequence (ent_commit e) = initial_sequence st + length hist"
  shows "filter (\<lambda>x. initial_sequence st + (Suc (length hist) - receipt_retention st) \<le> sequence (ent_commit x)) (kept st hist @ [e])
    = kept st (hist @ [e])"
proof -
  let ?k = "length hist - receipt_retention st"
  have n: "initial_sequence st + ?k + length (kept st hist) = initial_sequence st + length hist" by (simp add: kept_def)
  have "dense_from (initial_sequence st + ?k) (kept st hist @ [e])"
    using kept_dense [OF rep] sq n by (simp add: dense_from_snoc)
  from filter_dense [OF this, of "initial_sequence st + (Suc (length hist) - receipt_retention st)"]
  have "filter (\<lambda>x. initial_sequence st + (Suc (length hist) - receipt_retention st) \<le> sequence (ent_commit x)) (kept st hist @ [e])
      = drop (Suc (length hist) - receipt_retention st - ?k) (kept st hist @ [e])" by simp
  also have "\<dots> = kept st (hist @ [e])"
  proof -
    have "kept st hist @ [e] = drop ?k (hist @ [e])" by (simp add: kept_def)
    moreover have "Suc (length hist) - receipt_retention st - ?k + ?k = Suc (length hist) - receipt_retention st" by simp
    ultimately show ?thesis by (simp add: kept_def)
  qed
  finally show ?thesis .
qed

definition appended_db :: "('c, 'o) ext_codec \<Rightarrow> 'c ext_entry list \<Rightarrow> 'c stored_state \<Rightarrow> 'c ext_entry \<Rightarrow> 'a db \<Rightarrow> 'a db" where
  "appended_db cod hist st e d = d\<lparr>db_meta := Some (Some (state_row cod (next_state cod e st))),
     db_receipts := Some (map (entry_row cod) (kept st (hist @ [e])))\<rparr>"

lemma appended_rep:
  assumes rep: "ext_rep cod hist st d" and e: "entry_ok cod (st_max_bytes st) e"
    and sq: "sequence (ent_commit e) = initial_sequence st + length hist"
  shows "ext_rep cod (hist @ [e]) (next_state cod e st) (appended_db cod hist st e d)"
proof -
  have "retention_floor st (sequence (ent_commit e)) = initial_sequence st + (Suc (length hist) - receipt_retention st)"
    unfolding sq by (rule floor_eq [OF ext_repD(1) [OF rep]])
  then have "state_of cod (next_state cod e st) (hist @ [e])"
    by (cases e) (simp add: state_of_def next_state_def update_state_after_commit_def entry_applied_def)
  then show ?thesis
    using ext_repD(1-3) [OF rep] e sq by (simp add: ext_rep_def appended_db_def dense_from_snoc)
qed

lemma persist_db:
  assumes rep: "ext_rep cod hist st d" and e: "entry_ok cod (st_max_bytes st) (cm, kind, receipt)"
    and sq: "sequence cm = initial_sequence st + length hist" and coord: "xc_ser cod (coordinate cm) = Some coord"
  shows "rbind (insert_receipt (encode_u64 (sequence cm)) (snd (entry_row cod (cm, kind, receipt))) d) (\<lambda>d1.
     rbind (update_meta (\<lambda>row. row\<lparr>
        mr_last_sequence := Some (encode_u64 (sequence cm)), mr_last_coordinate := Some coord,
        mr_last_command_digest := Some (command_digest cm), mr_last_kind := Some (as_i64 kind),
        mr_last_state_schema := Some (encode_u64 (state_schema cm)),
        mr_last_receipt_schema := Some (encode_u64 (receipt_schema cm)),
        mr_last_receipt_digest := Some (xc_sha cod receipt),
        mr_receipt_floor := Some (encode_u64 (retention_floor st (sequence cm)))\<rparr>) d1)
       (delete_receipts (encode_u64 (retention_floor st (sequence cm))))) = Ok (appended_db cod hist st (cm, kind, receipt) d)"
proof -
  let ?e = "(cm, kind, receipt)" and ?f = "retention_floor st (sequence cm)"
  have fl: "?f = initial_sequence st + (Suc (length hist) - receipt_retention st)"
    unfolding sq by (rule floor_eq [OF ext_repD(1) [OF rep]])
  have u: "sequence cm \<le> u64_max" "?f \<le> u64_max"
    using e fl sq ext_repD(1) [OF rep] by (auto simp: entry_ok_def commit_ok_def config_ok_def)
  have less: "sequence (ent_commit x) \<le> u64_max \<and> sequence (ent_commit x) < sequence cm" if "x \<in> set (kept st hist)" for x
    using that kept_ok [OF rep] kept_dense [OF rep] sq
    by (auto simp: in_set_conv_nth list_all_length dense_from_def entry_ok_def commit_ok_def kept_def) 
  have ins: "bt_insert (encode_u64 (sequence cm)) (snd (entry_row cod ?e)) (map (entry_row cod) (kept st hist))
      = map (entry_row cod) (kept st hist @ [?e])"
    using less u(1) by (subst bt_insert_last) (auto simp: encode_u64_less entry_row_def)
  have none: "map_of (map (entry_row cod) (kept st hist)) (encode_u64 (sequence cm)) = None"
    using find_kept [OF rep u(1)] sq by (simp add: retained_def)
  have del: "filter (\<lambda>(k, _). \<not> k < encode_u64 ?f) (map (entry_row cod) (kept st hist @ [?e]))
      = map (entry_row cod) (kept st (hist @ [?e]))"
  proof -
    have "(\<not> fst (entry_row cod x) < encode_u64 ?f) = (?f \<le> sequence (ent_commit x))" if "x \<in> set (kept st hist @ [?e])" for x
    proof -
      have "sequence (ent_commit x) \<le> u64_max" using that less [of x] u(1) by auto
      from encode_u64_less [OF this u(2)] show ?thesis by (simp only: fst_entry_row not_less)
    qed
    then have "filter (\<lambda>x. \<not> fst (entry_row cod x) < encode_u64 ?f) (kept st hist @ [?e])
        = filter (\<lambda>x. ?f \<le> sequence (ent_commit x)) (kept st hist @ [?e])" by (rule filter_cong [OF refl])
    also have "\<dots> = kept st (hist @ [?e])"
      unfolding fl using sq by (intro kept_snoc [OF rep]) simp
    finally show ?thesis by (simp only: filter_map comp_def case_prod_beta)
  qed
  show ?thesis
    using ext_repD(5,6) [OF rep] none ins del coord
    by (simp add: insert_receipt_def update_meta_def delete_receipts_def appended_db_def next_state_def
        update_state_after_commit_def state_row_def Let_def retention_floor_def)
qed

text \<open>What a step inside a transaction may do to the connection: the database and the authorizer stay.\<close>

definition in_txn :: "'a conn \<Rightarrow> 'a conn \<Rightarrow> bool" where
  "in_txn c c' \<longleftrightarrow> cn_db c' = cn_db c \<and> cn_txn c' \<noteq> None \<and> cn_auth c' = cn_auth c"

lemma persist_in_txn:
  assumes rep: "ext_rep cod hist st (conn_db c)" and e: "entry_ok cod (st_max_bytes st) (cm, kind, receipt)"
    and sq: "sequence cm = initial_sequence st + length hist" and txn: "cn_txn c \<noteq> None"
  shows "\<exists>r c'. persist_new_commit env cod st cm kind (kind_codec cod kind) receipt (xc_sha cod receipt) c = (r, c') \<and>
    in_txn c c' \<and> (r = Ok () \<and> conn_db c' = appended_db cod hist st (cm, kind, receipt) (conn_db c) \<or>
      r = Err Sqlite \<and> \<not> quiet env c)"
proof -
  obtain coord where coord: "xc_ser cod (coordinate cm) = Some coord"
    using entry_okD(2) [OF e] by blast
  obtain d1 d2 where d: "insert_receipt (encode_u64 (sequence cm)) (snd (entry_row cod (cm, kind, receipt))) (conn_db c) = Ok d1"
      "update_meta (\<lambda>row. row\<lparr>
        mr_last_sequence := Some (encode_u64 (sequence cm)), mr_last_coordinate := Some coord,
        mr_last_command_digest := Some (command_digest cm), mr_last_kind := Some (as_i64 kind),
        mr_last_state_schema := Some (encode_u64 (state_schema cm)),
        mr_last_receipt_schema := Some (encode_u64 (receipt_schema cm)),
        mr_last_receipt_digest := Some (xc_sha cod receipt),
        mr_receipt_floor := Some (encode_u64 (retention_floor st (sequence cm)))\<rparr>) d1 = Ok d2"
      "delete_receipts (encode_u64 (retention_floor st (sequence cm))) d2 = Ok (appended_db cod hist st (cm, kind, receipt) (conn_db c))"
    using persist_db [OF rep e sq coord] by (auto simp: rbind_eq_Ok)
  have row: "snd (entry_row cod (cm, kind, receipt)) = \<lparr>rr_coordinate = coord, rr_command_digest = command_digest cm,
      rr_kind = as_i64 kind, rr_state_schema = encode_u64 (state_schema cm),
      rr_receipt_schema = encode_u64 (receipt_schema cm), rr_codec = kind_codec cod kind, rr_receipt = receipt,
      rr_receipt_digest = xc_sha cod receipt\<rparr>"
    using coord by (simp add: entry_row_def)
  have t: "in_txn c (put_db x c)" "in_txn c c" for x using txn by (simp_all add: in_txn_def put_in_txn)
  have q: "\<not> quiet env c" if "\<not> sql_ok env c opn" for opn using that by (auto simp: quiet_def)
  show ?thesis
    using t q [of SqInsertReceipt] q [of SqUpdateState] q [of SqDeleteReceipts]
    by (cases "sql_ok env c SqInsertReceipt"; cases "sql_ok env c SqUpdateState"; cases "sql_ok env c SqDeleteReceipts")
      (simp_all add: persist_new_commit_def act_simps serialize_def coord Let_def sql_exec_apply d(1) [unfolded row] d(2,3))
qed

lemma begin_cases:
  assumes "cn_txn c = None" and "\<not> cn_auth c"
  shows "begin_immediate env c = (Ok (), c\<lparr>cn_txn := Some (cn_db c)\<rparr>) \<or>
    begin_immediate env c = (Err Sqlite, c) \<and> \<not> quiet env c"
  using assms by (auto simp: begin_immediate_def is_autocommit_def quiet_def)

lemma commit_cases:
  assumes "cn_txn c = Some d" and "\<not> cn_auth c"
  shows "commit_transaction env c = (Ok (), c\<lparr>cn_db := d, cn_txn := None\<rparr>) \<and> sql_commit env = CommitDone \<or>
    (\<exists>c'. commit_transaction env c = (Err Sqlite, c') \<and> sql_commit env \<noteq> CommitDone \<and>
      (cn_db c' = cn_db c \<or> cn_db c' = d \<and> cn_txn c' = None) \<and> \<not> cn_auth c')"
  using assms by (cases "sql_commit env") (auto simp: commit_transaction_def)

lemma drop_keeps [simp]: "cn_db (drop_transaction env c) = cn_db c" "cn_auth (drop_transaction env c) = cn_auth c"
  by (simp_all add: drop_transaction_def roll_back_def)

lemma drop_none: "cn_txn c = None \<Longrightarrow> drop_transaction env c = c"
  by (simp add: drop_transaction_def is_autocommit_def)

lemma drop_denied: "cn_auth c \<Longrightarrow> drop_transaction env c = c"
  by (simp add: drop_transaction_def roll_back_def sql_ok_def)

lemma reconcile_spec:
  assumes cod: "ext_codec_ok cod" and rep: "ext_rep cod hist st' (cn_db c)" and fl: "\<not> failed \<Longrightarrow> st = st'"
  shows "(\<exists>e s. reconcile_after_apply env cod failed (c, st) = (Err e, s) \<and> \<not> (quiet env c \<and> sql_ok env c SqRollback)) \<or>
    reconcile_after_apply env cod failed (c, st) = (Ok (), (c\<lparr>cn_txn := None\<rparr>, st'))"
proof -
  let ?c = "c\<lparr>cn_txn := None\<rparr>"
  have db: "conn_db ?c = cn_db c" and q: "quiet env ?c = quiet env c"
    by (simp_all add: conn_db_def quiet_def sql_ok_def)
  have "reads env ?c (load_state env cod ?c) st'" "reads env ?c (validate_receipts env cod ?c st') ()"
    using load_state_rep [OF cod, of hist st' ?c env] validate_receipts_rep [OF cod, of hist st' ?c env] rep db by simp_all
  then have "reads env ?c (rbind (load_state env cod ?c) (\<lambda>stored.
      rbind (validate_receipts env cod ?c stored) (\<lambda>_. Ok stored))) st'"
    by (intro reads_bind [of env ?c "load_state env cod ?c" st'] reads_bind [of env ?c _ "()"]) simp_all
  then have r: "rbind (load_state env cod ?c) (\<lambda>stored. rbind (validate_receipts env cod ?c stored) (\<lambda>_. Ok stored)) = Ok st' \<or>
      rbind (load_state env cod ?c) (\<lambda>stored. rbind (validate_receipts env cod ?c stored) (\<lambda>_. Ok stored)) = Err Sqlite \<and> \<not> quiet env c"
    using q by (simp add: reads_def)
  have c: "cn_txn c = None \<Longrightarrow> ?c = c" by simp
  show ?thesis
    using r fl c
    by (cases "cn_txn c = None"; cases "sql_ok env c SqRollback")
      (auto simp: reconcile_after_apply_def is_autocommit_def roll_back_def)
qed

section \<open>Operations\<close>

definition keeps_txn :: "('a, 'e, 'o) operation \<Rightarrow> bool" where
  "keeps_txn opr \<longleftrightarrow> (\<forall>a. \<not> snd (snd (opr a)))"

definition calm :: "sql_env \<Rightarrow> bool" where
  "calm env \<longleftrightarrow> (\<forall>opn. \<not> sql_fails env opn) \<and> sql_commit env = CommitDone"

text \<open>The operation succeeds on the contents \<open>app\<close> with a receipt that can be stored.\<close>

definition applies :: "('c, 'o) ext_codec \<Rightarrow> 'c stored_state \<Rightarrow> 'c external_commit \<Rightarrow> ('a, 'e, 'o) operation \<Rightarrow>
    'a \<Rightarrow> 'o \<Rightarrow> bytes \<Rightarrow> 'a \<Rightarrow> bool" where
  "applies cod st cm opr app out receipt app' \<longleftrightarrow> opr app = (Inr out, app', False) \<and>
     xc_encode_receipt cod out = Some receipt \<and> length receipt \<le> st_max_bytes st \<and> xc_ser cod (coordinate cm) \<noteq> None"

lemma applies_entry_ok:
  assumes "ext_codec_ok cod" and "commit_ok cm" and "applies cod st cm opr app out receipt app'"
  shows "entry_ok cod (st_max_bytes st) (cm, Operation, receipt)" and "xc_decode_receipt cod receipt = Some out"
proof -
  show d: "xc_decode_receipt cod receipt = Some out"
    using assms(1,3) by (auto simp: ext_codec_ok_def applies_def)
  show "entry_ok cod (st_max_bytes st) (cm, Operation, receipt)"
    using assms(2,3) d by (simp add: entry_ok_def applies_def)
qed

lemma quiet_calm: "calm env \<Longrightarrow> \<not> cn_auth c \<Longrightarrow> quiet env c"
  by (simp add: calm_def quiet_def sql_ok_def)

lemma ext_rep_app: "ext_rep cod hist st (d\<lparr>db_app := a\<rparr>) = ext_rep cod hist st d"
  by (simp add: ext_rep_def)

lemma db_app_appended [simp]: "db_app (appended_db cod hist st e d) = db_app d"
  by (simp add: appended_db_def)

text \<open>The three ways the transaction of an operation ends.\<close>

definition unchanged_end :: "'a conn \<Rightarrow> 'a conn \<Rightarrow> bool" where
  "unchanged_end c c' \<longleftrightarrow> cn_db c' = cn_db c \<and> (cn_auth c' \<longrightarrow> cn_txn c' \<noteq> None)"

definition committed_end :: "('c, 'o) ext_codec \<Rightarrow> 'c ext_entry list \<Rightarrow> 'c stored_state \<Rightarrow> 'c ext_entry \<Rightarrow> 'a \<Rightarrow> 'a conn \<Rightarrow> 'a conn \<Rightarrow> bool" where
  "committed_end cod hist st e app c c' \<longleftrightarrow> cn_txn c' = None \<and> \<not> cn_auth c' \<and>
     cn_db c' = appended_db cod hist st e ((cn_db c)\<lparr>db_app := app\<rparr>)"

lemma body_commit:
  assumes cod: "ext_codec_ok cod" and rep: "ext_rep cod hist st (cn_db c)" and cm: "commit_ok cm"
    and sq: "sequence cm = initial_sequence st + length hist" and e: "entry_ok cod (st_max_bytes st) (cm, kind, receipt)"
    and txn: "cn_txn c = Some ((cn_db c)\<lparr>db_app := app\<rparr>)" and auth: "\<not> cn_auth c"
  shows "\<exists>r c'. athen (persist_new_commit env cod st cm kind (kind_codec cod kind) receipt (xc_sha cod receipt))
      (commit_transaction env) c = (r, c') \<and>
    (r = Ok () \<and> committed_end cod hist st (cm, kind, receipt) app c c' \<or>
     r = Err Sqlite \<and> \<not> calm env \<and> (unchanged_end c c' \<or> committed_end cod hist st (cm, kind, receipt) app c c'))"
proof -
  have rep': "ext_rep cod hist st (conn_db c)" using rep txn by (simp add: conn_db_def ext_rep_app)
  obtain r c1 where p: "persist_new_commit env cod st cm kind (kind_codec cod kind) receipt (xc_sha cod receipt) c = (r, c1)"
      "in_txn c c1" "r = Ok () \<and> conn_db c1 = appended_db cod hist st (cm, kind, receipt) (conn_db c) \<or>
        r = Err Sqlite \<and> \<not> quiet env c"
    using persist_in_txn [OF rep' e sq, of env] txn by blast
  obtain d1 where d1: "cn_txn c1 = Some d1" "\<not> cn_auth c1" "cn_db c1 = cn_db c"
    using p(2) auth by (auto simp: in_txn_def)
  show ?thesis
  proof (cases "r = Ok ()")
    case True
    then have d: "d1 = appended_db cod hist st (cm, kind, receipt) ((cn_db c)\<lparr>db_app := app\<rparr>)"
      using p(3) d1(1) txn by (auto simp: conn_db_def)
    show ?thesis
      using commit_cases [OF d1(1,2), of env] p(1) True d d1 auth
      by (auto simp: act_simps committed_end_def unchanged_end_def calm_def)
  next
    case False
    then show ?thesis
      using p(1,3) d1 quiet_calm [OF _ auth, of env] by (auto simp: act_simps unchanged_end_def)
  qed
qed

lemma map_err_apply [act_simps]: "map_err f m s = (case m s of
     (Ok b, s') \<Rightarrow> (Ok b, s') | (Err e, s') \<Rightarrow> (Err (f e), s') | (Panic p, s') \<Rightarrow> (Panic p, s'))"
  by (simp add: map_err_def)

lemma map_err_athen:
  "athen (map_err f m) (athen (map_err f n) (aret x)) s = (case athen m n s of
     (Ok _, s') \<Rightarrow> (Ok x, s') | (Err e, s') \<Rightarrow> (Err (f e), s') | (Panic p, s') \<Rightarrow> (Panic p, s'))"
  by (simp add: act_simps split: prod.split res.split)

lemma persist_unserializable:
  "xc_ser cod (coordinate cm) = None \<Longrightarrow>
   athen (persist_new_commit env cod st cm kind codec receipt digest) m c = (Err Serialization, c)"
  by (simp add: persist_new_commit_def act_simps serialize_def)

lemma operation_body_spec:
  assumes cod: "ext_codec_ok cod" and rep: "ext_rep cod hist st (cn_db c)" and cm: "commit_ok cm"
    and sq: "sequence cm = initial_sequence st + length hist" and keeps: "keeps_txn opr"
    and txn: "cn_txn c = Some (cn_db c)" and auth: "\<not> cn_auth c"
  shows "\<exists>r c'. operation_body env cod st cm opr c = (r, c') \<and>
    ((\<exists>out receipt app. applies cod st cm opr (db_app (cn_db c)) out receipt app \<and>
        committed_end cod hist st (cm, Operation, receipt) app c c' \<and>
        (r = Ok (out, xc_sha cod receipt) \<or> r = Err (Engine Sqlite) \<and> \<not> calm env)) \<or>
     (\<exists>x. r = Err x) \<and> unchanged_end c c' \<and> (calm env \<longrightarrow> \<not> cn_auth c') \<and>
       \<not> (calm env \<and> (\<exists>out receipt app. applies cod st cm opr (db_app (cn_db c)) out receipt app)))"
proof -
  obtain res app where opr: "opr (db_app (cn_db c)) = (res, app, False)"
    using keeps by (cases "opr (db_app (cn_db c))") (auto simp: keeps_txn_def dest: spec [of _ "db_app (cn_db c)"])
  let ?c2 = "c\<lparr>cn_txn := Some ((cn_db c)\<lparr>db_app := app\<rparr>), cn_auth := False\<rparr>"
  consider (on) "sql_fails env SqAuthorizer" | (off) "\<not> sql_fails env SqAuthorizer" "sql_fails env SqNoAuthorizer"
    | (op) "\<not> sql_fails env SqAuthorizer" "\<not> sql_fails env SqNoAuthorizer" by blast
  then show ?thesis
  proof cases
    case on
    then show ?thesis
      using auth by (auto simp: operation_body_def act_simps set_authorizer_def unchanged_end_def calm_def)
  next
    case off
    then show ?thesis
      using txn opr by (auto simp: operation_body_def act_simps set_authorizer_def run_operation_def conn_db_def put_db_def
          unchanged_end_def calm_def)
  next
    case op
    have body: "operation_body env cod st cm opr c =
      (case res of
         Inl e \<Rightarrow> athrow (OperationError e)
       | Inr output \<Rightarrow>
           abind (map_err Engine (alift (serialize (xc_encode_receipt cod output)))) (\<lambda>receipt.
           if st_max_bytes st < length receipt
           then athrow (Engine (ReceiptTooLarge (length receipt) (st_max_bytes st)))
           else
             athen (map_err Engine (persist_new_commit env cod st cm Operation (xc_receipt_codec cod) receipt
                     (xc_sha cod receipt)))
             (athen (map_err Engine (commit_transaction env)) (aret (output, xc_sha cod receipt))))) ?c2"
      using op txn opr auth
      by (simp add: operation_body_def act_simps set_authorizer_def run_operation_def conn_db_def put_db_def)
    have end2: "committed_end cod hist st x app ?c2 c' = committed_end cod hist st x app c c'"
        "unchanged_end ?c2 c' = unchanged_end c c'" for x c'
      by (simp_all add: committed_end_def unchanged_end_def)
    show ?thesis
    proof (cases "\<exists>out receipt. res = Inr out \<and> xc_encode_receipt cod out = Some receipt \<and> length receipt \<le> st_max_bytes st")
      case False
      then show ?thesis
        unfolding body
        by (auto simp: act_simps serialize_def unchanged_end_def applies_def opr split: sum.splits option.splits)
    next
      case True
      then obtain out receipt where r: "res = Inr out" "xc_encode_receipt cod out = Some receipt" "length receipt \<le> st_max_bytes st"
        by blast
      let ?m = "athen (persist_new_commit env cod st cm Operation (kind_codec cod Operation) receipt (xc_sha cod receipt))
        (commit_transaction env)"
      have b: "operation_body env cod st cm opr c = (case ?m ?c2 of
          (Ok _, s') \<Rightarrow> (Ok (out, xc_sha cod receipt), s') | (Err e, s') \<Rightarrow> (Err (Engine e), s') | (Panic p, s') \<Rightarrow> (Panic p, s'))"
        unfolding body using r by (simp add: abind_apply map_err_apply alift_apply serialize_def map_err_athen kind_codec_def)
      show ?thesis
      proof (cases "xc_ser cod (coordinate cm) = None")
        case True
        then show ?thesis
          unfolding b by (auto simp: persist_unserializable unchanged_end_def applies_def)
      next
        case False
        then have a: "applies cod st cm opr (db_app (cn_db c)) out receipt app"
          using r opr by (simp add: applies_def)
        show ?thesis
          using body_commit [OF cod, of hist st ?c2 cm Operation receipt app env] rep cm sq applies_entry_ok(1) [OF cod cm a] a
          unfolding b end2 by fastforce
      qed
    qed
  qed
qed

section \<open>Requests\<close>

definition idle :: "'a conn \<Rightarrow> bool" where
  "idle c \<longleftrightarrow> cn_txn c = None \<and> \<not> cn_auth c"

lemma idle_db: "idle c \<Longrightarrow> conn_db c = cn_db c"
  by (simp add: idle_def conn_db_def)

definition is_err :: "('e, 'r) res \<Rightarrow> bool" where
  "is_err r \<longleftrightarrow> (\<exists>x. r = Err x)"

text \<open>An entry is appended to the history together with the new contents of the application, or nothing changes; an
  answer that the entry was applied or recovered is true, an error may leave open which of the two happened.\<close>

definition appends :: "'c stored_state \<Rightarrow> 'c ext_entry \<Rightarrow> 'c ext_entry list \<Rightarrow> 'c ext_entry list \<Rightarrow> bool" where
  "appends st e hist hist' \<longleftrightarrow> hist' = hist @ [e] \<and> sequence (ent_commit e) = initial_sequence st + length hist"

definition op_spec :: "('c, 'o) ext_codec \<Rightarrow> 'c stored_state \<Rightarrow> 'c external_commit \<Rightarrow> ('a, 'e, 'o) operation \<Rightarrow>
    'c ext_entry list \<times> 'a \<Rightarrow> ('e external_apply_error, 'o apply_outcome) res \<Rightarrow> 'c ext_entry list \<times> 'a \<Rightarrow> bool" where
  "op_spec cod st cm opr s r s' \<longleftrightarrow>
     (\<exists>out receipt. appends st (cm, Operation, receipt) (fst s) (fst s') \<and>
        applies cod st cm opr (snd s) out receipt (snd s') \<and> (r = Ok (Applied out) \<or> is_err r)) \<or>
     s' = s \<and> (is_err r \<or> (\<exists>out receipt. r = Ok (Recovered out) \<and> (cm, Operation, receipt) \<in> set (fst s) \<and>
        xc_decode_receipt cod receipt = Some out))"

lemma ended_rep:
  assumes "ext_rep cod hist st (cn_db c)" and "entry_ok cod (st_max_bytes st) e" and "appends st e hist (hist @ [e])"
    and "committed_end cod hist st e app c c'"
  shows "ext_rep cod (hist @ [e]) (next_state cod e st) (cn_db c')" and "db_app (cn_db c') = app" and "idle c'"
  using appended_rep [of cod hist st "(cn_db c)\<lparr>db_app := app\<rparr>" e] assms
  by (simp_all add: committed_end_def appends_def idle_def ext_rep_app)

lemma reconcile_denied:
  "cn_auth c \<Longrightarrow> cn_txn c \<noteq> None \<Longrightarrow> \<exists>e s. reconcile_after_apply env cod failed (c, st) = (Err e, s)"
  by (auto simp: reconcile_after_apply_def is_autocommit_def roll_back_def sql_ok_def)

lemma reconcile_end:
  assumes cod: "ext_codec_ok cod" and rep: "ext_rep cod hist st' (cn_db c)" and fl: "\<not> failed \<Longrightarrow> st = st'"
    and auth: "cn_auth c \<longrightarrow> cn_txn c \<noteq> None"
  shows "(\<exists>e c' st2. reconcile_after_apply env cod failed (c, st) = (Err e, (c', st2)) \<and> cn_db c' = cn_db c \<and>
      \<not> (calm env \<and> \<not> cn_auth c)) \<or>
    (\<exists>c'. reconcile_after_apply env cod failed (c, st) = (Ok (), (c', st')) \<and> idle c' \<and> cn_db c' = cn_db c)"
proof -
  have keep: "cn_db (fst (snd (reconcile_after_apply env cod failed (c, st)))) = cn_db c"
    by (auto simp: reconcile_after_apply_def roll_back_def split: res.split prod.split)
  show ?thesis
  proof (cases "cn_auth c")
    case True
    then obtain e s where "reconcile_after_apply env cod failed (c, st) = (Err e, s)"
      using reconcile_denied auth by blast
    then show ?thesis using keep True by (cases s) auto
  next
    case False
    have "\<not> calm env" if "\<not> (quiet env c \<and> sql_ok env c SqRollback)"
      using that quiet_calm [OF _ False] by (auto simp: quiet_def)
    then show ?thesis
      using reconcile_spec [OF cod rep, of failed st env] fl keep False by (auto simp: idle_def)
  qed
qed

lemma in_transaction_spec:
  assumes "idle c" and body: "\<exists>r c'. m (c\<lparr>cn_txn := Some (cn_db c)\<rparr>) = (r, c') \<and> P r c'"
  shows "(\<exists>r c'. in_transaction f env m c = (r, drop_transaction env c') \<and> P r c') \<or>
    in_transaction f env m c = (Err (f Sqlite), c) \<and> \<not> calm env"
  using begin_cases [of c env] body quiet_calm [of env c] assms(1)
  by (fastforce simp: in_transaction_def act_simps idle_def)

lemma drop_ends:
  "committed_end cod hist st e app c c' \<Longrightarrow> committed_end cod hist st e app c (drop_transaction env c')"
  "unchanged_end c c' \<Longrightarrow> unchanged_end c (drop_transaction env c')"
  by (auto simp: committed_end_def unchanged_end_def drop_denied drop_transaction_def roll_back_def is_autocommit_def sql_ok_def)

end
