(* ===== verification/Ext_Apply_Props.thy ===== *)
theory Ext_Apply_Props
  imports Ext_State_Props
begin

text \<open>
  What one request to the external state machine does, for operations and for entries that only advance, with any
  failure of a statement or of the commit: the history of \<^verbatim>\<open>Ext_State_Props\<close> grows by the entry together with the
  effect of its operation, or nothing changes, and the answer does not lie about which.
\<close>

section \<open>Reconciling\<close>

lemma reconciled_spec:
  assumes cod: "ext_codec_ok cod" and m: "m (c, st) = (r, (c1, st1))" and r: "\<And>p. r \<noteq> Panic p"
    and rep: "ext_rep cod hist stx (cn_db c1)" and st1: "\<not> is_err r \<Longrightarrow> st1 = stx"
    and auth: "cn_auth c1 \<longrightarrow> cn_txn c1 \<noteq> None"
  shows "\<exists>r' p c' st'. reconciled f env cod m (c, st) = Ok (r', p, (c', st')) \<and> cn_db c' = cn_db c1 \<and>
    (p = None \<and> r' = r \<and> idle c' \<and> st' = stx \<or> p \<noteq> None \<and> is_err r' \<and> \<not> (calm env \<and> \<not> cn_auth c1))"
proof -
  have fl: "\<not> (case r of Err _ \<Rightarrow> True | _ \<Rightarrow> False) \<Longrightarrow> st1 = stx"
    using st1 by (cases r) (auto simp: is_err_def)
  from reconcile_end [OF cod rep _ auth, of "case r of Err _ \<Rightarrow> True | _ \<Rightarrow> False" st1 env] fl
  show ?thesis
    using m r by (cases r) (auto simp: reconciled_def is_err_def)
qed

lemma old_sequence:
  assumes "ext_rep cod hist st d" and "e \<in> set hist"
  shows "sequence (ent_commit e) < initial_sequence st + length hist"
proof -
  obtain i where "i < length hist" "e = hist ! i" using assms(2) by (auto simp: in_set_conv_nth)
  then show ?thesis using rep_nth(2) [OF assms(1), of i] by simp
qed

lemma operation_txn_cases:
  assumes cod: "ext_codec_ok cod" and rep: "ext_rep cod hist st (cn_db c)" and idle: "idle c" and cm: "commit_ok cm"
    and sq: "sequence cm = initial_sequence st + length hist" and keeps: "keeps_txn opr"
  obtains (comm) out receipt app r c' where "in_transaction Engine env (operation_body env cod st cm opr) c = (r, c')"
      "applies cod st cm opr (db_app (cn_db c)) out receipt app" "committed_end cod hist st (cm, Operation, receipt) app c c'"
      "r = Ok (out, xc_sha cod receipt) \<or> r = Err (Engine Sqlite) \<and> \<not> calm env"
  | (kept) x c' where "in_transaction Engine env (operation_body env cod st cm opr) c = (Err x, c')" "unchanged_end c c'"
      "calm env \<longrightarrow> \<not> cn_auth c'"
      "\<not> (calm env \<and> (\<exists>out receipt app. applies cod st cm opr (db_app (cn_db c)) out receipt app))"
proof -
  let ?new = "\<lambda>r c'. \<exists>out receipt app. applies cod st cm opr (db_app (cn_db c)) out receipt app \<and>
      committed_end cod hist st (cm, Operation, receipt) app c c' \<and>
      (r = Ok (out, xc_sha cod receipt) \<or> r = Err (Engine Sqlite) \<and> \<not> calm env)"
  let ?old = "\<lambda>r c'. (\<exists>x. r = Err x) \<and> unchanged_end c c' \<and> (calm env \<longrightarrow> \<not> cn_auth c') \<and>
      \<not> (calm env \<and> (\<exists>out receipt app. applies cod st cm opr (db_app (cn_db c)) out receipt app))"
  have auth: "\<not> cn_auth c" using idle by (simp add: idle_def)
  have eq: "committed_end cod hist st e app (c\<lparr>cn_txn := t\<rparr>) c' = committed_end cod hist st e app c c'"
      "unchanged_end (c\<lparr>cn_txn := t\<rparr>) c' = unchanged_end c c'" for e app t c'
    by (simp_all add: committed_end_def unchanged_end_def)
  have "\<exists>r c'. operation_body env cod st cm opr (c\<lparr>cn_txn := Some (cn_db c)\<rparr>) = (r, c') \<and> (?new r c' \<or> ?old r c')"
    using operation_body_spec [OF cod, of hist st "c\<lparr>cn_txn := Some (cn_db c)\<rparr>" cm opr env] rep cm sq keeps auth
    by (simp add: eq)
  from in_transaction_spec [where f = Engine and env = env and m = "operation_body env cod st cm opr", OF idle this]
  consider (new) r c' where "in_transaction Engine env (operation_body env cod st cm opr) c = (r, drop_transaction env c')" "?new r c'"
    | (old) r c' where "in_transaction Engine env (operation_body env cod st cm opr) c = (r, drop_transaction env c')" "?old r c'"
    | (none) "in_transaction Engine env (operation_body env cod st cm opr) c = (Err (Engine Sqlite), c)" "\<not> calm env"
    by blast
  then show thesis
  proof cases
    case new
    then show thesis using comm [OF new(1) _ drop_ends(1)] by blast
  next
    case old
    then show thesis using kept [OF _ drop_ends(2)] by auto
  next
    case none
    then show thesis using auth by (intro kept [OF none(1)]) (simp_all add: unchanged_end_def)
  qed
qed

text \<open>The state after an attempt: the database is that of a history again, whatever happened.\<close>

definition same_config :: "'c stored_state \<Rightarrow> 'c stored_state \<Rightarrow> bool" where
  "same_config st st' \<longleftrightarrow> st'\<lparr>last_applied := last_applied st, receipt_floor := receipt_floor st, st_snapshot_id := st_snapshot_id st\<rparr> = st"

definition attempt :: "('c, 'o) ext_codec \<Rightarrow> sql_env \<Rightarrow> 'c stored_state \<Rightarrow> ('x, 'r) res \<Rightarrow> 'a conn \<Rightarrow> 'c stored_state \<Rightarrow>
    'c ext_entry list \<Rightarrow> 'c stored_state \<Rightarrow> bool" where
  "attempt cod env st r c1 st1 hist' stx \<longleftrightarrow> (\<forall>p. r \<noteq> Panic p) \<and> ext_rep cod hist' stx (cn_db c1) \<and>
     (\<not> is_err r \<longrightarrow> st1 = stx) \<and> (cn_auth c1 \<longrightarrow> cn_txn c1 \<noteq> None) \<and> (calm env \<longrightarrow> \<not> cn_auth c1) \<and>
     same_config st stx"

lemma same_config_refl [simp]: "same_config st st"
  by (simp add: same_config_def)

lemma same_config_next [simp]: "same_config st (next_state cod e st)"
  by (simp add: same_config_def next_state_def update_state_after_commit_def split: prod.split)

lemma attempt_refused:
  assumes "ext_rep cod hist st (cn_db c)" and "idle c" and "\<And>p. r \<noteq> Panic p"
  shows "attempt cod env st r c st hist st"
  using assms by (simp add: attempt_def idle_def)

lemma apply_operation_new:
  fixes opr :: "('a, 'e, 'o) operation"
  assumes cod: "ext_codec_ok cod" and rep: "ext_rep cod hist st (cn_db c)" and idle: "idle c"
    and cm: "commit_ok cm" and keeps: "keeps_txn opr" and sq: "sequence cm = initial_sequence st + length hist"
  shows "\<exists>r c1 st1 hist' stx. apply_operation env cod cm opr (c, st) = (r, (c1, st1)) \<and> attempt cod env st r c1 st1 hist' stx \<and>
    op_spec cod st cm opr (hist, db_app (cn_db c)) r (hist', db_app (cn_db c1)) \<and>
    (calm env \<longrightarrow> (\<forall>out receipt app. applies cod st cm opr (db_app (cn_db c)) out receipt app \<longrightarrow> r = Ok (Applied out)))"
proof -
  have ap: "apply_operation env cod cm opr (c, st) =
      (case in_transaction Engine env (operation_body env cod st cm opr) c of
          (Err e, c') \<Rightarrow> (Err e, (c', st))
        | (Panic p, c') \<Rightarrow> (Panic p, (c', st))
        | (Ok (output, digest), c') \<Rightarrow>
            (Ok (Applied output), (c', update_state_after_commit cm Operation digest st)))"
    using classify_next [OF rep cm sq, of env c Operation] by (simp add: apply_operation_def)
  show ?thesis
  proof (cases rule: operation_txn_cases [OF cod rep idle cm sq keeps, where env = env, case_names comm kept])
    case (comm out receipt app r c')
    let ?e = "(cm, Operation, receipt)"
    have a: "appends st ?e hist (hist @ [?e])" using sq by (simp add: appends_def)
    note R = ended_rep [OF rep applies_entry_ok(1) [OF cod cm comm(2)] a comm(3)]
    have same: "out' = out" if "applies cod st cm opr (db_app (cn_db c)) out' receipt' app'" for out' receipt' app'
      using that comm(2) by (simp add: applies_def)
    have at: "attempt cod env st r' c' st1 (hist @ [?e]) (next_state cod ?e st)"
      if "\<And>p. r' \<noteq> Panic p" "\<not> is_err r' \<Longrightarrow> st1 = next_state cod ?e st"
      for r' :: "('e external_apply_error, 'o apply_outcome) res" and st1
      using R that by (simp add: attempt_def idle_def)
    have sp: "op_spec cod st cm opr (hist, db_app (cn_db c)) r' (hist @ [?e], db_app (cn_db c'))"
      if "r' = Ok (Applied out) \<or> is_err r'" for r'
      using that a comm(2) R(2) by (auto simp: op_spec_def)
    from comm(4) show ?thesis
    proof
      assume r: "r = Ok (out, xc_sha cod receipt)"
      then have "apply_operation env cod cm opr (c, st) = (Ok (Applied out), (c', next_state cod ?e st))"
        using ap comm(1) by (simp add: next_state_def)
      then show ?thesis using at [of "Ok (Applied out)"] sp [of "Ok (Applied out)"] same by blast
    next
      assume r: "r = Err (Engine Sqlite) \<and> \<not> calm env"
      then have "apply_operation env cod cm opr (c, st) = (Err (Engine Sqlite), (c', st))" using ap comm(1) by simp
      then show ?thesis using at [of "Err (Engine Sqlite)" st] sp [of "Err (Engine Sqlite)"] r by (auto simp: is_err_def)
    qed
  next
    case (kept x c')
    then have "attempt cod env st (Err x :: ('e external_apply_error, 'o apply_outcome) res) c' st hist st"
      using rep by (simp add: attempt_def is_err_def unchanged_end_def)
    then show ?thesis using ap kept by (auto simp: op_spec_def is_err_def unchanged_end_def)
  qed
qed

lemma apply_operation_spec:
  fixes opr :: "('a, 'e, 'o) operation"
  assumes cod: "ext_codec_ok cod" and rep: "ext_rep cod hist st (cn_db c)" and idle: "idle c"
    and cm: "commit_ok cm" and keeps: "keeps_txn opr"
  shows "\<exists>r c1 st1 hist' stx. apply_operation env cod cm opr (c, st) = (r, (c1, st1)) \<and> attempt cod env st r c1 st1 hist' stx \<and>
    op_spec cod st cm opr (hist, db_app (cn_db c)) r (hist', db_app (cn_db c1)) \<and>
    (calm env \<and> sequence cm = initial_sequence st + length hist \<longrightarrow>
       (\<forall>out receipt app. applies cod st cm opr (db_app (cn_db c)) out receipt app \<longrightarrow> r = Ok (Applied out)))"
proof -
  have rep': "ext_rep cod hist st (conn_db c)" using idle rep by (simp add: idle_db)
  show ?thesis
  proof (cases rule: classify_cases [OF cod rep' cm, where env = env and kind = Operation, case_names New Retry Refused])
    case (Retry e)
    then obtain receipt where e: "e = (cm, Operation, receipt)" by (cases e) (auto simp: entry_is_def)
    then have "entry_ok cod (st_max_bytes st) e" using Retry(2) ext_repD(2) [OF rep] by (auto simp: list_all_iff)
    then obtain out where out: "xc_decode_receipt cod receipt = Some out" using e by (auto simp: entry_ok_def)
    moreover have "apply_operation env cod cm opr (c, st) = (Ok (Recovered out), (c, st))"
      using Retry(1) out e by (simp add: apply_operation_def kind_codec_def entry_receipt_def)
    moreover have "sequence cm \<noteq> initial_sequence st + length hist"
      using old_sequence [OF rep Retry(2)] e by simp
    ultimately show ?thesis
      using attempt_refused [OF rep idle, of "Ok (Recovered out)" env] Retry(2) e by (auto simp: op_spec_def)
  next
    case (Refused e)
    then have "apply_operation env cod cm opr (c, st) = (Err (Engine e), (c, st))"
      by (simp add: apply_operation_def kind_codec_def)
    moreover have "sequence cm \<noteq> initial_sequence st + length hist"
      using classify_next [OF rep cm, of env c Operation "kind_codec cod Operation"] Refused by auto
    ultimately show ?thesis
      using attempt_refused [OF rep idle, of "Err (Engine e)" env] by (auto simp: op_spec_def is_err_def)
  next
    case New
    then show ?thesis using apply_operation_new [OF cod rep idle cm keeps New(2), of env] by blast
  qed
qed

text \<open>The same for an entry that only advances.\<close>

definition adv_spec :: "'c stored_state \<Rightarrow> 'c external_commit \<Rightarrow> 'c ext_entry list \<times> 'a \<Rightarrow>
    (ext_error, unit apply_outcome) res \<Rightarrow> 'c ext_entry list \<times> 'a \<Rightarrow> bool" where
  "adv_spec st cm s r s' \<longleftrightarrow>
     appends st (cm, Advance, []) (fst s) (fst s') \<and> snd s' = snd s \<and> (r = Ok (Applied ()) \<or> is_err r) \<or>
     s' = s \<and> (is_err r \<or> r = Ok (Recovered ()) \<and> (cm, Advance, []) \<in> set (fst s))"

lemma advance_txn_cases:
  assumes cod: "ext_codec_ok cod" and rep: "ext_rep cod hist st (cn_db c)" and idle: "idle c" and cm: "commit_ok cm"
    and sq: "sequence cm = initial_sequence st + length hist" and ser: "xc_ser cod (coordinate cm) \<noteq> None"
    and m: "m = athen (persist_new_commit env cod st cm Advance (kind_codec cod Advance) [] (xc_sha cod [])) (commit_transaction env)"
  obtains (comm) r c' where "in_transaction (\<lambda>e. e) env m c = (r, c')" "r = Ok () \<or> r = Err Sqlite"
      "committed_end cod hist st (cm, Advance, []) (db_app (cn_db c)) c c'"
  | (kept) c' where "in_transaction (\<lambda>e. e) env m c = (Err Sqlite, c')" "unchanged_end c c'" "\<not> calm env"
proof -
  let ?e = "(cm, Advance, [])" and ?app = "db_app (cn_db c)" and ?c = "c\<lparr>cn_txn := Some (cn_db c)\<rparr>"
  have auth: "\<not> cn_auth c" using idle by (simp add: idle_def)
  have app: "(cn_db c)\<lparr>db_app := ?app\<rparr> = cn_db c" by simp
  have e: "entry_ok cod (st_max_bytes st) ?e" using cm ser by (simp add: entry_ok_def)
  have "\<exists>r c'. m ?c = (r, c') \<and> (r = Ok () \<and> committed_end cod hist st ?e ?app c c' \<or>
      r = Err Sqlite \<and> (unchanged_end c c' \<and> \<not> calm env \<or> committed_end cod hist st ?e ?app c c'))"
    using body_commit [OF cod, of hist st ?c cm Advance "[]" ?app env] rep cm sq e auth
    by (auto simp: committed_end_def unchanged_end_def app m)
  from in_transaction_spec [where f = "\<lambda>e. e" and env = env and m = m, OF idle this]
  consider (done') r c' where "in_transaction (\<lambda>e. e) env m c = (r, c')" "r = Ok () \<or> r = Err Sqlite"
      "committed_end cod hist st ?e ?app c c'"
    | (not') c' where "in_transaction (\<lambda>e. e) env m c = (Err Sqlite, c')" "unchanged_end c c'" "\<not> calm env"
    using drop_ends auth by (fastforce simp: unchanged_end_def)
  then show thesis
  proof cases
    case done'
    then show thesis by (rule comm)
  next
    case not'
    then show thesis by (rule kept)
  qed
qed

lemma advance_unserializable:
  assumes idle: "idle c" and ser: "xc_ser cod (coordinate cm) = None"
    and m: "m = athen (persist_new_commit env cod st cm Advance (kind_codec cod Advance) [] (xc_sha cod [])) (commit_transaction env)"
  obtains x c' where "in_transaction (\<lambda>e. e) env m c = (Err x, c')" "cn_db c' = cn_db c" "\<not> cn_auth c'"
proof -
  have "m (c\<lparr>cn_txn := Some (cn_db c)\<rparr>) = (Err Serialization, c\<lparr>cn_txn := Some (cn_db c)\<rparr>)"
    unfolding m using ser by (rule persist_unserializable)
  then have "\<exists>x c'. in_transaction (\<lambda>e. e) env m c = (Err x, c') \<and> cn_db c' = cn_db c \<and> \<not> cn_auth c'"
    using begin_cases [of c env] idle by (auto simp: in_transaction_def act_simps idle_def)
  then show thesis using that by blast
qed

lemma apply_advance_new:
  fixes c :: "'a conn"
  assumes cod: "ext_codec_ok cod" and rep: "ext_rep cod hist st (cn_db c)" and idle: "idle c" and cm: "commit_ok cm"
    and sq: "sequence cm = initial_sequence st + length hist"
  shows "\<exists>r c1 st1 hist' stx. apply_advance env cod cm (c, st) = (r, (c1, st1)) \<and> attempt cod env st r c1 st1 hist' stx \<and>
    adv_spec st cm (hist, db_app (cn_db c)) r (hist', db_app (cn_db c1))"
proof -
  let ?e = "(cm, Advance, [])"
  define m :: "('a conn, ext_error, unit) act" where m: "m = athen (persist_new_commit env cod st cm Advance (kind_codec cod Advance) [] (xc_sha cod [])) (commit_transaction env)"
  have unit: "xc_unit cod = Some []" using cod by (simp add: ext_codec_ok_def)
  have ap: "apply_advance env cod cm (c, st) = (case in_transaction (\<lambda>e. e) env m c of
      (Err e, c') \<Rightarrow> (Err e, (c', st)) | (Panic p, c') \<Rightarrow> (Panic p, (c', st))
    | (Ok _, c') \<Rightarrow> (Ok (Applied ()), (c', next_state cod ?e st)))"
    using classify_next [OF rep cm sq, of env c Advance advance_receipt_codec] unit
    by (simp add: apply_advance_def serialize_def kind_codec_def next_state_def m split: prod.split res.split)
  have unchanged: ?thesis if "in_transaction (\<lambda>e. e) env m c = (Err x, c')" "unchanged_end c c'" "calm env \<longrightarrow> \<not> cn_auth c'" for x c'
    using ap rep that by (intro exI [of _ "Err x"] exI [of _ c'] exI [of _ st] exI [of _ hist])
      (auto simp: adv_spec_def attempt_def is_err_def unchanged_end_def)
  show ?thesis
  proof (cases "xc_ser cod (coordinate cm) = None")
    case True
    then obtain x c' where "in_transaction (\<lambda>e. e) env m c = (Err x, c')" "cn_db c' = cn_db c" "\<not> cn_auth c'"
      using advance_unserializable [OF idle True m] by blast
    then show ?thesis by (intro unchanged [of x c']) (auto simp: unchanged_end_def)
  next
    case ser: False
    show ?thesis
    proof (cases rule: advance_txn_cases [OF cod rep idle cm sq ser m, case_names comm kept])
      case (comm r c')
      have a: "appends st ?e hist (hist @ [?e])" using sq by (simp add: appends_def)
      have e: "entry_ok cod (st_max_bytes st) ?e" using cm ser by (simp add: entry_ok_def)
      show ?thesis
        using ap comm(1,2) ended_rep [OF rep e a comm(3)] a
        by (intro exI [of _ "fst (apply_advance env cod cm (c, st))"] exI [of _ c']
            exI [of _ "snd (snd (apply_advance env cod cm (c, st)))"] exI [of _ "hist @ [?e]"] exI [of _ "next_state cod ?e st"])
          (auto simp: adv_spec_def attempt_def is_err_def idle_def)
    next
      case (kept c')
      then show ?thesis by (intro unchanged [of Sqlite c']) auto
    qed
  qed
qed

lemma apply_advance_spec:
  assumes cod: "ext_codec_ok cod" and rep: "ext_rep cod hist st (cn_db c)" and idle: "idle c" and cm: "commit_ok cm"
  shows "\<exists>r c1 st1 hist' stx. apply_advance env cod cm (c, st) = (r, (c1, st1)) \<and> attempt cod env st r c1 st1 hist' stx \<and>
    adv_spec st cm (hist, db_app (cn_db c)) r (hist', db_app (cn_db c1))"
proof -
  have rep': "ext_rep cod hist st (conn_db c)" using idle rep by (simp add: idle_db)
  show ?thesis
  proof (cases rule: classify_cases [OF cod rep' cm, where env = env and kind = Advance, case_names New Retry Refused])
    case (Retry e)
    then obtain receipt where e: "e = (cm, Advance, receipt)" by (cases e) (auto simp: entry_is_def)
    then have "receipt = []" using Retry(2) ext_repD(2) [OF rep] by (auto simp: list_all_iff entry_ok_def)
    moreover have "apply_advance env cod cm (c, st) = (Ok (Recovered ()), (c, st))"
      using Retry(1) by (simp add: apply_advance_def kind_codec_def)
    ultimately show ?thesis
      using attempt_refused [OF rep idle, of "Ok (Recovered ())" env] Retry(2) e by (auto simp: adv_spec_def)
  next
    case (Refused e)
    then have "apply_advance env cod cm (c, st) = (Err e, (c, st))" by (simp add: apply_advance_def kind_codec_def)
    then show ?thesis
      using attempt_refused [OF rep idle, of "Err e" env] by (auto simp: adv_spec_def is_err_def)
  next
    case New
    then show ?thesis using apply_advance_new [OF cod rep idle cm New(2)] by blast
  qed
qed

lemma op_spec_err: "op_spec cod st cm opr s r s' \<Longrightarrow> is_err r' \<Longrightarrow> op_spec cod st cm opr s r' s'"
  by (auto simp: op_spec_def)

lemma adv_spec_err: "adv_spec st cm s r s' \<Longrightarrow> is_err r' \<Longrightarrow> adv_spec st cm s r' s'"
  by (auto simp: adv_spec_def)

text \<open>A request that has been served: the database is that of a history, and unless the writer is poisoned the
  connection is idle and the state in memory is the stored one.\<close>

definition served :: "('c, 'o) ext_codec \<Rightarrow> 'c stored_state \<Rightarrow> 'c ext_entry list \<Rightarrow> ext_error option \<Rightarrow> ('a, 'c) ext_st \<Rightarrow> bool" where
  "served cod st hist' p s \<longleftrightarrow> (\<exists>stx. ext_rep cod hist' stx (cn_db (fst s)) \<and> same_config st stx \<and>
     (p = None \<longrightarrow> idle (fst s) \<and> snd s = stx))"

lemma served_attempt:
  assumes cod: "ext_codec_ok cod" and m: "m (c, st) = (r, (c1, st1))" and at: "attempt cod env st r c1 st1 hist' stx"
  shows "\<exists>r' p c' st'. reconciled f env' cod m (c, st) = Ok (r', p, (c', st')) \<and> cn_db c' = cn_db c1 \<and>
    served cod st hist' p (c', st') \<and> (r' = r \<or> is_err r') \<and> (p \<noteq> None \<longrightarrow> is_err r') \<and> (p = None \<longrightarrow> r' = r) \<and>
    (calm env \<and> calm env' \<longrightarrow> p = None)"
proof -
  have A: "\<And>p. r \<noteq> Panic p" "ext_rep cod hist' stx (cn_db c1)" "\<not> is_err r \<Longrightarrow> st1 = stx" "cn_auth c1 \<longrightarrow> cn_txn c1 \<noteq> None"
    "calm env \<longrightarrow> \<not> cn_auth c1" "same_config st stx"
    using at by (simp_all add: attempt_def)
  obtain r' p c' st' where R: "reconciled f env' cod m (c, st) = Ok (r', p, (c', st'))" "cn_db c' = cn_db c1"
      "p = None \<and> r' = r \<and> idle c' \<and> st' = stx \<or> p \<noteq> None \<and> is_err r' \<and> \<not> (calm env' \<and> \<not> cn_auth c1)"
    using reconciled_spec [where m = m, OF cod m A(1-4), of f env'] by blast
  then have "served cod st hist' p (c', st')" using A by (auto simp: served_def)
  then show ?thesis using R A(5) by (intro exI [of _ r'] exI [of _ p] exI [of _ c'] exI [of _ st']) auto
qed

lemma apply_committed_spec:
  assumes cod: "ext_codec_ok cod" and rep: "ext_rep cod hist st (cn_db c)" and idle: "idle c"
    and cm: "commit_ok cm" and keeps: "keeps_txn opr"
  shows "\<exists>r p c' st' hist'. apply_committed env env' cod cm opr (c, st) = Ok (r, p, (c', st')) \<and>
    served cod st hist' p (c', st') \<and> op_spec cod st cm opr (hist, db_app (cn_db c)) r (hist', db_app (cn_db c')) \<and>
    (p \<noteq> None \<longrightarrow> is_err r) \<and>
    (calm env \<and> calm env' \<longrightarrow> p = None \<and> (sequence cm = initial_sequence st + length hist \<longrightarrow>
       (\<forall>out receipt app. applies cod st cm opr (db_app (cn_db c)) out receipt app \<longrightarrow> r = Ok (Applied out))))"
proof -
  obtain r c1 st1 hist' stx where a: "apply_operation env cod cm opr (c, st) = (r, (c1, st1))" "attempt cod env st r c1 st1 hist' stx"
      "op_spec cod st cm opr (hist, db_app (cn_db c)) r (hist', db_app (cn_db c1))"
      "calm env \<and> sequence cm = initial_sequence st + length hist \<longrightarrow>
       (\<forall>out receipt app. applies cod st cm opr (db_app (cn_db c)) out receipt app \<longrightarrow> r = Ok (Applied out))"
    using apply_operation_spec [OF cod rep idle cm keeps, of env] by blast
  show ?thesis
    using served_attempt [where m = "apply_operation env cod cm opr", OF cod a(1,2), of Engine env'] a(3,4) op_spec_err [OF a(3)]
    by (fastforce simp: apply_committed_def)
qed

lemma advance_committed_spec:
  assumes cod: "ext_codec_ok cod" and rep: "ext_rep cod hist st (cn_db c)" and idle: "idle c" and cm: "commit_ok cm"
  shows "\<exists>r p c' st' hist'. advance_committed env env' cod cm (c, st) = Ok (r, p, (c', st')) \<and>
    served cod st hist' p (c', st') \<and> adv_spec st cm (hist, db_app (cn_db c)) r (hist', db_app (cn_db c')) \<and>
    (p \<noteq> None \<longrightarrow> is_err r)"
proof -
  obtain r c1 st1 hist' stx where a: "apply_advance env cod cm (c, st) = (r, (c1, st1))" "attempt cod env st r c1 st1 hist' stx"
      "adv_spec st cm (hist, db_app (cn_db c)) r (hist', db_app (cn_db c1))"
    using apply_advance_spec [OF cod rep idle cm, of env] by blast
  show ?thesis
    using served_attempt [where m = "apply_advance env cod cm", OF cod a(1,2), of "\<lambda>e. e" env'] a(3) adv_spec_err [OF a(3)]
    by (fastforce simp: advance_committed_def)
qed

section \<open>Retries\<close>

lemma same_config_simps:
  assumes "same_config st st'"
  shows "initial_sequence st' = initial_sequence st" and "receipt_retention st' = receipt_retention st"
    and "st_max_bytes st' = st_max_bytes st"
  using assms by (cases st; cases st'; simp add: same_config_def)+

lemma reconciled_kept:
  assumes "idle c" and "m (c, st) = (r, (c, st))" and "\<not> is_err r" and "\<And>p. r \<noteq> Panic p"
  shows "reconciled f env cod m (c, st) = Ok (r, None, (c, st))"
  using assms by (cases r) (auto simp: reconciled_def reconcile_after_apply_def is_autocommit_def idle_def is_err_def)

lemma reconciled_refused:
  assumes cod: "ext_codec_ok cod" and rep: "ext_rep cod hist st (cn_db c)" and idle: "idle c" and calm: "calm env"
    and m: "m (c, st) = (Err e, (c, st))"
  shows "reconciled f env cod m (c, st) = Ok (Err e, None, (c, st))"
proof -
  have "cn_txn c = None" "\<not> cn_auth c" using idle by (simp_all add: idle_def)
  moreover have "conn_db c = cn_db c" using idle by (rule idle_db)
  ultimately have "load_state env cod c = Ok st" "validate_receipts env cod c st = Ok ()"
    using load_state_rep [OF cod, of hist st c env] validate_receipts_rep [OF cod, of hist st c env] rep
      quiet_calm [OF calm, of c] by (auto simp: reads_def)
  then show ?thesis
    using m \<open>cn_txn c = None\<close> by (simp add: reconciled_def reconcile_after_apply_def is_autocommit_def)
qed

text \<open>What the state machine answers for a sequence it has passed, or does not expect yet.\<close>

definition old_answer :: "('c, 'o) ext_codec \<Rightarrow> 'c stored_state \<Rightarrow> 'c ext_entry list \<Rightarrow> 'c external_commit \<Rightarrow>
    ('e external_apply_error, 'o apply_outcome) res" where
  "old_answer cod st hist cm =
     (let next = initial_sequence st + length hist in
      if next < sequence cm then Err (Engine (SequenceGap next (sequence cm)))
      else if hist = [] then Err (Engine (SequenceBeforeInitial (initial_sequence st) (sequence cm)))
      else (case retained cod st hist (sequence cm) of
              None \<Rightarrow> Err (Engine (ReceiptUnavailable (sequence cm)))
            | Some e \<Rightarrow>
                if entry_is cm Operation e
                then (case xc_decode_receipt cod (snd (snd e)) of
                        Some out \<Rightarrow> Ok (Recovered out)
                      | None \<Rightarrow> Err (Engine Serialization))
                else Err (Engine (CommitConflict (sequence cm)))))"

lemma classify_gap:
  assumes rep: "ext_rep cod hist st d" and cm: "commit_ok cm" and sq: "initial_sequence st + length hist < sequence cm"
  shows "classify_commit env cod c st cm kind codec = Err (SequenceGap (initial_sequence st + length hist) (sequence cm))"
proof (cases "hist = []")
  case True
  then show ?thesis using rep_last(1) [OF rep] sq by (simp add: classify_commit_def)
next
  case False
  then have "Suc (sequence (ap_commit (entry_applied cod (last hist)))) = initial_sequence st + length hist"
    using rep_last(2) [OF rep] by simp
  moreover have "sequence cm \<le> u64_max" using cm by (simp add: commit_ok_def)
  ultimately show ?thesis
    using False rep_last(1) [OF rep] sq by (auto simp: classify_commit_def checked_next_def)
qed

lemma apply_operation_old:
  assumes cod: "ext_codec_ok cod" and rep: "ext_rep cod hist st (cn_db c)" and idle: "idle c" and cm: "commit_ok cm"
    and calm: "calm env" and sq: "sequence cm \<noteq> initial_sequence st + length hist"
  shows "apply_operation env cod cm opr (c, st) = (old_answer cod st hist cm, (c, st))"
proof -
  have q: "quiet env c" using quiet_calm [OF calm, of c] idle by (simp add: idle_def)
  have rep': "ext_rep cod hist st (conn_db c)" using idle rep by (simp add: idle_db)
  have k: "kind_codec cod Operation = xc_receipt_codec cod" by (simp add: kind_codec_def)
  consider (gap) "initial_sequence st + length hist < sequence cm"
    | (before) "sequence cm < initial_sequence st + length hist" "hist = []"
    | (old) "sequence cm < initial_sequence st + length hist" "hist \<noteq> []" using sq by fastforce
  then show ?thesis
  proof cases
    case gap
    then show ?thesis using classify_gap [OF rep cm gap, of env c Operation] by (simp add: apply_operation_def old_answer_def)
  next
    case before
    then show ?thesis using rep_last(1) [OF rep] by (simp add: apply_operation_def old_answer_def classify_commit_def)
  next
    case old
    from classify_old [OF cod rep' old(2) cm old(1), of env Operation] q k
    show ?thesis
      using old by (auto simp: apply_operation_def old_answer_def reads_def entry_receipt_def Let_def
          split: option.splits if_splits prod.splits)
  qed
qed

lemma apply_committed_old:
  fixes opr :: "('a, 'e, 'o) operation"
  assumes cod: "ext_codec_ok cod" and rep: "ext_rep cod hist st (cn_db c)" and idle: "idle c" and cm: "commit_ok cm"
    and calm: "calm env" "calm env'" and sq: "sequence cm \<noteq> initial_sequence st + length hist"
  shows "apply_committed env env' cod cm opr (c, st) = Ok (old_answer cod st hist cm, None, (c, st))"
proof -
  note ap = apply_operation_old [OF cod rep idle cm calm(1) sq, of opr]
  show ?thesis
  proof (cases "old_answer cod st hist cm :: ('e external_apply_error, 'o apply_outcome) res")
    case (Ok a)
    then show ?thesis
      using reconciled_kept [where m = "apply_operation env cod cm opr", OF idle, of st "Ok a" Engine env' cod] ap
      by (simp add: apply_committed_def is_err_def)
  next
    case (Err e)
    then show ?thesis using reconciled_refused [where m = "apply_operation env cod cm opr", OF cod rep idle calm(2)] ap
      by (simp add: apply_committed_def)
  next
    case (Panic p)
    then show ?thesis by (auto simp: old_answer_def Let_def split: if_splits option.splits)
  qed
qed

lemma retained_last:
  assumes rep: "ext_rep cod (hist @ [e]) st d" and sq: "sequence (ent_commit e) = initial_sequence st + length hist"
  shows "retained cod st (hist @ [e]) (sequence (ent_commit e)) = Some e"
proof -
  have "Suc (length hist) - receipt_retention st \<le> length hist" using ext_repD(1) [OF rep] by (auto simp: config_ok_def)
  then show ?thesis using sq by (simp add: retained_def)
qed

lemma old_answer_last:
  assumes rep: "ext_rep cod (hist @ [(cm, Operation, receipt)]) st d" and sq: "sequence cm = initial_sequence st + length hist"
    and out: "xc_decode_receipt cod receipt = Some out"
  shows "old_answer cod st (hist @ [(cm, Operation, receipt)]) cm = Ok (Recovered out)"
  using retained_last [OF rep] sq out by (simp add: old_answer_def entry_is_def)

lemma applies_config: "same_config st st' \<Longrightarrow> applies cod st' cm opr = applies cod st cm opr"
  by (intro ext) (simp add: applies_def same_config_simps)

lemma applies_det:
  "applies cod st cm opr app out receipt app' \<Longrightarrow> applies cod st cm opr app out2 receipt2 app2 \<Longrightarrow>
   out2 = out \<and> receipt2 = receipt \<and> app2 = app'"
  by (auto simp: applies_def)

lemma exactly_once_retry:
  fixes opr :: "('a, 'e, 'o) operation"
  assumes cod: "ext_codec_ok cod" and idle: "idle c1" and cm: "commit_ok cm" and keeps: "keeps_txn opr"
    and calm: "calm env2" "calm env2'" and cfg: "same_config st st1"
    and sq: "sequence cm = initial_sequence st + length hist" and ap: "applies cod st cm opr app out receipt app'"
    and rep: "ext_rep cod hist1 st1 (cn_db c1)"
    and h: "hist1 = hist @ [(cm, Operation, receipt)] \<and> db_app (cn_db c1) = app' \<or> hist1 = hist \<and> db_app (cn_db c1) = app"
  shows "\<exists>o2 c2 st2. apply_committed env2 env2' cod cm opr (c1, st1) = Ok (Ok o2, None, (c2, st2)) \<and>
    (o2 = Applied out \<or> o2 = Recovered out) \<and> db_app (cn_db c2) = app' \<and>
    ext_rep cod (hist @ [(cm, Operation, receipt)]) st2 (cn_db c2)"
  using h
proof
  assume h: "hist1 = hist @ [(cm, Operation, receipt)] \<and> db_app (cn_db c1) = app'"
  have "xc_decode_receipt cod receipt = Some out" using applies_entry_ok(2) [OF cod cm ap] .
  then have "old_answer cod st1 hist1 cm = (Ok (Recovered out) :: ('e external_apply_error, 'o apply_outcome) res)"
    using old_answer_last [of cod hist cm receipt st1 "cn_db c1" out] h rep sq same_config_simps [OF cfg] by simp
  moreover have "sequence cm \<noteq> initial_sequence st1 + length hist1" using h sq same_config_simps [OF cfg] by simp
  ultimately show ?thesis using apply_committed_old [OF cod rep idle cm calm, of opr] h rep by auto
next
  assume h: "hist1 = hist \<and> db_app (cn_db c1) = app"
  have sq1: "sequence cm = initial_sequence st1 + length hist1" using h sq same_config_simps [OF cfg] by simp
  have ap1: "applies cod st1 cm opr (db_app (cn_db c1)) out receipt app'" using ap h applies_config [OF cfg] by metis
  obtain r p c' st' hist' where A: "apply_committed env2 env2' cod cm opr (c1, st1) = Ok (r, p, (c', st'))"
      "served cod st1 hist' p (c', st')" "op_spec cod st1 cm opr (hist1, db_app (cn_db c1)) r (hist', db_app (cn_db c'))"
      "p = None" "r = Ok (Applied out)"
    using apply_committed_spec [OF cod rep idle cm keeps, of env2 env2'] calm sq1 ap1 by blast
  from A(3,5) obtain receipt2 where
      "hist' = hist1 @ [(cm, Operation, receipt2)]" "applies cod st1 cm opr (db_app (cn_db c1)) out receipt2 (db_app (cn_db c'))"
    by (auto simp: op_spec_def appends_def is_err_def)
  moreover from this(2) have "receipt2 = receipt" "db_app (cn_db c') = app'" using applies_det [OF ap1] by blast+
  ultimately show ?thesis using A h by (auto simp: served_def)
qed

text \<open>C5. Whatever fails while a committed operation is applied for the first time - a statement, the authorizer, the
  commit in any of its ways, the reconciliation - a request that did not poison the writer can be repeated: the
  repetition succeeds, with the operation's output, and then the operation has taken effect exactly once and the
  history has its entry exactly once. A first answer that it was applied is true.\<close>

theorem ext_exactly_once:
  assumes cod: "ext_codec_ok cod" and rep: "ext_rep cod hist st (cn_db c)" and idle: "idle c"
    and cm: "commit_ok cm" and keeps: "keeps_txn opr" and sq: "sequence cm = initial_sequence st + length hist"
    and ap: "applies cod st cm opr (db_app (cn_db c)) out receipt app'" and calm: "calm env2" "calm env2'"
  shows "\<exists>r p c1 st1. apply_committed env env' cod cm opr (c, st) = Ok (r, p, (c1, st1)) \<and>
    (r = Ok (Applied out) \<or> is_err r) \<and> (p \<noteq> None \<longrightarrow> is_err r) \<and>
    (p = None \<longrightarrow> (\<exists>o2 c2 st2. apply_committed env2 env2' cod cm opr (c1, st1) = Ok (Ok o2, None, (c2, st2)) \<and>
       (o2 = Applied out \<or> o2 = Recovered out) \<and> db_app (cn_db c2) = app' \<and>
       ext_rep cod (hist @ [(cm, Operation, receipt)]) st2 (cn_db c2)))"
proof -
  obtain r p c1 st1 hist1 where A: "apply_committed env env' cod cm opr (c, st) = Ok (r, p, (c1, st1))"
      "served cod st hist1 p (c1, st1)" "op_spec cod st cm opr (hist, db_app (cn_db c)) r (hist1, db_app (cn_db c1))"
      "p \<noteq> None \<longrightarrow> is_err r"
    using apply_committed_spec [OF cod rep idle cm keeps, of env env'] by blast
  have new: "(cm, Operation, receipt2) \<notin> set hist" for receipt2 using old_sequence [OF rep] sq by force
  have h: "(r = Ok (Applied out) \<or> is_err r) \<and> (hist1 = hist @ [(cm, Operation, receipt)] \<and> db_app (cn_db c1) = app' \<or>
      hist1 = hist \<and> db_app (cn_db c1) = db_app (cn_db c))"
    using A(3) applies_det [OF ap] new by (auto simp: op_spec_def appends_def)
  have "\<exists>o2 c2 st2. apply_committed env2 env2' cod cm opr (c1, st1) = Ok (Ok o2, None, (c2, st2)) \<and>
       (o2 = Applied out \<or> o2 = Recovered out) \<and> db_app (cn_db c2) = app' \<and>
       ext_rep cod (hist @ [(cm, Operation, receipt)]) st2 (cn_db c2)" if "p = None"
    using that A(2) h exactly_once_retry [OF cod _ cm keeps calm _ sq ap, of c1 st1 hist1] by (auto simp: served_def)
  then show ?thesis using A(1,4) h by blast
qed


text \<open>C14. A request for a sequence other than the next one never runs its operation and changes nothing: an entry
  that was applied with the same commit and is still retained is answered with the output it had then, the same
  sequence with any other commit is a conflict, one below the retention window is unavailable and one beyond the
  next is a gap.\<close>

theorem ext_retry_answers:
  assumes "ext_codec_ok cod" and "ext_rep cod hist st (cn_db c)" and "idle c" and "commit_ok cm"
    and "calm env" and "calm env'" and "sequence cm \<noteq> initial_sequence st + length hist"
  shows "apply_committed env env' cod cm opr (c, st) = Ok (old_answer cod st hist cm, None, (c, st))"
  using assms by (rule apply_committed_old)

lemma sql_exec_autocommit:
  assumes "calm env" and "\<not> cn_auth c" and "cn_txn c = None" and "f (cn_db c) = Ok d"
  shows "sql_exec env opn f c = (Ok (), c\<lparr>cn_db := d\<rparr>)"
  using assms quiet_calm [OF assms(1,2)]
  by (simp add: sql_exec_def sql_query_def quiet_def conn_db_def put_db_def)

lemma persist_autocommit:
  assumes rep: "ext_rep cod hist st (cn_db c)" and e: "entry_ok cod (st_max_bytes st) (cm, kind, receipt)"
    and sq: "sequence cm = initial_sequence st + length hist" and calm: "calm env" and idle: "idle c"
  shows "persist_new_commit env cod st cm kind (kind_codec cod kind) receipt (xc_sha cod receipt) c =
    (Ok (), c\<lparr>cn_db := appended_db cod hist st (cm, kind, receipt) (cn_db c)\<rparr>)"
proof -
  obtain coord where coord: "xc_ser cod (coordinate cm) = Some coord" using e by (auto simp: entry_ok_def)
  have i: "\<not> cn_auth c" "cn_txn c = None" using idle by (simp_all add: idle_def)
  have row: "snd (entry_row cod (cm, kind, receipt)) =
      \<lparr>rr_coordinate = coord, rr_command_digest = command_digest cm, rr_kind = as_i64 kind,
        rr_state_schema = encode_u64 (state_schema cm), rr_receipt_schema = encode_u64 (receipt_schema cm),
        rr_codec = kind_codec cod kind, rr_receipt = receipt, rr_receipt_digest = xc_sha cod receipt\<rparr>"
    using coord by (simp add: entry_row_def)
  from persist_db [OF rep e sq coord] obtain d1 d2 where
      "insert_receipt (encode_u64 (sequence cm)) (snd (entry_row cod (cm, kind, receipt))) (cn_db c) = Ok d1"
      "update_meta (\<lambda>row. row\<lparr>
        mr_last_sequence := Some (encode_u64 (sequence cm)), mr_last_coordinate := Some coord,
        mr_last_command_digest := Some (command_digest cm), mr_last_kind := Some (as_i64 kind),
        mr_last_state_schema := Some (encode_u64 (state_schema cm)),
        mr_last_receipt_schema := Some (encode_u64 (receipt_schema cm)),
        mr_last_receipt_digest := Some (xc_sha cod receipt),
        mr_receipt_floor := Some (encode_u64 (retention_floor st (sequence cm)))\<rparr>) d1 = Ok d2"
      "delete_receipts (encode_u64 (retention_floor st (sequence cm))) d2 = Ok (appended_db cod hist st (cm, kind, receipt) (cn_db c))"
    by (auto simp: rbind_eq_Ok)
  then show ?thesis
    using i coord unfolding persist_new_commit_def row
    by (simp add: act_simps serialize_def Let_def sql_exec_autocommit [OF calm])
qed


text \<open>An operation that SQLite rolled back, but that returns a result: everything after it is written outside a
  transaction.\<close>

lemma rolled_back_body:
  assumes cod: "ext_codec_ok cod" and rep: "ext_rep cod hist st (cn_db c)" and auth: "\<not> cn_auth c" and cm: "commit_ok cm"
    and calm: "calm env" and sq: "sequence cm = initial_sequence st + length hist"
    and op: "opr (db_app (conn_db c)) = (Inr out, app', True)" and enc: "xc_encode_receipt cod out = Some receipt"
    and len: "length receipt \<le> st_max_bytes st" and ser: "xc_ser cod (coordinate cm) \<noteq> None"
  shows "operation_body env cod st cm opr c = (Err (Engine Sqlite),
    c\<lparr>cn_txn := None, cn_db := appended_db cod hist st (cm, Operation, receipt) ((cn_db c)\<lparr>db_app := app'\<rparr>)\<rparr>)"
proof -
  let ?e = "(cm, Operation, receipt)"
  let ?c = "c\<lparr>cn_txn := None, cn_db := (cn_db c)\<lparr>db_app := app'\<rparr>\<rparr>"
  have e: "entry_ok cod (st_max_bytes st) ?e"
    using cod cm enc len ser by (auto simp: entry_ok_def ext_codec_ok_def)
  have c: "c\<lparr>cn_txn := None, cn_db := (cn_db c)\<lparr>db_app := app'\<rparr>, cn_auth := False\<rparr> = ?c" using auth by simp
  have "persist_new_commit env cod st cm Operation (kind_codec cod Operation) receipt (xc_sha cod receipt) ?c =
      (Ok (), ?c\<lparr>cn_db := appended_db cod hist st ?e (cn_db ?c)\<rparr>)"
    by (rule persist_autocommit) (use rep e sq calm auth in \<open>simp_all add: ext_rep_app idle_def\<close>)
  moreover have "conn_db (c\<lparr>cn_auth := True\<rparr>) = conn_db c" by (simp add: conn_db_def split: option.split)
  then have "run_operation opr (c\<lparr>cn_auth := True\<rparr>) = (Inr out, ?c\<lparr>cn_auth := True\<rparr>)"
    using op by (simp add: run_operation_def)
  ultimately show ?thesis
    using calm enc len c
    by (simp add: operation_body_def act_simps map_err_def set_authorizer_def calm_def
        serialize_def kind_codec_def commit_transaction_def)
qed

text \<open>C40. An operation whose SQL made SQLite roll the transaction back, and that still returns a result, is answered
  with an error although its sequence is consumed: the checkpoint, its receipt and what the operation wrote after
  the rollback are in the database, each statement committed for itself, and the writer goes on.\<close>

theorem ext_rolled_back_consumes:
  assumes cod: "ext_codec_ok cod" and rep: "ext_rep cod hist st (cn_db c)" and idle: "idle c" and cm: "commit_ok cm"
    and calm: "calm env" "calm env'" and sq: "sequence cm = initial_sequence st + length hist"
    and op: "opr (db_app (cn_db c)) = (Inr out, app', True)" and enc: "xc_encode_receipt cod out = Some receipt"
    and len: "length receipt \<le> st_max_bytes st" and ser: "xc_ser cod (coordinate cm) \<noteq> None"
  shows "\<exists>c' st'. apply_committed env env' cod cm opr (c, st) = Ok (Err (Engine Sqlite), None, (c', st')) \<and>
    ext_rep cod (hist @ [(cm, Operation, receipt)]) st' (cn_db c') \<and> db_app (cn_db c') = app'"
proof -
  let ?e = "(cm, Operation, receipt)" and ?c = "c\<lparr>cn_txn := Some (cn_db c)\<rparr>"
  let ?d = "appended_db cod hist st ?e ((cn_db c)\<lparr>db_app := app'\<rparr>)"
  have i: "\<not> cn_auth c" "cn_txn c = None" using idle by (simp_all add: idle_def)
  have body: "operation_body env cod st cm opr ?c = (Err (Engine Sqlite), c\<lparr>cn_txn := None, cn_db := ?d\<rparr>)"
    using rolled_back_body [OF cod, of hist st ?c cm env opr out app' receipt] rep i cm calm(1) sq op enc len ser
    by (simp add: conn_db_def)
  have ap: "apply_operation env cod cm opr (c, st) = (Err (Engine Sqlite), (c\<lparr>cn_txn := None, cn_db := ?d\<rparr>, st))"
    using classify_next [OF rep cm sq, of env c Operation] body i quiet_calm [OF calm(1), of c]
    by (simp add: apply_operation_def in_transaction_def act_simps begin_immediate_def map_err_def is_autocommit_def
        quiet_def drop_transaction_def)
  have "entry_ok cod (st_max_bytes st) ?e" using cod cm enc len ser by (auto simp: entry_ok_def ext_codec_ok_def)
  then have rep': "ext_rep cod (hist @ [?e]) (next_state cod ?e st) ?d"
    using appended_rep [of cod hist st "(cn_db c)\<lparr>db_app := app'\<rparr>" ?e] rep sq by (simp add: ext_rep_app)
  show ?thesis
    using reconciled_spec [where m = "apply_operation env cod cm opr" and f = Engine and env = env', OF cod ap _ _ _ _] rep' i calm(2)
    by (fastforce simp: apply_committed_def is_err_def)
qed

section \<open>A concrete engine\<close>

text \<open>Coordinates and outputs that are their own encoding and a digest of 32 bytes, a state machine with no entry
  yet, and an operation that appends to the contents of the application and returns what it appended.\<close>

definition plain_codec :: "(bytes, bytes) ext_codec" where
  "plain_codec = \<lparr>xc_ser = Some, xc_de = (\<lambda>bs. Some (bs, length bs)), xc_unit = Some [], xc_encode_receipt = Some,
     xc_decode_receipt = Some, xc_receipt_codec = ''plain'', xc_sha = (\<lambda>bs. take 32 (bs @ replicate 32 0))\<rparr>"

definition plain_state :: "bytes stored_state" where
  "plain_state = \<lparr>application_id = ''app'', initial_sequence = 1, initial_state_schema = 1, receipt_codec = ''plain'',
     receipt_retention = 2, st_max_bytes = 16, last_applied = None, receipt_floor = None, st_snapshot_id = None\<rparr>"

definition plain_conn :: "bytes conn" where
  "plain_conn = \<lparr>cn_db = \<lparr>db_app = [], db_meta = Some (Some (state_row plain_codec plain_state)), db_receipts = Some []\<rparr>,
     cn_txn = None, cn_auth = False\<rparr>"

definition plain_commit :: "nat \<Rightarrow> bytes external_commit" where
  "plain_commit n = \<lparr>sequence = n, coordinate = [7], command_digest = replicate 32 1, state_schema = 1, receipt_schema = 1\<rparr>"

definition append_operation :: "bytes \<Rightarrow> (bytes, unit, bytes) operation" where
  "append_operation bs = (\<lambda>app. (Inr bs, app @ bs, False))"

definition calm_env :: sql_env where
  "calm_env = \<lparr>sql_fails = (\<lambda>_. False), sql_commit = CommitDone\<rparr>"

lemma plain_codec_ok: "ext_codec_ok plain_codec"
  by (auto simp: ext_codec_ok_def plain_codec_def min_def)

lemma plain_rep: "ext_rep plain_codec [] plain_state (cn_db plain_conn)"
  by (simp add: ext_rep_def plain_conn_def config_ok_def dense_from_def state_of_def kept_def plain_state_def plain_codec_def
      u64_max_def max_receipt_retention_def max_receipt_bytes_def)

lemma plain_idle: "idle plain_conn"
  by (simp add: idle_def plain_conn_def)

lemma plain_commit_ok: "n \<le> 5 \<Longrightarrow> commit_ok (plain_commit n)"
  by (simp add: commit_ok_def plain_commit_def u64_max_def)

lemma calm_calm_env: "calm calm_env"
  by (simp add: calm_def calm_env_def)

lemmas plain_ok = plain_codec_ok plain_rep plain_idle plain_commit_ok calm_calm_env

lemma keeps_append: "keeps_txn (append_operation bs)"
  by (simp add: keeps_txn_def append_operation_def)

lemma plain_applies:
  "applies plain_codec plain_state (plain_commit 1) (append_operation [1, 2]) (db_app (cn_db plain_conn)) [1, 2] [1, 2] [1, 2]"
  by (simp add: applies_def append_operation_def plain_conn_def plain_codec_def plain_state_def)

lemma plain_next: "sequence (plain_commit 1) = initial_sequence plain_state + length ([] :: bytes ext_entry list)"
  by (simp add: plain_commit_def plain_state_def)

text \<open>The commit is done but reported as failed.\<close>

theorem ext_exactly_once_witness:
  "\<exists>r p c1 st1. apply_committed (calm_env\<lparr>sql_commit := CommitUnreported\<rparr>) calm_env plain_codec (plain_commit 1)
      (append_operation [1, 2]) (plain_conn, plain_state) = Ok (r, p, (c1, st1)) \<and>
    (r = Ok (Applied [1, 2]) \<or> is_err r) \<and> (p \<noteq> None \<longrightarrow> is_err r) \<and>
    (p = None \<longrightarrow> (\<exists>o2 c2 st2. apply_committed calm_env calm_env plain_codec (plain_commit 1) (append_operation [1, 2]) (c1, st1)
         = Ok (Ok o2, None, (c2, st2)) \<and>
       (o2 = Applied [1, 2] \<or> o2 = Recovered [1, 2]) \<and> db_app (cn_db c2) = [1, 2] \<and>
       ext_rep plain_codec ([] @ [(plain_commit 1, Operation, [1, 2])]) st2 (cn_db c2)))"
  by (rule ext_exactly_once [OF plain_codec_ok plain_rep plain_idle _ keeps_append plain_next plain_applies
        calm_calm_env calm_calm_env]) (simp add: plain_commit_ok)

definition plain_entry :: "bytes ext_entry" where
  "plain_entry = (plain_commit 1, Operation, [1, 2])"

definition plain_conn1 :: "bytes conn" where
  "plain_conn1 = plain_conn\<lparr>cn_db := appended_db plain_codec [] plain_state plain_entry (cn_db plain_conn)\<rparr>"

lemma plain_rep1: "ext_rep plain_codec [plain_entry] (next_state plain_codec plain_entry plain_state) (cn_db plain_conn1)"
proof -
  have "entry_ok plain_codec (st_max_bytes plain_state) plain_entry"
    using plain_commit_ok [of 1] by (simp add: entry_ok_def plain_entry_def plain_codec_def plain_state_def)
  from appended_rep [OF plain_rep this] plain_next show ?thesis by (simp add: plain_conn1_def plain_entry_def)
qed

lemma plain_idle1: "idle plain_conn1"
  using plain_idle by (simp add: plain_conn1_def idle_def)

text \<open>A retry of the first entry is answered with its output, whatever the operation is now.\<close>

theorem ext_retry_answers_witness:
  "apply_committed calm_env calm_env plain_codec (plain_commit 1) (append_operation [3])
      (plain_conn1, next_state plain_codec plain_entry plain_state) =
     Ok (Ok (Recovered [1, 2]), None, (plain_conn1, next_state plain_codec plain_entry plain_state))"
  using ext_retry_answers [OF plain_codec_ok plain_rep1 plain_idle1 plain_commit_ok calm_calm_env calm_calm_env, of 1 "append_operation [3]"]
  by (simp add: plain_entry_def plain_commit_def plain_state_def old_answer_def retained_def entry_is_def plain_codec_def)

definition rolled_back_operation :: "bytes \<Rightarrow> (bytes, unit, bytes) operation" where
  "rolled_back_operation bs = (\<lambda>app. (Inr bs, app, True))"

theorem ext_rolled_back_consumes_witness:
  "\<exists>c' st'. apply_committed calm_env calm_env plain_codec (plain_commit 1) (rolled_back_operation [1, 2])
      (plain_conn, plain_state) = Ok (Err (Engine Sqlite), None, (c', st')) \<and>
    ext_rep plain_codec ([] @ [(plain_commit 1, Operation, [1, 2])]) st' (cn_db c') \<and> db_app (cn_db c') = []"
  by (rule ext_rolled_back_consumes [OF plain_codec_ok plain_rep plain_idle _ calm_calm_env calm_calm_env plain_next])
    (simp_all add: plain_commit_ok rolled_back_operation_def plain_conn_def plain_codec_def plain_state_def)

end
