(* ===== verification/Ext_Engine.thy ===== *)
theory Ext_Engine
  imports Ext_State
begin

text \<open>
  The engine of \<^verbatim>\<open>hiqlite/src/external_state_machine.rs\<close> around the tables of \<^verbatim>\<open>Ext_State\<close>: its options, the marker
  file that tells how the last owner of a database ended, snapshots and the evidence that goes with them, the
  opening of a database and the thread that serves the requests.

  The disk has the marker, the database while no engine has it open, the lock of its owner and the files of
  snapshots. The image of a database that SQLite's online backup writes is a parameter, \<open>image_codec\<close>; a file that
  is not an image opens as nothing. The environment \<open>io_env\<close> decides which system calls fail, how much of the
  marker a failed write leaves behind and what a failed restore leaves in the database.
\<close>

section \<open>Options\<close>

datatype external_durability = Full | Normal | ReplayableOff

definition text_bytes :: "string \<Rightarrow> bytes" where
  "text_bytes s = map (\<lambda>ch. of_nat (of_char ch)) s"

definition dirty_full :: bytes where "dirty_full = text_bytes (''active-full'' @ [CHR 0x0A])"
definition dirty_normal :: bytes where "dirty_normal = text_bytes (''active-normal'' @ [CHR 0x0A])"
definition dirty_off :: bytes where "dirty_off = text_bytes (''active-replayable-off'' @ [CHR 0x0A])"
definition dirty_poisoned :: bytes where "dirty_poisoned = text_bytes (''restore-in-progress'' @ [CHR 0x0A])"

fun dirty_marker :: "external_durability \<Rightarrow> bytes" where
  "dirty_marker Full = dirty_full"
| "dirty_marker Normal = dirty_normal"
| "dirty_marker ReplayableOff = dirty_off"

fun expected_pragma_value :: "external_durability \<Rightarrow> int" where
  "expected_pragma_value Full = 2"
| "expected_pragma_value Normal = 1"
| "expected_pragma_value ReplayableOff = 0"

text \<open>\<open>op_data_dir\<close> is \<^verbatim>\<open>data_dir.to_str()\<close>.\<close>

record ext_options =
  op_data_dir :: "string option"
  op_filename :: string
  op_application_id :: string
  op_initial_sequence :: nat
  op_initial_state_schema :: nat
  op_cache_capacity :: nat
  op_read_pool_size :: nat
  op_receipt_retention :: nat
  op_max_receipt_bytes :: nat
  op_durability :: external_durability

definition ext_options_new :: "string option \<Rightarrow> string \<Rightarrow> ext_options" where
  "ext_options_new dir app =
     \<lparr>op_data_dir = dir, op_filename = ''external.sqlite'', op_application_id = app, op_initial_sequence = 1,
      op_initial_state_schema = 1, op_cache_capacity = 128, op_read_pool_size = 4, op_receipt_retention = 1024,
      op_max_receipt_bytes = 64 * 1024, op_durability = Full\<rparr>"

text \<open>\<^verbatim>\<open>Path::components\<close>: repeated separators and \<^verbatim>\<open>.\<close> after the first component are dropped.\<close>

datatype path_component = RootDir | CurDir | ParentDir | NormalComp string

fun split_path :: "string \<Rightarrow> string \<Rightarrow> string list" where
  "split_path acc [] = [rev acc]"
| "split_path acc (ch # s) = (if ch = CHR ''/'' then rev acc # split_path [] s else split_path (ch # acc) s)"

definition component_of :: "string \<Rightarrow> path_component" where
  "component_of s = (if s = ''..'' then ParentDir else NormalComp s)"

definition path_components :: "string \<Rightarrow> path_component list" where
  "path_components s =
     (let parts = split_path [] s;
          first = (if starts_with s ''/'' then [RootDir] else if hd parts = ''.'' then [CurDir] else [])
      in first @ map component_of (filter (\<lambda>p. p \<noteq> [] \<and> p \<noteq> ''.'') parts))"

definition validate_options :: "ext_options \<Rightarrow> (ext_error, unit) res" where
  "validate_options o1 =
     (if op_data_dir o1 = None then Err (InvalidOptions ''data_dir must be valid UTF-8'')
      else if op_application_id o1 = [] \<or> 256 < length (op_application_id o1)
      then Err (InvalidOptions ''application_id must contain 1..=256 bytes'')
      else if (case path_components (op_filename o1) of [NormalComp _] \<Rightarrow> False | _ \<Rightarrow> True)
      then Err (InvalidOptions ''filename must be one non-empty path component'')
      else if \<not> (1 \<le> op_read_pool_size o1 \<and> op_read_pool_size o1 \<le> max_read_pool_size)
      then Err (InvalidOptions ''read_pool_size'')
      else if \<not> (1 \<le> op_receipt_retention o1 \<and> op_receipt_retention o1 \<le> max_receipt_retention)
      then Err (InvalidOptions ''receipt_retention'')
      else if \<not> (1 \<le> op_max_receipt_bytes o1 \<and> op_max_receipt_bytes o1 \<le> max_receipt_bytes)
      then Err (InvalidOptions ''max_receipt_bytes'')
      else if max_prepared_statements < op_cache_capacity o1
      then Err (InvalidOptions ''prepared_statement_cache_capacity'')
      else Ok ())"

definition validate_configuration :: "'c stored_state \<Rightarrow> ext_options \<Rightarrow> string \<Rightarrow> (ext_error, unit) res" where
  "validate_configuration st o1 codec =
     (let mismatches =
        (if application_id st \<noteq> op_application_id o1 then [''application_id''] else []) @
        (if initial_sequence st \<noteq> op_initial_sequence o1 then [''initial_sequence''] else []) @
        (if initial_state_schema st \<noteq> op_initial_state_schema o1 then [''initial_state_schema''] else []) @
        (if receipt_codec st \<noteq> codec then [''receipt_codec''] else []) @
        (if receipt_retention st \<noteq> op_receipt_retention o1 then [''receipt_retention''] else []) @
        (if st_max_bytes st \<noteq> op_max_receipt_bytes o1 then [''max_receipt_bytes''] else [])
      in if mismatches = [] then Ok () else Err (ConfigurationMismatch mismatches))"

section \<open>The disk\<close>

datatype snap_node = Regular bytes | NotRegular

record 'a disk =
  dk_locked :: bool
  dk_marker :: "bytes option"
  dk_db :: "'a db option"
  dk_snaps :: "string \<Rightarrow> snap_node option"

datatype io_op =
    IoDirs | IoAccess | IoOwner | IoLock | IoOwnerSync | IoMarkerStat | IoMarkerRead | IoMarkerOpen | IoMarkerWrite | IoMarkerSync
  | IoMarkerRemove | IoMarkerDir | IoRemoveFile string | IoPreflight | IoQuickCheck | IoNotOk | IoOpenDb
  | IoSynchronous | IoOpenPool
  | IoStat | IoReadFile | IoOpenFile | IoCheckFile | IoPageSize
  | IoRemoveOld | IoBackup | IoSyncTemp | IoRemoveFailed | IoLink | IoSyncLink | IoRemoveTemp | IoSyncDir
  | IoCopy | IoRename | IoRestore | IoCheckpoint | IoBusy | IoClose | IoSyncDb

record 'a io_env =
  io_fails :: "io_op \<Rightarrow> bool"
  io_written :: nat
  io_left :: "'a db"
  io_temp :: bytes
  io_sync :: int

record 'a image_codec =
  im_image :: "'a db \<Rightarrow> bytes"
  im_open :: "bytes \<Rightarrow> 'a db option"
  im_check :: "bytes \<Rightarrow> bool"
  im_page_size :: "bytes \<Rightarrow> nat"

definition io_step :: "'a io_env \<Rightarrow> io_op \<Rightarrow> ('s, ext_error, unit) act" where
  "io_step io opn = (if io_fails io opn then athrow XIo else aret ())"

definition write_dirty_marker :: "'a io_env \<Rightarrow> bytes \<Rightarrow> ('a disk, ext_error, unit) act" where
  "write_dirty_marker io state =
     athen (io_step io IoMarkerOpen) (
     athen (amod (\<lambda>dk. dk\<lparr>dk_marker := Some (if io_fails io IoMarkerWrite then take (io_written io) state else state)\<rparr>)) (
     athen (io_step io IoMarkerWrite) (athen (io_step io IoMarkerSync) (io_step io IoMarkerDir))))"

definition remove_dirty_marker :: "'a io_env \<Rightarrow> ('a disk, ext_error, unit) act" where
  "remove_dirty_marker io = (\<lambda>dk.
     if io_fails io IoMarkerRemove \<or> dk_marker dk = None then (Err XIo, dk)
     else io_step io IoMarkerDir (dk\<lparr>dk_marker := None\<rparr>))"

text \<open>\<^verbatim>\<open>remove_projection_files\<close>: the database is removed first, its side files after it.\<close>

fun remove_files :: "'a io_env \<Rightarrow> string list \<Rightarrow> ('a disk, ext_error, unit) act" where
  "remove_files io [] = io_step io IoSyncDir"
| "remove_files io (suffix # suffixes) =
     athen (io_step io (IoRemoveFile suffix)) (
     athen (amod (\<lambda>dk. if suffix = [] then dk\<lparr>dk_db := None\<rparr> else dk)) (remove_files io suffixes))"

definition remove_projection_files :: "'a io_env \<Rightarrow> ('a disk, ext_error, unit) act" where
  "remove_projection_files io = remove_files io [[], ''-wal'', ''-shm'', ''-journal'']"

section \<open>Snapshots\<close>

record 'c ext_evidence =
  ev_format_version :: nat
  ev_snapshot_format :: string
  ev_snapshot_id :: string
  ev_application_id :: string
  ev_initial_sequence :: nat
  ev_initial_state_schema :: nat
  ev_receipt_codec :: string
  ev_checkpoint :: "'c external_applied option"
  ev_receipt_floor :: "nat option"
  ev_receipt_retention :: nat
  ev_max_receipt_bytes :: nat
  ev_page_size :: nat
  ev_bytes :: nat
  ev_sha256 :: bytes

definition snapshot_evidence :: "'c stored_state \<Rightarrow> string \<Rightarrow> nat \<Rightarrow> nat \<Rightarrow> bytes \<Rightarrow> 'c ext_evidence" where
  "snapshot_evidence st sid page_size len sha =
     \<lparr>ev_format_version = external_format_version, ev_snapshot_format = external_sqlite_snapshot_format,
      ev_snapshot_id = sid, ev_application_id = application_id st, ev_initial_sequence = initial_sequence st,
      ev_initial_state_schema = initial_state_schema st, ev_receipt_codec = receipt_codec st,
      ev_checkpoint = last_applied st, ev_receipt_floor = receipt_floor st, ev_receipt_retention = receipt_retention st,
      ev_max_receipt_bytes = st_max_bytes st, ev_page_size = page_size, ev_bytes = len, ev_sha256 = sha\<rparr>"

definition persist_snapshot_id :: "sql_env \<Rightarrow> string \<Rightarrow> ('a conn, ext_error, unit) act" where
  "persist_snapshot_id env sid = sql_exec env SqSnapshotId (update_meta (\<lambda>row. row\<lparr>mr_snapshot_id := Some sid\<rparr>))"

text \<open>Removing a file and ignoring the result.\<close>

definition try_remove :: "'a io_env \<Rightarrow> io_op \<Rightarrow> string \<Rightarrow> 'a disk \<Rightarrow> 'a disk" where
  "try_remove io opn path dk = (if io_fails io opn then dk else dk\<lparr>dk_snaps := (dk_snaps dk)(path := None)\<rparr>)"

text \<open>The copy goes to a temporary name and is published with a hard link, which never replaces a file.\<close>

definition create_external_snapshot :: "'a io_env \<Rightarrow> 'a image_codec \<Rightarrow> 'a db \<Rightarrow> string \<Rightarrow> ('a disk, ext_error, unit) act" where
  "create_external_snapshot io im d path = (\<lambda>dk0.
     let temporary = path @ ''~'';
         dk1 = try_remove io IoRemoveOld temporary dk0;
         put = (\<lambda>bs. dk1\<lparr>dk_snaps := (dk_snaps dk1)(temporary \<mapsto> Regular bs)\<rparr>)
     in if io_fails io IoBackup then (Err Sqlite, try_remove io IoRemoveFailed temporary (put (io_temp io)))
        else
          let dk2 = put (im_image im d) in
          if io_fails io IoSyncTemp then (Err XIo, try_remove io IoRemoveFailed temporary dk2)
          else if dk_snaps dk2 path \<noteq> None
          then (Err (SnapshotDestinationExists path), try_remove io IoRemoveFailed temporary dk2)
          else if io_fails io IoLink then (Err XIo, try_remove io IoRemoveFailed temporary dk2)
          else
            let dk3 = dk2\<lparr>dk_snaps := (dk_snaps dk2)(path \<mapsto> Regular (im_image im d))\<rparr> in
            if io_fails io IoSyncLink \<or> io_fails io IoRemoveTemp then (Err XIo, dk3)
            else io_step io IoSyncDir (dk3\<lparr>dk_snaps := (dk_snaps dk3)(temporary := None)\<rparr>))"

definition inspect_snapshot :: "'a io_env \<Rightarrow> ('c, 'o) ext_codec \<Rightarrow> 'a image_codec \<Rightarrow> 'a disk \<Rightarrow> string \<Rightarrow>
    (ext_error, nat \<times> nat \<times> bytes) res" where
  "inspect_snapshot io cod im dk path = (case dk_snaps dk path of
     Some (Regular bs) \<Rightarrow>
       if io_fails io IoStat \<or> io_fails io IoReadFile then Err XIo
       else if io_fails io IoOpenFile \<or> im_open im bs = None then Err Sqlite
       else Ok (im_page_size im bs, length bs, xc_sha cod bs)
   | _ \<Rightarrow> Err XIo)"

text \<open>A connection that only reads a file.\<close>

definition read_conn :: "'a db \<Rightarrow> 'a conn" where
  "read_conn d = \<lparr>cn_db = d, cn_txn = None, cn_auth = False\<rparr>"

definition validate_snapshot_file :: "sql_env \<Rightarrow> 'a io_env \<Rightarrow> ('c, 'o) ext_codec \<Rightarrow> 'a image_codec \<Rightarrow> 'a disk \<Rightarrow> string \<Rightarrow>
    'c ext_evidence \<Rightarrow> (ext_error, unit) res" where
  "validate_snapshot_file env io cod im dk path ev =
     (if ev_format_version ev \<noteq> external_format_version then Err (UnsupportedFormat (ev_format_version ev))
      else if ev_snapshot_format ev \<noteq> external_sqlite_snapshot_format
      then Err (SnapshotMismatch ''unsupported SQLite snapshot format'')
      else if io_fails io IoStat then Err XIo
      else (case dk_snaps dk path of
        None \<Rightarrow> Err XIo
      | Some NotRegular \<Rightarrow> Err (SnapshotMismatch ''snapshot path is not a regular file'')
      | Some (Regular bs) \<Rightarrow>
          if length bs \<noteq> ev_bytes ev then Err (SnapshotMismatch ''file size differs from evidence'')
          else if io_fails io IoReadFile then Err XIo
          else if xc_sha cod bs \<noteq> ev_sha256 ev then Err (SnapshotMismatch ''file SHA-256 differs from evidence'')
          else if io_fails io IoOpenFile then Err Sqlite
          else (case im_open im bs of
            None \<Rightarrow> Err Sqlite
          | Some d \<Rightarrow>
              if io_fails io IoCheckFile then Err Sqlite
              else if \<not> im_check im bs then Err (SnapshotMismatch ''SQLite quick_check returned'')
              else if io_fails io IoPageSize then Err Sqlite
              else if im_page_size im bs \<noteq> ev_page_size ev
              then Err (SnapshotMismatch ''SQLite page size differs from evidence'')
              else
                rbind (load_state env cod (read_conn d)) (\<lambda>st.
                rbind (validate_receipts env cod (read_conn d) st) (\<lambda>_.
                if st_snapshot_id st \<noteq> Some (ev_snapshot_id ev)
                then Err (SnapshotMismatch ''embedded snapshot ID differs from evidence'')
                else if snapshot_evidence st (ev_snapshot_id ev) (ev_page_size ev) (ev_bytes ev) (ev_sha256 ev) \<noteq> ev
                then Err (SnapshotMismatch ''embedded metadata differs from evidence'')
                else Ok ())))))"

fun join_comma :: "string list \<Rightarrow> string" where
  "join_comma [] = []"
| "join_comma [s] = s"
| "join_comma (s # ss) = s @ '', '' @ join_comma ss"

definition validate_snapshot_compatibility :: "'c stored_state \<Rightarrow> 'c ext_evidence \<Rightarrow> (ext_error, unit) res" where
  "validate_snapshot_compatibility live ev =
     (if ev_format_version ev \<noteq> external_format_version then Err (UnsupportedFormat (ev_format_version ev))
      else if ev_snapshot_format ev \<noteq> external_sqlite_snapshot_format
      then Err (SnapshotMismatch ''unsupported SQLite snapshot format'')
      else
        let mismatches =
          (if ev_application_id ev \<noteq> application_id live then [''application_id''] else []) @
          (if ev_initial_sequence ev \<noteq> initial_sequence live then [''initial_sequence''] else []) @
          (if ev_initial_state_schema ev \<noteq> initial_state_schema live then [''initial_state_schema''] else []) @
          (if ev_receipt_codec ev \<noteq> receipt_codec live then [''receipt_codec''] else []) @
          (if ev_receipt_retention ev \<noteq> receipt_retention live then [''receipt_retention''] else []) @
          (if ev_max_receipt_bytes ev \<noteq> st_max_bytes live then [''max_receipt_bytes''] else [])
        in if mismatches = [] then Ok () else Err (SnapshotMismatch (''incompatible '' @ join_comma mismatches)))"

definition reject_stale_snapshot :: "'c external_applied option \<Rightarrow> 'c external_applied option \<Rightarrow> (ext_error, unit) res" where
  "reject_stale_snapshot live incoming = (case (live, incoming) of
     (Some _, None) \<Rightarrow> Err StaleSnapshot
   | (Some l, Some i) \<Rightarrow>
       if sequence (ap_commit i) < sequence (ap_commit l) then Err StaleSnapshot
       else if sequence (ap_commit i) = sequence (ap_commit l) \<and> i \<noteq> l then Err (CommitConflict (sequence (ap_commit i)))
       else Ok ()
   | _ \<Rightarrow> Ok ())"

section \<open>The writer\<close>

record ('a, 'c) writer =
  wr_conn :: "'a conn"
  wr_state :: "'c stored_state"
  wr_disk :: "'a disk"
  wr_marker :: bytes
  wr_poisoned :: "ext_error option"
  wr_running :: bool

text \<open>\<^verbatim>\<open>WriterRequest\<close>; its closures are those of \<^verbatim>\<open>apply_committed\<close> and \<^verbatim>\<open>advance_committed\<close>.\<close>

datatype ('a, 'c, 'e, 'o) writer_request =
    ReqApply "'c external_commit" "('a, 'e, 'o) operation"
  | ReqAdvance "'c external_commit"
  | ReqState
  | ReqSnapshot string string
  | ReqRestore string "'c ext_evidence"
  | ReqShutdown

datatype ('c, 'e, 'o) writer_answer =
    AckApply "('e external_apply_error, 'o apply_outcome) res"
  | AckAdvance "(ext_error, unit apply_outcome) res"
  | AckState "'c stored_state"
  | AckSnapshot "(ext_error, 'c stored_state) res"
  | AckRestore "(ext_error, 'c ext_evidence) res"
  | AckShutdown
  | AckClosed

text \<open>The environments of a request: of its statements, of those after them, and of its system calls likewise.\<close>

record 'a req_env =
  rq_env :: sql_env
  rq_env' :: sql_env
  rq_io :: "'a io_env"
  rq_io' :: "'a io_env"

definition poison :: "'a io_env \<Rightarrow> ext_error \<Rightarrow> ('a, 'c) writer \<Rightarrow> ('a, 'c) writer" where
  "poison io e w = w\<lparr>wr_disk := snd (write_dirty_marker io dirty_poisoned (wr_disk w)), wr_poisoned := Some e, wr_running := False\<rparr>"

text \<open>\<^verbatim>\<open>WriterRequest::Apply\<close>.\<close>

definition serve_apply :: "'a req_env \<Rightarrow>
    (('a, 'c) ext_st \<Rightarrow> (unit, 'r \<times> ext_error option \<times> ('a, 'c) ext_st) res) \<Rightarrow>
    ('a, 'c) writer \<Rightarrow> (unit, 'r \<times> ('a, 'c) writer) res" where
  "serve_apply rq thunk w =
     rbind (thunk (wr_conn w, wr_state w)) (\<lambda>(r, p, (c, st)).
       let w' = w\<lparr>wr_conn := c, wr_state := st\<rparr> in
       Ok (r, case p of Some e \<Rightarrow> poison (rq_io rq) e w' | None \<Rightarrow> w'))"

text \<open>\<^verbatim>\<open>WriterRequest::Snapshot\<close>.\<close>

definition serve_snapshot :: "'a req_env \<Rightarrow> 'a image_codec \<Rightarrow> string \<Rightarrow> string \<Rightarrow> ('a, 'c) writer \<Rightarrow>
    (ext_error, 'c stored_state) res \<times> ('a, 'c) writer" where
  "serve_snapshot rq im sid path w = (case persist_snapshot_id (rq_env rq) sid (wr_conn w) of
     (Err e, c) \<Rightarrow> (Err e, w\<lparr>wr_conn := c\<rparr>)
   | (Panic p, c) \<Rightarrow> (Panic p, w\<lparr>wr_conn := c\<rparr>)
   | (Ok _, c) \<Rightarrow>
       let st = (wr_state w)\<lparr>st_snapshot_id := Some sid\<rparr> in
       (case create_external_snapshot (rq_io rq) im (conn_db c) path (wr_disk w) of
          (r, dk) \<Rightarrow> (rbind r (\<lambda>_. Ok st), w\<lparr>wr_conn := c, wr_state := st, wr_disk := dk\<rparr>)))"

definition restore_snapshot :: "'a io_env \<Rightarrow> 'a image_codec \<Rightarrow> 'a disk \<Rightarrow> string \<Rightarrow> ('a conn, ext_error, unit) act" where
  "restore_snapshot io im dk path = (\<lambda>c.
     if io_fails io IoRestore then (Err Sqlite, c\<lparr>cn_db := io_left io\<rparr>)
     else (case dk_snaps dk path of
             Some (Regular bs) \<Rightarrow>
               (case im_open im bs of
                  Some d \<Rightarrow> (Ok (), c\<lparr>cn_db := d\<rparr>)
                | None \<Rightarrow> (Err Sqlite, c\<lparr>cn_db := io_left io\<rparr>))
           | _ \<Rightarrow> (Err Sqlite, c\<lparr>cn_db := io_left io\<rparr>)))"

text \<open>The part of a restore after the marker says that one is in progress.\<close>

definition restore_live :: "'a req_env \<Rightarrow> ('c, 'o) ext_codec \<Rightarrow> 'a image_codec \<Rightarrow> string \<Rightarrow> 'c ext_evidence \<Rightarrow>
    (('a, 'c) writer, ext_error, 'c ext_evidence) act" where
  "restore_live rq cod im path ev = (\<lambda>w.
     case restore_snapshot (rq_io rq) im (wr_disk w) path (wr_conn w) of
       (Err e, c) \<Rightarrow> (Err e, w\<lparr>wr_conn := c\<rparr>)
     | (Panic p, c) \<Rightarrow> (Panic p, w\<lparr>wr_conn := c\<rparr>)
     | (Ok _, c) \<Rightarrow>
         (let w1 = w\<lparr>wr_conn := c\<rparr> in
          case rbind (load_state (rq_env' rq) cod c) (\<lambda>st. rbind (validate_receipts (rq_env' rq) cod c st) (\<lambda>_. Ok st)) of
            Err e \<Rightarrow> (Err e, w1)
          | Panic p \<Rightarrow> (Panic p, w1)
          | Ok restored \<Rightarrow>
              if snapshot_evidence restored (ev_snapshot_id ev) (ev_page_size ev) (ev_bytes ev) (ev_sha256 ev) \<noteq> ev
              then (Err (SnapshotMismatch ''restored metadata differs from supplied evidence''), w1)
              else (case write_dirty_marker (rq_io' rq) (wr_marker w) (wr_disk w) of
                      (Err e, dk) \<Rightarrow> (Err e, w1\<lparr>wr_disk := dk\<rparr>)
                    | (Panic p, dk) \<Rightarrow> (Panic p, w1\<lparr>wr_disk := dk\<rparr>)
                    | (Ok _, dk) \<Rightarrow> (Ok ev, w1\<lparr>wr_disk := dk, wr_state := restored\<rparr>))))"

text \<open>\<^verbatim>\<open>WriterRequest::Restore\<close>.\<close>

definition serve_restore :: "'a req_env \<Rightarrow> ('c, 'o) ext_codec \<Rightarrow> 'a image_codec \<Rightarrow> string \<Rightarrow> 'c ext_evidence \<Rightarrow>
    ('a, 'c) writer \<Rightarrow> (unit, (ext_error, 'c ext_evidence) res \<times> ('a, 'c) writer) res" where
  "serve_restore rq cod im path ev w =
     (case rbind (validate_snapshot_compatibility (wr_state w) ev) (\<lambda>_.
           rbind (reject_stale_snapshot (last_applied (wr_state w)) (ev_checkpoint ev)) (\<lambda>_.
           validate_snapshot_file (rq_env rq) (rq_io rq) cod im (wr_disk w) path ev)) of
        Err e \<Rightarrow> Ok (Err e, w)
      | Panic p \<Rightarrow> Panic p
      | Ok _ \<Rightarrow>
          (case write_dirty_marker (rq_io rq) dirty_poisoned (wr_disk w) of
             (Err e, dk) \<Rightarrow> Ok (Err e, w\<lparr>wr_disk := dk\<rparr>)
           | (Panic p, dk) \<Rightarrow> Panic p
           | (Ok _, dk) \<Rightarrow>
               (case restore_live rq cod im path ev (w\<lparr>wr_disk := dk\<rparr>) of
                  (Ok ev', w') \<Rightarrow> Ok (Ok ev', w')
                | (Panic p, w') \<Rightarrow> Panic p
                | (Err e, w') \<Rightarrow>
                    Ok (Err (WriterPoisoned e), w'\<lparr>wr_poisoned := Some (WriterPoisoned e), wr_running := False\<rparr>))))"

text \<open>One round of the loop of \<^verbatim>\<open>spawn_external_writer\<close>. A writer that has left its loop answers nothing more.\<close>

definition writer_step :: "('c, 'o) ext_codec \<Rightarrow> 'a image_codec \<Rightarrow> 'a req_env \<times> ('a, 'c, 'e, 'o) writer_request \<Rightarrow>
    ('a, 'c) writer \<Rightarrow> (unit, ('c, 'e, 'o) writer_answer \<times> ('a, 'c) writer) res" where
  "writer_step cod im = (\<lambda>(rq, req) w.
     if \<not> wr_running w then Ok (AckClosed, w)
     else (case req of
       ReqApply commit opr \<Rightarrow>
         rbind (serve_apply rq (apply_committed (rq_env rq) (rq_env' rq) cod commit opr) w) (\<lambda>(r, w'). Ok (AckApply r, w'))
     | ReqAdvance commit \<Rightarrow>
         rbind (serve_apply rq (advance_committed (rq_env rq) (rq_env' rq) cod commit) w) (\<lambda>(r, w'). Ok (AckAdvance r, w'))
     | ReqState \<Rightarrow> Ok (AckState (wr_state w), w)
     | ReqSnapshot sid path \<Rightarrow> (case serve_snapshot rq im sid path w of (r, w') \<Rightarrow> Ok (AckSnapshot r, w'))
     | ReqRestore path ev \<Rightarrow> rbind (serve_restore rq cod im path ev w) (\<lambda>(r, w'). Ok (AckRestore r, w'))
     | ReqShutdown \<Rightarrow> Ok (AckShutdown, w\<lparr>wr_running := False\<rparr>)))"

definition finalize_projection :: "'a io_env \<Rightarrow> (ext_error, unit) res" where
  "finalize_projection io = (if io_fails io IoCheckpoint \<or> io_fails io IoBusy then Err Sqlite else Ok ())"

text \<open>The end of the thread: the database is closed, the marker removed if all went well, the lock released.\<close>

definition writer_exit :: "'a io_env \<Rightarrow> ('a, 'c) writer \<Rightarrow> (ext_error, unit) res \<times> 'a disk" where
  "writer_exit io w =
     (let durable_result = (if wr_poisoned w = None then finalize_projection io else Ok ());
          dk = (wr_disk w)\<lparr>dk_db := Some (cn_db (wr_conn w))\<rparr>;
          (r, dk') = (case wr_poisoned w of
              Some err \<Rightarrow> (Err err, dk)
            | None \<Rightarrow>
                (case durable_result of
                   Ok _ \<Rightarrow>
                     if io_fails io IoClose then (Err Sqlite, dk)
                     else if io_fails io IoSyncDb then (Err XIo, dk)
                     else remove_dirty_marker io dk
                 | e \<Rightarrow> (e, dk)))
      in (r, dk'\<lparr>dk_locked := False\<rparr>))"

section \<open>Opening\<close>

text \<open>Each statement of \<^verbatim>\<open>create_metadata_tables\<close> is committed for itself.\<close>

definition create_metadata_tables :: "sql_env \<Rightarrow> ext_options \<Rightarrow> string \<Rightarrow> ('a conn, ext_error, unit) act" where
  "create_metadata_tables env o1 codec =
     athen (sql_exec env SqCreateState (\<lambda>d. if db_meta d \<noteq> None then Err Sqlite else Ok (d\<lparr>db_meta := Some None\<rparr>)))
     (athen (sql_exec env SqCreateReceipts (\<lambda>d. if db_receipts d \<noteq> None then Err Sqlite else Ok (d\<lparr>db_receipts := Some []\<rparr>)))
     (sql_exec env SqInsertState (\<lambda>d. case db_meta d of
        Some None \<Rightarrow> Ok (d\<lparr>db_meta := Some (Some
          \<lparr>mr_format_version = int external_format_version, mr_application_id = op_application_id o1,
           mr_initial_sequence = encode_u64 (op_initial_sequence o1),
           mr_initial_state_schema = encode_u64 (op_initial_state_schema o1), mr_receipt_codec = codec,
           mr_receipt_retention = encode_u64 (op_receipt_retention o1),
           mr_max_receipt_bytes = encode_u64 (op_max_receipt_bytes o1),
           mr_last_sequence = None, mr_last_coordinate = None, mr_last_command_digest = None, mr_last_kind = None,
           mr_last_state_schema = None, mr_last_receipt_schema = None, mr_last_receipt_digest = None,
           mr_receipt_floor = None, mr_snapshot_id = None\<rparr>)\<rparr>)
      | _ \<Rightarrow> Err Sqlite)))"

fun requires_projection_rebuild :: "ext_error \<Rightarrow> bool" where
  "requires_projection_rebuild MissingMetadata = True"
| "requires_projection_rebuild (InvalidMetadata _) = True"
| "requires_projection_rebuild (UnsupportedFormat _) = True"
| "requires_projection_rebuild Serialization = True"
| "requires_projection_rebuild Sqlite = True"
| "requires_projection_rebuild _ = False"

text \<open>Which database is opened: the marker of the last owner decides whether it may be.\<close>

definition check_marker :: "'a io_env \<Rightarrow> bool \<Rightarrow> bool \<Rightarrow> ('a disk, ext_error, bool) act" where
  "check_marker io rebuild adopt = (\<lambda>dk.
     let dirty_existed = (dk_marker dk \<noteq> None);
         rebuild_required = (case dk_marker dk of None \<Rightarrow> False | Some bs \<Rightarrow> bs \<noteq> dirty_full \<and> bs \<noteq> dirty_normal)
     in if io_fails io IoMarkerStat then (Err XIo, dk)
        else if adopt \<and> dirty_existed then (Err (AdoptionNotAllowed ''an external dirty marker already exists''), dk)
        else if dirty_existed \<and> io_fails io IoMarkerRead then (Err XIo, dk)
        else if rebuild then
          (if \<not> rebuild_required then (Err (RebuildNotRequired ''dirty''), dk)
           else athen (remove_projection_files io) (aret dirty_existed) dk)
        else if rebuild_required then (Err (RebuildRequired ''dirty''), dk)
        else (Ok dirty_existed, dk))"

text \<open>The checks on a database that exists, before it is opened for writing.\<close>

definition preflight :: "sql_env \<Rightarrow> 'a io_env \<Rightarrow> ('c, 'o) ext_codec \<Rightarrow> ext_options \<Rightarrow> bool \<Rightarrow> 'a db \<Rightarrow> (ext_error, unit) res" where
  "preflight env io cod o1 adopt d =
     (if io_fails io IoPreflight then Err Sqlite
      else if adopt then
        rbind (metadata_table_exists env (read_conn d)) (\<lambda>b.
          if b then Err (AdoptionNotAllowed ''external metadata already exists'')
          else if io_fails io IoQuickCheck then Err Sqlite
          else if io_fails io IoNotOk then Err (AdoptionNotAllowed ''SQLite quick_check returned'')
          else Ok ())
      else
        rbind (require_metadata_table env (read_conn d)) (\<lambda>_.
        rbind (load_state env cod (read_conn d)) (\<lambda>st.
        rbind (validate_configuration st o1 (xc_receipt_codec cod)) (\<lambda>_.
        validate_receipts env cod (read_conn d) st))))"

text \<open>Setting up the connection for writing; what it has done to the database stays when a later step fails.\<close>

definition open_db :: "sql_env \<Rightarrow> 'a io_env \<Rightarrow> ('c, 'o) ext_codec \<Rightarrow> ext_options \<Rightarrow> bool \<Rightarrow> ('a conn, ext_error, 'c stored_state) act" where
  "open_db env io cod o1 create =
     athen (if io_fails io IoSynchronous then athrow Sqlite else aret ())
     (athen (if io_sync io \<noteq> expected_pragma_value (op_durability o1)
             then athrow (ConfigurationMismatch [''synchronous'']) else aret ())
     (athen (if create then create_metadata_tables env o1 (xc_receipt_codec cod)
             else (\<lambda>c. (require_metadata_table env c, c)))
     (\<lambda>c. (rbind (load_state env cod c) (\<lambda>st.
          rbind (validate_configuration st o1 (xc_receipt_codec cod)) (\<lambda>_.
          rbind (validate_receipts env cod c st) (\<lambda>_.
          if io_fails io IoOpenPool then Err Pool else Ok st))), c))))"

text \<open>Everything under the lock, from the marker on. \<open>fresh\<close> are the contents of a database that SQLite has just
  created. Where it fails, the guard \<^verbatim>\<open>InitLock\<close> removes the marker it has created, unless it is disarmed.\<close>

definition disarmed :: "'a io_env \<Rightarrow> bool \<Rightarrow> 'a disk \<Rightarrow> 'a disk" where
  "disarmed io armed dk = (if armed \<and> \<not> io_fails io IoMarkerRemove then dk\<lparr>dk_marker := None\<rparr> else dk)"

definition open_marked :: "sql_env \<Rightarrow> sql_env \<Rightarrow> 'a io_env \<Rightarrow> 'a io_env \<Rightarrow> ('c, 'o) ext_codec \<Rightarrow> 'a \<Rightarrow> ext_options \<Rightarrow> bool \<Rightarrow> bool \<Rightarrow>
    ('a disk, ext_error, 'a conn \<times> 'c stored_state) act" where
  "open_marked env env' io io' cod fresh o1 adopt armed = (\<lambda>dk.
     case write_dirty_marker io (dirty_marker (op_durability o1)) dk of
       (Err e, dk1) \<Rightarrow> (Err e, disarmed io armed dk1)
     | (Panic p, dk1) \<Rightarrow> (Panic p, disarmed io armed dk1)
     | (Ok _, dk1) \<Rightarrow>
         if adopt \<and> dk_db dk1 = None
         then (Err (AdoptionNotAllowed ''the managed SQLite database does not exist''), disarmed io armed dk1)
         else
           (case (case dk_db dk1 of None \<Rightarrow> Ok () | Some d \<Rightarrow> preflight env io cod o1 adopt d) of
              Panic p \<Rightarrow> (Panic p, disarmed io armed dk1)
            | Err e \<Rightarrow>
                if requires_projection_rebuild e then
                  (case write_dirty_marker io' dirty_poisoned dk1 of
                     (Err e', dk2) \<Rightarrow> (Err e', disarmed io armed dk2)
                   | (Panic p, dk2) \<Rightarrow> (Panic p, disarmed io armed dk2)
                   | (Ok _, dk2) \<Rightarrow> (Err e, dk2))
                else (Err e, disarmed io armed dk1)
            | Ok _ \<Rightarrow>
                if io_fails io IoOpenDb then (Err Setup, disarmed io armed dk1)
                else
                  let d = (case dk_db dk1 of Some d \<Rightarrow> d | None \<Rightarrow> \<lparr>db_app = fresh, db_meta = None, db_receipts = None\<rparr>)
                  in (case open_db env' io cod o1 (adopt \<or> dk_db dk1 = None) (read_conn d) of
                        (Ok st, c) \<Rightarrow> (Ok (c, st), dk1)
                      | (Err e, c) \<Rightarrow> (Err e, disarmed io armed (dk1\<lparr>dk_db := Some (cn_db c)\<rparr>))
                      | (Panic p, c) \<Rightarrow> (Panic p, disarmed io armed (dk1\<lparr>dk_db := Some (cn_db c)\<rparr>)))))"

definition open_inner :: "sql_env \<Rightarrow> sql_env \<Rightarrow> 'a io_env \<Rightarrow> 'a io_env \<Rightarrow> ('c, 'o) ext_codec \<Rightarrow> 'a \<Rightarrow> ext_options \<Rightarrow> bool \<Rightarrow> bool \<Rightarrow>
    ('a disk, ext_error, ('a, 'c) writer) act" where
  "open_inner env env' io io' cod fresh o1 rebuild adopt = (\<lambda>dk.
     case validate_options o1 of
       Err e \<Rightarrow> (Err e, dk)
     | Panic p \<Rightarrow> (Panic p, dk)
     | Ok _ \<Rightarrow>
         if io_fails io IoDirs then (Err XIo, dk)
         else if io_fails io IoAccess then (Err Setup, dk)
         else if io_fails io IoOwner then (Err XIo, dk)
         else if dk_locked dk then (Err (Locked ''owner.lock''), dk)
         else if io_fails io IoLock then (Err XIo, dk)
         else if io_fails io IoOwnerSync then (Err XIo, dk)
         else
           (case abind (check_marker io rebuild adopt) (\<lambda>dirty.
                   open_marked env env' io io' cod fresh o1 adopt (\<not> dirty)) dk of
              (Ok (c, st), dk') \<Rightarrow>
                (Ok \<lparr>wr_conn = c, wr_state = st, wr_disk = dk'\<lparr>dk_locked := True\<rparr>,
                     wr_marker = dirty_marker (op_durability o1), wr_poisoned = None, wr_running = True\<rparr>,
                 dk'\<lparr>dk_locked := True\<rparr>)
            | (Err e, dk') \<Rightarrow> (Err e, dk')
            | (Panic p, dk') \<Rightarrow> (Panic p, dk')))"

definition ext_open :: "sql_env \<Rightarrow> sql_env \<Rightarrow> 'a io_env \<Rightarrow> 'a io_env \<Rightarrow> ('c, 'o) ext_codec \<Rightarrow> 'a \<Rightarrow> ext_options \<Rightarrow>
    ('a disk, ext_error, ('a, 'c) writer) act" where
  "ext_open env env' io io' cod fresh o1 = open_inner env env' io io' cod fresh o1 False False"

definition rebuild_projection :: "sql_env \<Rightarrow> sql_env \<Rightarrow> 'a io_env \<Rightarrow> 'a io_env \<Rightarrow> ('c, 'o) ext_codec \<Rightarrow> 'a \<Rightarrow> ext_options \<Rightarrow>
    ('a disk, ext_error, ('a, 'c) writer) act" where
  "rebuild_projection env env' io io' cod fresh o1 = open_inner env env' io io' cod fresh o1 True False"

definition adopt_existing_projection :: "sql_env \<Rightarrow> sql_env \<Rightarrow> 'a io_env \<Rightarrow> 'a io_env \<Rightarrow> ('c, 'o) ext_codec \<Rightarrow> 'a \<Rightarrow> ext_options \<Rightarrow>
    ('a disk, ext_error, ('a, 'c) writer) act" where
  "adopt_existing_projection env env' io io' cod fresh o1 = open_inner env env' io io' cod fresh o1 False True"

section \<open>Building and installing snapshots\<close>

text \<open>The calls of the client with their request served in between, and no other request.\<close>

definition build_snapshot_at :: "'a req_env \<Rightarrow> ('c, 'o) ext_codec \<Rightarrow> 'a image_codec \<Rightarrow> string \<Rightarrow> string \<Rightarrow>
    (('a, 'c) writer, ext_error, 'c ext_evidence \<times> string) act" where
  "build_snapshot_at rq cod im sid path = (\<lambda>w.
     if io_fails (rq_io rq) IoStat then (Err XIo, w)
     else if dk_snaps (wr_disk w) path \<noteq> None then (Err (SnapshotDestinationExists path), w)
     else if \<not> wr_running w then (Err WriterClosed, w)
     else (case serve_snapshot rq im sid path w of
       (Err e, w') \<Rightarrow> (Err e, w')
     | (Panic p, w') \<Rightarrow> (Panic p, w')
     | (Ok st, w') \<Rightarrow>
         (rbind (inspect_snapshot (rq_io' rq) cod im (wr_disk w') path) (\<lambda>(page_size, len, sha).
            Ok (snapshot_evidence st sid page_size len sha, path)), w')))"

text \<open>Copying a snapshot under its own name into the directory of the engine; \<open>dest\<close> is that path.\<close>

definition stage_snapshot :: "'a req_env \<Rightarrow> ('c, 'o) ext_codec \<Rightarrow> 'a image_codec \<Rightarrow> string \<Rightarrow> string \<Rightarrow> 'c ext_evidence \<Rightarrow>
    ('a disk, ext_error, unit) act" where
  "stage_snapshot rq cod im dest path ev = (\<lambda>dk.
     if dest = path then (Ok (), dk)
     else if io_fails (rq_io rq) IoStat then (Err XIo, dk)
     else if dk_snaps dk dest \<noteq> None
     then (validate_snapshot_file (rq_env rq) (rq_io rq) cod im dk dest ev, dk)
     else
       let staging = dest @ ''.incoming'';
           dk1 = try_remove (rq_io rq) IoRemoveOld staging dk
       in (case dk_snaps dk1 path of
             Some (Regular bs) \<Rightarrow>
               if io_fails (rq_io rq) IoCopy
               then (Err XIo, dk1\<lparr>dk_snaps := (dk_snaps dk1)(staging \<mapsto> Regular (io_temp (rq_io rq)))\<rparr>)
               else
                 let dk2 = dk1\<lparr>dk_snaps := (dk_snaps dk1)(staging \<mapsto> Regular bs)\<rparr> in
                 if io_fails (rq_io rq) IoSyncTemp \<or> io_fails (rq_io rq) IoRename then (Err XIo, dk2)
                 else
                   let dk3 = dk2\<lparr>dk_snaps := (dk_snaps dk2)(staging := None, dest \<mapsto> Regular bs)\<rparr> in
                   if io_fails (rq_io rq) IoSyncLink then (Err XIo, dk3) else (Ok (), dk3)
           | _ \<Rightarrow> (Err XIo, dk1)))"

text \<open>\<open>parse_uuid\<close> gives the canonical text of an identifier; \<open>pool\<close> tells whether there is a pool of readers.\<close>

definition install_snapshot :: "'a req_env \<Rightarrow> 'a req_env \<Rightarrow> ('c, 'o) ext_codec \<Rightarrow> 'a image_codec \<Rightarrow> (string \<Rightarrow> string option) \<Rightarrow>
    string \<Rightarrow> 'c ext_evidence \<times> string \<Rightarrow> bool \<times> ('a, 'c) writer \<Rightarrow>
    (ext_error, 'c ext_evidence) res \<times> bool \<times> ('a, 'c) writer" where
  "install_snapshot rq rq' cod im parse_uuid snapshots_dir = (\<lambda>(ev, path) (pool, w).
     case validate_snapshot_file (rq_env rq) (rq_io rq) cod im (wr_disk w) path ev of
       Err e \<Rightarrow> (Err e, pool, w)
     | Panic p \<Rightarrow> (Panic p, pool, w)
     | Ok _ \<Rightarrow>
         (case parse_uuid (ev_snapshot_id ev) of
            None \<Rightarrow> (Err (SnapshotMismatch ''invalid UUID''), pool, w)
          | Some sid \<Rightarrow>
              let dest = snapshots_dir @ ''/'' @ sid in
              (case stage_snapshot rq cod im dest path ev (wr_disk w) of
                 (Err e, dk) \<Rightarrow> (Err e, pool, w\<lparr>wr_disk := dk\<rparr>)
               | (Panic p, dk) \<Rightarrow> (Panic p, pool, w\<lparr>wr_disk := dk\<rparr>)
               | (Ok _, dk) \<Rightarrow>
                   (case (if wr_running w then serve_restore rq' cod im dest ev (w\<lparr>wr_disk := dk\<rparr>)
                          else Ok (Err WriterClosed, w\<lparr>wr_disk := dk\<rparr>)) of
                      Panic p \<Rightarrow> (Err WriterStopped, False, w\<lparr>wr_disk := dk, wr_running := False\<rparr>)
                    | Err u \<Rightarrow> (Err WriterStopped, False, w\<lparr>wr_disk := dk, wr_running := False\<rparr>)
                    | Ok (r, w') \<Rightarrow>
                        if (case r of Err WriterClosed \<Rightarrow> True | Err WriterStopped \<Rightarrow> True | Err (WriterPoisoned _) \<Rightarrow> True | _ \<Rightarrow> False)
                        then (r, False, w')
                        else if io_fails (rq_io' rq') IoOpenPool then (Err Pool, False, w')
                        else (r, True, w')))))"

end
