(* ===== verification/Ext_Engine_Props.thy ===== *)
theory Ext_Engine_Props
  imports Ext_Apply_Props Ext_Engine Hql_Task
begin

text \<open>
  What the engine of the external state machine satisfies: any sequence of requests to its writer refines a machine
  that has only the history of committed entries and the contents of the application, a snapshot carries both to
  another writer, and a database is opened again only in a state that was committed. \<open>image_ok\<close> is what is assumed of
  SQLite's online backup: an image opens as the database it was made of and passes the check.
\<close>

section \<open>Reading a database\<close>

lemma read_conn_simps [simp]:
  "cn_db (read_conn d) = d" "cn_txn (read_conn d) = None" "cn_auth (read_conn d) = False" "conn_db (read_conn d) = d"
  by (simp_all add: read_conn_def conn_db_def)

lemma idle_read_conn [simp]: "idle (read_conn d)"
  by (simp add: idle_def)

lemma loads_idle:
  assumes "ext_codec_ok cod" and "ext_rep cod hist st (cn_db c)" and "idle c"
  shows "load_state env cod c = Ok st \<or> load_state env cod c = Err Sqlite \<and> \<not> calm env"
    and "validate_receipts env cod c st = Ok () \<or> validate_receipts env cod c st = Err Sqlite \<and> \<not> calm env"
proof -
  have "\<not> cn_auth c" "conn_db c = cn_db c" using assms(3) by (simp_all add: idle_def conn_db_def)
  then show "load_state env cod c = Ok st \<or> load_state env cod c = Err Sqlite \<and> \<not> calm env"
    and "validate_receipts env cod c st = Ok () \<or> validate_receipts env cod c st = Err Sqlite \<and> \<not> calm env"
    using load_state_rep [OF assms(1), of hist st c env] validate_receipts_rep [OF assms(1), of hist st c env] assms(2)
      quiet_calm [of env c] by (auto simp: reads_def)
qed

text \<open>The identifier of the last snapshot is not part of the history.\<close>

lemma ext_rep_snapshot_id:
  assumes "ext_rep cod hist st d"
  shows "ext_rep cod hist (st\<lparr>st_snapshot_id := i\<rparr>) (d\<lparr>db_meta := Some (Some ((state_row cod st)\<lparr>mr_snapshot_id := i\<rparr>))\<rparr>)"
  using assms by (simp add: ext_rep_def config_ok_def state_of_def kept_def state_row_def)

lemma persist_snapshot_id_spec:
  assumes rep: "ext_rep cod hist st (cn_db c)" and idle: "idle c"
  obtains (done') c' where "persist_snapshot_id env sid c = (Ok (), c')" "idle c'" "db_app (cn_db c') = db_app (cn_db c)"
      "ext_rep cod hist (st\<lparr>st_snapshot_id := Some sid\<rparr>) (cn_db c')"
  | (failed) "persist_snapshot_id env sid c = (Err Sqlite, c)" "\<not> calm env"
proof (cases "sql_ok env c SqSnapshotId")
  case True
  let ?d = "(cn_db c)\<lparr>db_meta := Some (Some ((state_row cod st)\<lparr>mr_snapshot_id := Some sid\<rparr>))\<rparr>"
  have i: "cn_txn c = None" "\<not> cn_auth c" using idle by (simp_all add: idle_def)
  have "persist_snapshot_id env sid c = (Ok (), c\<lparr>cn_db := ?d\<rparr>)"
    using True i ext_repD(5) [OF rep]
    by (simp add: persist_snapshot_id_def sql_exec_def sql_query_def update_meta_def put_db_def conn_db_def)
  then show thesis using ext_rep_snapshot_id [OF rep, of "Some sid"] i by (intro done' [of "c\<lparr>cn_db := ?d\<rparr>"]) (simp_all add: idle_def)
next
  case False
  then have "persist_snapshot_id env sid c = (Err Sqlite, c)" by (simp add: persist_snapshot_id_def sql_exec_def sql_query_def)
  moreover have "\<not> calm env" using False idle by (auto simp: calm_def sql_ok_def idle_def)
  ultimately show thesis by (rule failed)
qed

section \<open>The writer\<close>

definition image_ok :: "'a image_codec \<Rightarrow> bool" where
  "image_ok im \<longleftrightarrow> (\<forall>d. im_open im (im_image im d) = Some d \<and> im_check im (im_image im d))"

text \<open>Every file of a snapshot that opens as a database holds a history.\<close>

definition holds_history :: "('c, 'o) ext_codec \<Rightarrow> 'a image_codec \<Rightarrow> snap_node \<Rightarrow> bool" where
  "holds_history cod im node \<longleftrightarrow> (\<forall>bs d. node = Regular bs \<longrightarrow> im_open im bs = Some d \<longrightarrow> (\<exists>hist st. ext_rep cod hist st d))"

definition snaps_ok :: "('c, 'o) ext_codec \<Rightarrow> 'a image_codec \<Rightarrow> 'a disk \<Rightarrow> bool" where
  "snaps_ok cod im dk \<longleftrightarrow> (\<forall>path node. dk_snaps dk path = Some node \<longrightarrow> holds_history cod im node)"

lemma snaps_okD: "snaps_ok cod im dk \<Longrightarrow> dk_snaps dk path = Some (Regular bs) \<Longrightarrow> im_open im bs = Some d \<Longrightarrow>
    \<exists>hist st. ext_rep cod hist st d"
  unfolding snaps_ok_def holds_history_def by blast

definition writer_ok :: "('c, 'o) ext_codec \<Rightarrow> 'a image_codec \<Rightarrow> 'c stored_state \<Rightarrow> ('a, 'c) writer \<Rightarrow> bool" where
  "writer_ok cod im st0 w \<longleftrightarrow> ext_codec_ok cod \<and> image_ok im \<and> snaps_ok cod im (wr_disk w) \<and>
     (wr_running w \<longrightarrow> wr_poisoned w = None \<and> idle (wr_conn w) \<and> same_config st0 (wr_state w) \<and>
        (\<exists>hist. ext_rep cod hist (wr_state w) (cn_db (wr_conn w))))"

text \<open>The abstract machine: the history and the contents of the application, or nothing once the writer has stopped.\<close>

definition writer_rel :: "('c, 'o) ext_codec \<Rightarrow> ('a, 'c) writer \<Rightarrow> ('c ext_entry list \<times> 'a) option \<Rightarrow> bool" where
  "writer_rel cod w a = (case a of
     None \<Rightarrow> \<not> wr_running w
   | Some (hist, app) \<Rightarrow> wr_running w \<and> ext_rep cod hist (wr_state w) (cn_db (wr_conn w)) \<and> db_app (cn_db (wr_conn w)) = app)"

definition ext_accepts :: "'a image_codec \<Rightarrow> 'a req_env \<times> ('a, 'c, 'e, 'o) writer_request \<Rightarrow> bool" where
  "ext_accepts im m = (case snd m of
     ReqApply cm opr \<Rightarrow> commit_ok cm \<and> keeps_txn opr
   | ReqAdvance cm \<Rightarrow> commit_ok cm
   | ReqSnapshot sid path \<Rightarrow> im_open im (io_temp (rq_io (fst m))) = None
   | _ \<Rightarrow> True)"

text \<open>The checkpoint of a history, and that one history is not behind another.\<close>

definition checkpoint_of :: "('c, 'o) ext_codec \<Rightarrow> 'c ext_entry list \<Rightarrow> 'c external_applied option" where
  "checkpoint_of cod hist = (if hist = [] then None else Some (entry_applied cod (last hist)))"

definition not_behind :: "('c, 'o) ext_codec \<Rightarrow> 'c ext_entry list \<Rightarrow> 'c ext_entry list \<Rightarrow> bool" where
  "not_behind cod hist hist' \<longleftrightarrow> length hist < length hist' \<or>
     length hist' = length hist \<and> checkpoint_of cod hist' = checkpoint_of cod hist"

fun writer_spec :: "('c, 'o) ext_codec \<Rightarrow> 'c stored_state \<Rightarrow> 'a req_env \<times> ('a, 'c, 'e, 'o) writer_request \<Rightarrow>
    ('c ext_entry list \<times> 'a) option \<Rightarrow> ('c, 'e, 'o) writer_answer \<Rightarrow> ('c ext_entry list \<times> 'a) option \<Rightarrow> bool" where
  "writer_spec cod st0 m None r a' \<longleftrightarrow> r = AckClosed \<and> a' = None"
| "writer_spec cod st0 (rq, ReqApply cm opr) (Some s) ans a' \<longleftrightarrow>
     (\<exists>r s'. ans = AckApply r \<and> op_spec cod st0 cm opr s r s' \<and> (a' = Some s' \<or> a' = None \<and> is_err r))"
| "writer_spec cod st0 (rq, ReqAdvance cm) (Some s) ans a' \<longleftrightarrow>
     (\<exists>r s'. ans = AckAdvance r \<and> adv_spec st0 cm s r s' \<and> (a' = Some s' \<or> a' = None \<and> is_err r))"
| "writer_spec cod st0 (rq, ReqState) (Some s) ans a' \<longleftrightarrow>
     (\<exists>st. ans = AckState st \<and> same_config st0 st \<and> last_applied st = checkpoint_of cod (fst s)) \<and> a' = Some s"
| "writer_spec cod st0 (rq, ReqSnapshot sid path) (Some s) ans a' \<longleftrightarrow>
     (\<exists>r. ans = AckSnapshot r \<and> (is_err r \<or> (\<exists>st. r = Ok st \<and> same_config st0 st \<and>
        last_applied st = checkpoint_of cod (fst s) \<and> st_snapshot_id st = Some sid))) \<and> a' = Some s"
| "writer_spec cod st0 (rq, ReqRestore path ev) (Some s) ans a' \<longleftrightarrow>
     (\<exists>r. ans = AckRestore r \<and> (is_err r \<and> (a' = Some s \<or> a' = None) \<or>
        r = Ok ev \<and> (\<exists>s'. a' = Some s' \<and> not_behind cod (fst s) (fst s') \<and> checkpoint_of cod (fst s') = ev_checkpoint ev)))"
| "writer_spec cod st0 (rq, ReqShutdown) (Some s) ans a' \<longleftrightarrow> ans = AckShutdown \<and> a' = None"

lemma same_config_trans: "same_config st0 st \<Longrightarrow> same_config st st' \<Longrightarrow> same_config st0 st'"
  by (cases st0; cases st; cases st'; simp add: same_config_def)

lemma same_config_id [simp]: "same_config st0 (st\<lparr>st_snapshot_id := i\<rparr>) = same_config st0 st"
  by (cases st0; cases st; simp add: same_config_def)

lemma op_spec_config: "same_config st0 st \<Longrightarrow> op_spec cod st cm opr s r s' = op_spec cod st0 cm opr s r s'"
  by (simp add: op_spec_def appends_def same_config_simps applies_config)

lemma adv_spec_config: "same_config st0 st \<Longrightarrow> adv_spec st cm s r s' = adv_spec st0 cm s r s'"
  by (simp add: adv_spec_def appends_def same_config_simps)

lemma rep_checkpoint: "ext_rep cod hist st d \<Longrightarrow> last_applied st = checkpoint_of cod hist"
  by (drule ext_repD(4)) (simp add: state_of_def checkpoint_of_def)

lemma marker_keeps_snaps [simp]: "dk_snaps (snd (write_dirty_marker io bs dk)) = dk_snaps dk"
  by (simp add: write_dirty_marker_def io_step_def act_simps split: if_splits)

lemma snaps_ok_cong: "dk_snaps dk' = dk_snaps dk \<Longrightarrow> snaps_ok cod im dk' = snaps_ok cod im dk"
  by (simp add: snaps_ok_def)

lemma marker_no_panic: "fst (write_dirty_marker io bs dk) = Ok () \<or> fst (write_dirty_marker io bs dk) = Err XIo"
  by (simp add: write_dirty_marker_def io_step_def act_simps)

section \<open>Applying\<close>

lemma serve_apply_ok:
  assumes ok: "writer_ok cod im st0 w" and run: "wr_running w"
    and t: "thunk (wr_conn w, wr_state w) = Ok (r, p, (c', st'))" and served: "served cod (wr_state w) hist' p (c', st')"
  shows "\<exists>w'. serve_apply rq thunk w = Ok (r, w') \<and> writer_ok cod im st0 w' \<and>
    (p = None \<longrightarrow> writer_rel cod w' (Some (hist', db_app (cn_db c')))) \<and> (p \<noteq> None \<longrightarrow> writer_rel cod w' None)"
proof (cases p)
  case None
  then show ?thesis
    using ok run t served same_config_trans [of st0 "wr_state w" st']
    by (auto simp: serve_apply_def writer_ok_def writer_rel_def served_def)
next
  case (Some e)
  then show ?thesis
    using ok run t by (auto simp: serve_apply_def writer_ok_def writer_rel_def poison_def snaps_ok_def)
qed

lemma step_apply:
  assumes ok: "writer_ok cod im st0 w" and rel: "writer_rel cod w (Some (hist, app))" and cm: "commit_ok cm" and keeps: "keeps_txn opr"
  shows "\<exists>r w' a'. writer_step cod im (rq, ReqApply cm opr) w = Ok (AckApply r, w') \<and> writer_ok cod im st0 w' \<and>
    writer_rel cod w' a' \<and> writer_spec cod st0 (rq, ReqApply cm opr) (Some (hist, app)) (AckApply r) a'"
proof -
  have run: "wr_running w" and rep: "ext_rep cod hist (wr_state w) (cn_db (wr_conn w))" and app: "db_app (cn_db (wr_conn w)) = app"
    using rel by (simp_all add: writer_rel_def)
  have cod: "ext_codec_ok cod" and idle: "idle (wr_conn w)" and cfg: "same_config st0 (wr_state w)"
    using ok run by (simp_all add: writer_ok_def)
  obtain r p c' st' hist' where A: "apply_committed (rq_env rq) (rq_env' rq) cod cm opr (wr_conn w, wr_state w) = Ok (r, p, (c', st'))"
      "served cod (wr_state w) hist' p (c', st')" "op_spec cod (wr_state w) cm opr (hist, app) r (hist', db_app (cn_db c'))"
      "p \<noteq> None \<longrightarrow> is_err r"
    using apply_committed_spec [OF cod rep idle cm keeps, of "rq_env rq" "rq_env' rq"] app by blast
  obtain w' where w': "serve_apply rq (apply_committed (rq_env rq) (rq_env' rq) cod cm opr) w = Ok (r, w')" "writer_ok cod im st0 w'"
      "p = None \<longrightarrow> writer_rel cod w' (Some (hist', db_app (cn_db c')))" "p \<noteq> None \<longrightarrow> writer_rel cod w' None"
    using serve_apply_ok [where thunk = "apply_committed (rq_env rq) (rq_env' rq) cod cm opr", OF ok run A(1,2), of rq] by blast
  have "op_spec cod st0 cm opr (hist, app) r (hist', db_app (cn_db c'))" using A(3) op_spec_config [OF cfg] by blast
  then have "writer_spec cod st0 (rq, ReqApply cm opr) (Some (hist, app)) (AckApply r)
      (if p = None then Some (hist', db_app (cn_db c')) else None)"
    using A(4) by auto
  then show ?thesis using w' run by (auto simp: writer_step_def split: if_splits)
qed

lemma step_advance:
  assumes ok: "writer_ok cod im st0 w" and rel: "writer_rel cod w (Some (hist, app))" and cm: "commit_ok cm"
  shows "\<exists>r w' a'. writer_step cod im (rq, ReqAdvance cm) w = Ok (AckAdvance r, w') \<and> writer_ok cod im st0 w' \<and>
    writer_rel cod w' a' \<and> writer_spec cod st0 (rq, ReqAdvance cm) (Some (hist, app)) (AckAdvance r) a'"
proof -
  have run: "wr_running w" and rep: "ext_rep cod hist (wr_state w) (cn_db (wr_conn w))" and app: "db_app (cn_db (wr_conn w)) = app"
    using rel by (simp_all add: writer_rel_def)
  have cod: "ext_codec_ok cod" and idle: "idle (wr_conn w)" and cfg: "same_config st0 (wr_state w)"
    using ok run by (simp_all add: writer_ok_def)
  obtain r p c' st' hist' where A: "advance_committed (rq_env rq) (rq_env' rq) cod cm (wr_conn w, wr_state w) = Ok (r, p, (c', st'))"
      "served cod (wr_state w) hist' p (c', st')" "adv_spec (wr_state w) cm (hist, app) r (hist', db_app (cn_db c'))"
      "p \<noteq> None \<longrightarrow> is_err r"
    using advance_committed_spec [OF cod rep idle cm, of "rq_env rq" "rq_env' rq"] app by blast
  obtain w' where w': "serve_apply rq (advance_committed (rq_env rq) (rq_env' rq) cod cm) w = Ok (r, w')" "writer_ok cod im st0 w'"
      "p = None \<longrightarrow> writer_rel cod w' (Some (hist', db_app (cn_db c')))" "p \<noteq> None \<longrightarrow> writer_rel cod w' None"
    using serve_apply_ok [where thunk = "advance_committed (rq_env rq) (rq_env' rq) cod cm", OF ok run A(1,2), of rq] by blast
  have "adv_spec st0 cm (hist, app) r (hist', db_app (cn_db c'))" using A(3) adv_spec_config [OF cfg] by blast
  then have "writer_spec cod st0 (rq, ReqAdvance cm) (Some (hist, app)) (AckAdvance r)
      (if p = None then Some (hist', db_app (cn_db c')) else None)"
    using A(4) by auto
  then show ?thesis using w' run by (auto simp: writer_step_def split: if_splits)
qed

section \<open>Building a snapshot\<close>

lemma create_snapshot_ok:
  assumes im: "image_ok im" and snaps: "snaps_ok cod im dk" and rep: "ext_rep cod hist st d" and temp: "im_open im (io_temp io) = None"
    and c: "create_external_snapshot io im d path dk = (r, dk')"
  shows "snaps_ok cod im dk'" and "\<And>p. r \<noteq> Panic p"
proof -
  have "holds_history cod im (Regular (im_image im d))" "holds_history cod im (Regular (io_temp io))"
    using im rep temp by (auto simp: holds_history_def image_ok_def)
  then show "snaps_ok cod im dk'"
    using c snaps unfolding create_external_snapshot_def try_remove_def Let_def io_step_def act_simps
    by (auto simp: snaps_ok_def split: if_splits)
  show "\<And>p. r \<noteq> Panic p"
    using c unfolding create_external_snapshot_def Let_def io_step_def act_simps by (auto split: if_splits)
qed


lemma step_snapshot:
  assumes ok: "writer_ok cod im st0 w" and rel: "writer_rel cod w (Some (hist, app))" and temp: "im_open im (io_temp (rq_io rq)) = None"
  shows "\<exists>r w'. writer_step cod im (rq, ReqSnapshot sid path) w = Ok (AckSnapshot r, w') \<and> writer_ok cod im st0 w' \<and>
    writer_rel cod w' (Some (hist, app)) \<and> writer_spec cod st0 (rq, ReqSnapshot sid path) (Some (hist, app)) (AckSnapshot r) (Some (hist, app))"
proof -
  have run: "wr_running w" and rep: "ext_rep cod hist (wr_state w) (cn_db (wr_conn w))" and app: "db_app (cn_db (wr_conn w)) = app"
    using rel by (simp_all add: writer_rel_def)
  have cod: "ext_codec_ok cod" "image_ok im" "snaps_ok cod im (wr_disk w)" "wr_poisoned w = None"
      and idle: "idle (wr_conn w)" and cfg: "same_config st0 (wr_state w)"
    using ok run by (simp_all add: writer_ok_def)
  show ?thesis
  proof (cases rule: persist_snapshot_id_spec [OF rep idle, where env = "rq_env rq" and sid = sid, case_names Done Failed])
    case (Done c')
    let ?st = "(wr_state w)\<lparr>st_snapshot_id := Some sid\<rparr>"
    obtain r dk where c: "create_external_snapshot (rq_io rq) im (cn_db c') path (wr_disk w) = (r, dk)" by fastforce
    note s = create_snapshot_ok [OF cod(2,3) Done(4) temp c]
    have "last_applied (wr_state w) = checkpoint_of cod hist" using rep by (rule rep_checkpoint)
    moreover have "serve_snapshot rq im sid path w = (rbind r (\<lambda>_. Ok ?st), w\<lparr>wr_conn := c', wr_state := ?st, wr_disk := dk\<rparr>)"
      using Done(1,2) c by (simp add: serve_snapshot_def idle_db Let_def)
    ultimately show ?thesis
      using run Done cod cfg s app
      by (cases r) (auto simp: writer_step_def writer_ok_def writer_rel_def is_err_def)
  next
    case Failed
    then have "serve_snapshot rq im sid path w = (Err Sqlite, w)" by (simp add: serve_snapshot_def)
    then show ?thesis using run ok rel by (auto simp: writer_step_def is_err_def)
  qed
qed

section \<open>Restoring a snapshot\<close>

lemma validate_file_spec:
  assumes cod: "ext_codec_ok cod" and snaps: "snaps_ok cod im dk"
  shows "(\<exists>bs d hist st. validate_snapshot_file env io cod im dk path ev = Ok () \<and> dk_snaps dk path = Some (Regular bs) \<and>
      im_open im bs = Some d \<and> ext_rep cod hist st d \<and>
      snapshot_evidence st (ev_snapshot_id ev) (ev_page_size ev) (ev_bytes ev) (ev_sha256 ev) = ev) \<or>
    (\<exists>e. validate_snapshot_file env io cod im dk path ev = Err e \<and> (\<forall>p. e \<noteq> WriterPoisoned p))"
proof (cases "\<exists>bs d. dk_snaps dk path = Some (Regular bs) \<and> im_open im bs = Some d")
  case False
  then show ?thesis
    by (auto simp: validate_snapshot_file_def split: option.split snap_node.split)
next
  case True
  then obtain bs d where f: "dk_snaps dk path = Some (Regular bs)" "im_open im bs = Some d" by blast
  then obtain hist st where rep: "ext_rep cod hist st (cn_db (read_conn d))" using snaps_okD [OF snaps] by fastforce
  show ?thesis
  proof (cases "st_snapshot_id st = Some (ev_snapshot_id ev) \<and>
      snapshot_evidence st (ev_snapshot_id ev) (ev_page_size ev) (ev_bytes ev) (ev_sha256 ev) = ev")
    case True
    then have "\<exists>hist st. ext_rep cod hist st d \<and>
        snapshot_evidence st (ev_snapshot_id ev) (ev_page_size ev) (ev_bytes ev) (ev_sha256 ev) = ev"
      using rep by auto
    then show ?thesis
      using loads_idle [OF cod rep idle_read_conn, of env] f True by (auto simp: validate_snapshot_file_def)
  next
    case False
    then have "\<exists>e. validate_snapshot_file env io cod im dk path ev = Err e \<and> (\<forall>p. e \<noteq> WriterPoisoned p)"
      using loads_idle [OF cod rep idle_read_conn, of env] f
      by (cases "st_snapshot_id st = Some (ev_snapshot_id ev)") (auto simp: validate_snapshot_file_def)
    then show ?thesis by blast
  qed
qed

lemma marker_result:
  "write_dirty_marker io bs dk = (r, dk') \<Longrightarrow> (r = Ok () \<or> r = Err XIo) \<and> dk_snaps dk' = dk_snaps dk"
  using marker_no_panic [of io bs dk] marker_keeps_snaps [of io bs dk] by (cases r) auto

lemma same_configI:
  assumes "application_id st = application_id live" "initial_sequence st = initial_sequence live"
    "initial_state_schema st = initial_state_schema live" "receipt_codec st = receipt_codec live"
    "receipt_retention st = receipt_retention live" "st_max_bytes st = st_max_bytes live"
  shows "same_config live st"
  unfolding same_config_def by (rule stored_state.equality) (simp_all add: assms)

lemma compatible_fields:
  assumes "validate_snapshot_compatibility live ev = Ok ()"
  shows "ev_application_id ev = application_id live" "ev_initial_sequence ev = initial_sequence live"
    "ev_initial_state_schema ev = initial_state_schema live" "ev_receipt_codec ev = receipt_codec live"
    "ev_receipt_retention ev = receipt_retention live" "ev_max_receipt_bytes ev = st_max_bytes live"
  using assms by (auto simp: validate_snapshot_compatibility_def Let_def split: if_splits)

lemma compatible_config:
  assumes c: "validate_snapshot_compatibility live ev = Ok ()"
    and e: "snapshot_evidence st (ev_snapshot_id ev) (ev_page_size ev) (ev_bytes ev) (ev_sha256 ev) = ev"
  shows "same_config live st"
proof (rule same_configI)
  show "application_id st = application_id live" "initial_sequence st = initial_sequence live"
    "initial_state_schema st = initial_state_schema live" "receipt_codec st = receipt_codec live"
    "receipt_retention st = receipt_retention live" "st_max_bytes st = st_max_bytes live"
    unfolding compatible_fields [OF c, symmetric]
    using arg_cong [OF e, of ev_application_id] arg_cong [OF e, of ev_initial_sequence]
      arg_cong [OF e, of ev_initial_state_schema] arg_cong [OF e, of ev_receipt_codec]
      arg_cong [OF e, of ev_receipt_retention] arg_cong [OF e, of ev_max_receipt_bytes]
    by (simp_all add: snapshot_evidence_def)
qed

lemma fresh_not_behind:
  assumes rep: "ext_rep cod hist live d" and rep': "ext_rep cod hist' st d'" and cfg: "same_config live st"
    and fresh: "reject_stale_snapshot (last_applied live) (last_applied st) = Ok ()"
  shows "not_behind cod hist hist'"
proof (cases "hist = []")
  case True
  then show ?thesis by (cases hist') (auto simp: not_behind_def checkpoint_of_def)
next
  case False
  note l = rep_checkpoint [OF rep] rep_checkpoint [OF rep']
  have "hist' \<noteq> []" using fresh False l by (auto simp: reject_stale_snapshot_def checkpoint_of_def split: if_splits)
  moreover have "Suc (sequence (ap_commit (entry_applied cod (last hist)))) = initial_sequence live + length hist"
    using rep_last(2) [OF rep False] by simp
  moreover have "Suc (sequence (ap_commit (entry_applied cod (last hist')))) = initial_sequence live + length hist'"
    using rep_last(2) [OF rep'] \<open>hist' \<noteq> []\<close> same_config_simps(1) [OF cfg] by simp
  ultimately show ?thesis
    using fresh False l by (auto simp: reject_stale_snapshot_def checkpoint_of_def not_behind_def split: if_splits)
qed

text \<open>A restore whose file holds the history \<open>hist'\<close>: it is taken over, or the writer stops.\<close>

lemma restore_live_spec:
  assumes cod: "ext_codec_ok cod" and idle: "idle (wr_conn w)" and f: "dk_snaps (wr_disk w) path = Some (Regular bs)" "im_open im bs = Some d"
    and rep: "ext_rep cod hist' st d"
    and ev: "snapshot_evidence st (ev_snapshot_id ev) (ev_page_size ev) (ev_bytes ev) (ev_sha256 ev) = ev"
  shows "(\<exists>dk. restore_live rq cod im path ev w = (Ok ev, w\<lparr>wr_conn := (wr_conn w)\<lparr>cn_db := d\<rparr>, wr_disk := dk, wr_state := st\<rparr>) \<and>
      dk_snaps dk = dk_snaps (wr_disk w) \<and> dk_marker dk = Some (wr_marker w)) \<or>
    (\<exists>e w'. restore_live rq cod im path ev w = (Err e, w') \<and> dk_snaps (wr_disk w') = dk_snaps (wr_disk w) \<and>
      (wr_disk w' = wr_disk w \<or> cn_db (wr_conn w') = d) \<and>
      \<not> (calm (rq_env' rq) \<and> (\<forall>opn. \<not> io_fails (rq_io rq) opn) \<and> (\<forall>opn. \<not> io_fails (rq_io' rq) opn)))"
proof (cases "io_fails (rq_io rq) IoRestore")
  case True
  then have "restore_live rq cod im path ev w = (Err Sqlite, w\<lparr>wr_conn := (wr_conn w)\<lparr>cn_db := io_left (rq_io rq)\<rparr>\<rparr>)"
    by (simp add: restore_live_def restore_snapshot_def)
  then show ?thesis using True by auto
next
  case False
  let ?c = "(wr_conn w)\<lparr>cn_db := d\<rparr>"
  have idle': "idle ?c" and rep': "ext_rep cod hist' st (cn_db ?c)" using idle rep by (simp_all add: idle_def)
  have r: "restore_snapshot (rq_io rq) im (wr_disk w) path (wr_conn w) = (Ok (), ?c)"
    using False f by (simp add: restore_snapshot_def)
  obtain rr dk where mk: "write_dirty_marker (rq_io' rq) (wr_marker w) (wr_disk w) = (rr, dk)" by fastforce
  have m: "rr = Ok () \<and> dk_marker dk = Some (wr_marker w) \<or> rr = Err XIo \<and> (\<exists>opn. io_fails (rq_io' rq) opn)"
    using mk by (auto simp: write_dirty_marker_def io_step_def act_simps split: if_splits)
  show ?thesis
    using loads_idle [OF cod rep' idle', of "rq_env' rq"] ev m marker_result [OF mk]
    by (auto simp: restore_live_def r Let_def mk)
qed

definition unfailing :: "'a req_env \<Rightarrow> bool" where
  "unfailing rq \<longleftrightarrow> calm (rq_env rq) \<and> calm (rq_env' rq) \<and> (\<forall>opn. \<not> io_fails (rq_io rq) opn) \<and> (\<forall>opn. \<not> io_fails (rq_io' rq) opn)"

text \<open>The checks before a restore.\<close>

definition restore_checks :: "'a req_env \<Rightarrow> ('c, 'o) ext_codec \<Rightarrow> 'a image_codec \<Rightarrow> string \<Rightarrow> 'c ext_evidence \<Rightarrow> ('a, 'c) writer \<Rightarrow>
    (ext_error, unit) res" where
  "restore_checks rq cod im path ev w = rbind (validate_snapshot_compatibility (wr_state w) ev) (\<lambda>_.
           rbind (reject_stale_snapshot (last_applied (wr_state w)) (ev_checkpoint ev)) (\<lambda>_.
           validate_snapshot_file (rq_env rq) (rq_io rq) cod im (wr_disk w) path ev))"

lemma restore_checks_spec:
  assumes cod: "ext_codec_ok cod" and snaps: "snaps_ok cod im (wr_disk w)" and rep: "ext_rep cod hist (wr_state w) d0"
  obtains (passed) bs d hist' st where "restore_checks rq cod im path ev w = Ok ()"
      "dk_snaps (wr_disk w) path = Some (Regular bs)" "im_open im bs = Some d" "ext_rep cod hist' st d"
      "snapshot_evidence st (ev_snapshot_id ev) (ev_page_size ev) (ev_bytes ev) (ev_sha256 ev) = ev"
      "same_config (wr_state w) st" "not_behind cod hist hist'"
  | (refused) e where "restore_checks rq cod im path ev w = Err e" "\<And>p. e \<noteq> WriterPoisoned p"
proof -
  let ?cp = "validate_snapshot_compatibility (wr_state w) ev" and ?st = "reject_stale_snapshot (last_applied (wr_state w)) (ev_checkpoint ev)"
  let ?vf = "validate_snapshot_file (rq_env rq) (rq_io rq) cod im (wr_disk w) path ev"
  have cp: "?cp = Ok () \<or> (\<exists>e. ?cp = Err e \<and> (\<forall>p. e \<noteq> WriterPoisoned p))"
    by (simp add: validate_snapshot_compatibility_def Let_def)
  have st: "?st = Ok () \<or> (\<exists>e. ?st = Err e \<and> (\<forall>p. e \<noteq> WriterPoisoned p))"
    by (simp add: reject_stale_snapshot_def split: option.split)
  show thesis
  proof (cases "?cp = Ok () \<and> ?st = Ok () \<and> ?vf = Ok ()")
    case True
    then obtain bs d hist' st where f: "dk_snaps (wr_disk w) path = Some (Regular bs)" "im_open im bs = Some d"
        "ext_rep cod hist' st d" "snapshot_evidence st (ev_snapshot_id ev) (ev_page_size ev) (ev_bytes ev) (ev_sha256 ev) = ev"
      using validate_file_spec [OF cod snaps, of "rq_env rq" "rq_io rq" path ev] by auto
    have "ev_checkpoint ev = last_applied st" using arg_cong [OF f(4), of ev_checkpoint] by (simp add: snapshot_evidence_def)
    moreover have "same_config (wr_state w) st" using True f(4) by (intro compatible_config) auto
    ultimately show thesis
      using True passed f fresh_not_behind [OF rep f(3)] by (simp add: restore_checks_def)
  next
    case False
    then have "\<exists>e. restore_checks rq cod im path ev w = Err e \<and> (\<forall>p. e \<noteq> WriterPoisoned p)"
      using cp st validate_file_spec [OF cod snaps, of "rq_env rq" "rq_io rq" path ev] by (auto simp: restore_checks_def)
    then show thesis using refused by blast
  qed
qed

text \<open>A restore is refused without touching the database, takes over the history of the file, or stops the writer with a
  marker that forces a rebuild unless the database is that of the file.\<close>

lemma serve_restore_spec:
  assumes ok: "writer_ok cod im st0 w" and run: "wr_running w" and rep: "ext_rep cod hist (wr_state w) (cn_db (wr_conn w))"
  obtains (refused) e dk where "serve_restore rq cod im path ev w = Ok (Err e, w\<lparr>wr_disk := dk\<rparr>)" "dk_snaps dk = dk_snaps (wr_disk w)"
      "\<And>p. e \<noteq> WriterPoisoned p" "restore_checks rq cod im path ev w \<noteq> Ok () \<or> \<not> unfailing rq"
  | (taken) bs d hist' st dk where
      "serve_restore rq cod im path ev w = Ok (Ok ev, w\<lparr>wr_conn := (wr_conn w)\<lparr>cn_db := d\<rparr>, wr_disk := dk, wr_state := st\<rparr>)"
      "dk_snaps dk = dk_snaps (wr_disk w)" "dk_snaps (wr_disk w) path = Some (Regular bs)" "im_open im bs = Some d"
      "ext_rep cod hist' st d" "same_config (wr_state w) st" "not_behind cod hist hist'" "ev_checkpoint ev = checkpoint_of cod hist'"
  | (stopped) e w' bs d where "serve_restore rq cod im path ev w = Ok (Err (WriterPoisoned e), w')" "\<not> wr_running w'" "wr_poisoned w' = Some (WriterPoisoned e)"
      "dk_snaps (wr_disk w') = dk_snaps (wr_disk w)" "dk_snaps (wr_disk w) path = Some (Regular bs)" "im_open im bs = Some d"
      "dk_marker (wr_disk w') = Some dirty_poisoned \<or> cn_db (wr_conn w') = d" "\<not> unfailing rq"
proof -
  have cod: "ext_codec_ok cod" and snaps: "snaps_ok cod im (wr_disk w)" and idle: "idle (wr_conn w)"
    using ok run by (simp_all add: writer_ok_def)
  obtain mr dk where mk: "write_dirty_marker (rq_io rq) dirty_poisoned (wr_disk w) = (mr, dk)" by fastforce
  have m: "dk_snaps dk = dk_snaps (wr_disk w)" "mr = Ok () \<and> dk_marker dk = Some dirty_poisoned \<or> mr = Err XIo \<and> \<not> unfailing rq"
    using marker_result [OF mk] mk by (auto simp: write_dirty_marker_def io_step_def act_simps unfailing_def split: if_splits)
  have sr: "serve_restore rq cod im path ev w = (case restore_checks rq cod im path ev w of
      Err e \<Rightarrow> Ok (Err e, w) | Panic p \<Rightarrow> Panic p
    | Ok _ \<Rightarrow> (case mr of Err e \<Rightarrow> Ok (Err e, w\<lparr>wr_disk := dk\<rparr>) | Panic p \<Rightarrow> Panic p
        | Ok _ \<Rightarrow> (case restore_live rq cod im path ev (w\<lparr>wr_disk := dk\<rparr>) of
            (Ok ev', w') \<Rightarrow> Ok (Ok ev', w') | (Panic p, w') \<Rightarrow> Panic p
          | (Err e, w') \<Rightarrow> Ok (Err (WriterPoisoned e), w'\<lparr>wr_poisoned := Some (WriterPoisoned e), wr_running := False\<rparr>))))"
    by (simp add: serve_restore_def restore_checks_def mk split: res.split)
  show thesis
  proof (cases rule: restore_checks_spec [OF cod snaps rep, where rq = rq and path = path and ev = ev, case_names passed refused])
    case (refused e)
    then show thesis using that(1) [of e "wr_disk w"] sr by simp
  next
    case (passed bs d hist' st)
    have ckpt: "ev_checkpoint ev = checkpoint_of cod hist'"
      using arg_cong [OF passed(5), of ev_checkpoint] rep_checkpoint [OF passed(4)] by (simp add: snapshot_evidence_def)
    have idle': "idle (wr_conn (w\<lparr>wr_disk := dk\<rparr>))" "dk_snaps (wr_disk (w\<lparr>wr_disk := dk\<rparr>)) path = Some (Regular bs)"
      using idle passed(2) m(1) by simp_all
    note rl = restore_live_spec [OF cod idle' passed(3-5), of rq]
    show thesis
    proof (cases "mr = Ok ()")
      case False
      then show thesis using that(1) [of XIo dk] sr passed(1) m by auto
    next
      case True
      then have mr: "mr = Ok ()" "dk_marker dk = Some dirty_poisoned" using m(2) by auto
      from rl show thesis
      proof
        assume "\<exists>dk2. restore_live rq cod im path ev (w\<lparr>wr_disk := dk\<rparr>) =
          (Ok ev, (w\<lparr>wr_disk := dk\<rparr>)\<lparr>wr_conn := (wr_conn (w\<lparr>wr_disk := dk\<rparr>))\<lparr>cn_db := d\<rparr>, wr_disk := dk2, wr_state := st\<rparr>) \<and>
          dk_snaps dk2 = dk_snaps (wr_disk (w\<lparr>wr_disk := dk\<rparr>)) \<and> dk_marker dk2 = Some (wr_marker (w\<lparr>wr_disk := dk\<rparr>))"
        then show thesis
          using that(2) [where d = d and st = st and bs = bs and hist' = hist'] sr passed m(1) mr ckpt by auto
      next
        assume "\<exists>e w'. restore_live rq cod im path ev (w\<lparr>wr_disk := dk\<rparr>) = (Err e, w') \<and>
          dk_snaps (wr_disk w') = dk_snaps (wr_disk (w\<lparr>wr_disk := dk\<rparr>)) \<and>
          (wr_disk w' = wr_disk (w\<lparr>wr_disk := dk\<rparr>) \<or> cn_db (wr_conn w') = d) \<and>
          \<not> (calm (rq_env' rq) \<and> (\<forall>opn. \<not> io_fails (rq_io rq) opn) \<and> (\<forall>opn. \<not> io_fails (rq_io' rq) opn))"
        then obtain e w' where "restore_live rq cod im path ev (w\<lparr>wr_disk := dk\<rparr>) = (Err e, w')"
            "dk_snaps (wr_disk w') = dk_snaps dk" "dk_marker (wr_disk w') = Some dirty_poisoned \<or> cn_db (wr_conn w') = d" "\<not> unfailing rq"
          using mr(2) by (auto simp: unfailing_def)
        then show thesis
          using that(3) [of e "w'\<lparr>wr_poisoned := Some (WriterPoisoned e), wr_running := False\<rparr>" bs d] sr passed(1-3) m(1) mr by simp
      qed
    qed
  qed
qed

lemma step_restore:
  assumes ok: "writer_ok cod im st0 w" and rel: "writer_rel cod w (Some (hist, app))"
  shows "\<exists>r w' a'. writer_step cod im (rq, ReqRestore path ev) w = Ok (AckRestore r, w') \<and> writer_ok cod im st0 w' \<and>
    writer_rel cod w' a' \<and> writer_spec cod st0 (rq, ReqRestore path ev) (Some (hist, app)) (AckRestore r) a'"
proof -
  have run: "wr_running w" and rep: "ext_rep cod hist (wr_state w) (cn_db (wr_conn w))"
    using rel by (simp_all add: writer_rel_def)
  have O: "ext_codec_ok cod" "image_ok im" "snaps_ok cod im (wr_disk w)" "wr_poisoned w = None" "idle (wr_conn w)" "same_config st0 (wr_state w)"
    using ok run by (simp_all add: writer_ok_def)
  have step: "writer_step cod im (rq, ReqRestore path ev) w = rbind (serve_restore rq cod im path ev w) (\<lambda>(r, w'). Ok (AckRestore r, w'))"
    using run by (simp add: writer_step_def)
  show ?thesis
  proof (cases rule: serve_restore_spec [OF ok run rep, where rq = rq and path = path and ev = ev, case_names refused taken stopped])
    case (refused e dk)
    let ?w = "w\<lparr>wr_disk := dk\<rparr>"
    have "writer_ok cod im st0 ?w" "writer_rel cod ?w (Some (hist, app))"
      using O rep rel snaps_ok_cong [OF refused(2), of cod im] by (auto simp: writer_ok_def writer_rel_def)
    moreover have "writer_spec cod st0 (rq, ReqRestore path ev) (Some (hist, app)) (AckRestore (Err e)) (Some (hist, app))"
      by (simp add: is_err_def)
    moreover have "writer_step cod im (rq, ReqRestore path ev) w = Ok (AckRestore (Err e), ?w)" using step refused(1) by simp
    ultimately show ?thesis by blast
  next
    case (taken bs d hist' st dk)
    let ?w = "w\<lparr>wr_conn := (wr_conn w)\<lparr>cn_db := d\<rparr>, wr_disk := dk, wr_state := st\<rparr>"
    have "writer_ok cod im st0 ?w" "writer_rel cod ?w (Some (hist', db_app d))"
      using O taken run same_config_trans [OF O(6) taken(6)] snaps_ok_cong [OF taken(2), of cod im]
      by (auto simp: writer_ok_def writer_rel_def idle_def)
    moreover have "writer_spec cod st0 (rq, ReqRestore path ev) (Some (hist, app)) (AckRestore (Ok ev)) (Some (hist', db_app d))"
      using taken(7,8) by simp
    moreover have "writer_step cod im (rq, ReqRestore path ev) w = Ok (AckRestore (Ok ev), ?w)" using step taken(1) by simp
    ultimately show ?thesis by blast
  next
    case (stopped e w' bs d)
    then have "writer_ok cod im st0 w'" "writer_rel cod w' None"
      using O snaps_ok_cong [OF stopped(4), of cod im] by (simp_all add: writer_ok_def writer_rel_def)
    moreover have "writer_spec cod st0 (rq, ReqRestore path ev) (Some (hist, app)) (AckRestore (Err (WriterPoisoned e))) None"
      by (simp add: is_err_def)
    moreover have "writer_step cod im (rq, ReqRestore path ev) w = Ok (AckRestore (Err (WriterPoisoned e)), w')"
      using step stopped(1) by simp
    ultimately show ?thesis by blast
  qed
qed

lemma step_state:
  assumes ok: "writer_ok cod im st0 w" and rel: "writer_rel cod w (Some (hist, app))"
  shows "writer_step cod im (rq, ReqState) w = Ok (AckState (wr_state w), w)"
    and "writer_spec cod st0 (rq, ReqState) (Some (hist, app)) (AckState (wr_state w)) (Some (hist, app))"
  using assms by (auto simp: writer_step_def writer_rel_def writer_ok_def intro: rep_checkpoint)

lemma writer_step_spec:
  fixes m :: "'a req_env \<times> ('a, 'c, 'e, 'o) writer_request"
  assumes ok: "writer_ok cod im st0 w" and acc: "ext_accepts im m" and rel: "writer_rel cod w a"
  shows "\<exists>r w' a'. writer_step cod im m w = Ok (r, w') \<and> writer_ok cod im st0 w' \<and> writer_rel cod w' a' \<and> writer_spec cod st0 m a r a'"
proof (cases a)
  case None
  then have "\<not> wr_running w" using rel by (simp add: writer_rel_def)
  then show ?thesis using None ok rel by (cases m) (auto simp: writer_step_def)
next
  case (Some s)
  obtain rq req hist app where m: "m = (rq, req)" and s: "a = Some (hist, app)" using Some by (cases m; cases s) auto
  have rel': "writer_rel cod w (Some (hist, app))" using rel s by simp
  show ?thesis
  proof (cases req)
    case (ReqApply cm opr)
    show ?thesis
      using acc step_apply [OF ok rel', of cm opr rq] unfolding m s ReqApply ext_accepts_def fst_conv snd_conv writer_request.case by blast
  next
    case (ReqAdvance cm)
    show ?thesis
      using acc step_advance [OF ok rel', of cm rq] unfolding m s ReqAdvance ext_accepts_def fst_conv snd_conv writer_request.case by blast
  next
    case ReqState
    then show ?thesis using step_state [OF ok rel', of rq] ok rel' unfolding m s by blast
  next
    case (ReqSnapshot sid path)
    show ?thesis
      using acc step_snapshot [OF ok rel', of rq sid path] unfolding m s ReqSnapshot ext_accepts_def fst_conv snd_conv writer_request.case by blast
  next
    case (ReqRestore path ev)
    then show ?thesis using step_restore [OF ok rel', of rq path ev] unfolding m s by blast
  next
    case ReqShutdown
    then show ?thesis using ok rel' unfolding m s by (auto simp: writer_step_def writer_ok_def writer_rel_def)
  qed
qed

interpretation ext_task: refining_task "writer_ok cod im st0" "ext_accepts im" "writer_step cod im" "writer_rel cod" "writer_spec cod st0"
  for cod im st0
proof
  show "\<exists>r s'. writer_step cod im m s = Ok (r, s') \<and> writer_ok cod im st0 s'" if "writer_ok cod im st0 s" "ext_accepts im m" for s m
  proof -
    have "\<exists>a. writer_rel cod s a" using that(1) by (auto simp: writer_ok_def writer_rel_def split: option.splits intro: exI [of _ None])
    then show ?thesis using writer_step_spec [OF that] by blast
  qed
  show "\<exists>a'. writer_spec cod st0 m a r a' \<and> writer_rel cod s' a'"
    if "writer_ok cod im st0 s" "ext_accepts im m" "writer_rel cod s a" "writer_step cod im m s = Ok (r, s')" for s m a r s'
    using writer_step_spec [OF that(1-3)] that(4) by auto
qed

section \<open>From a snapshot to another writer\<close>

lemma create_snapshot_calm:
  assumes "\<forall>opn. \<not> io_fails io opn" and "dk_snaps dk path = None"
  shows "\<exists>dk'. create_external_snapshot io im d path dk = (Ok (), dk') \<and> dk_snaps dk' path = Some (Regular (im_image im d)) \<and>
    (\<forall>p. p \<noteq> path \<longrightarrow> p \<noteq> path @ ''~'' \<longrightarrow> dk_snaps dk' p = dk_snaps dk p)"
  using assms by (auto simp: create_external_snapshot_def try_remove_def Let_def io_step_def act_simps)

lemma build_snapshot_spec:
  assumes cod: "ext_codec_ok cod" and im: "image_ok im" and run: "wr_running w" and idle: "idle (wr_conn w)"
    and rep: "ext_rep cod hist (wr_state w) (cn_db (wr_conn w))" and calm: "unfailing rq" and none: "dk_snaps (wr_disk w) path = None"
  obtains d st w' where "build_snapshot_at rq cod im sid path w =
        (Ok (snapshot_evidence st sid (im_page_size im (im_image im d)) (length (im_image im d)) (xc_sha cod (im_image im d)), path), w')"
      "ext_rep cod hist st d" "db_app d = db_app (cn_db (wr_conn w))" "st_snapshot_id st = Some sid" "same_config (wr_state w) st"
      "dk_snaps (wr_disk w') path = Some (Regular (im_image im d))"
      "\<And>p. p \<noteq> path \<Longrightarrow> p \<noteq> path @ ''~'' \<Longrightarrow> dk_snaps (wr_disk w') p = dk_snaps (wr_disk w) p"
      "wr_running w'" "ext_rep cod hist (wr_state w') (cn_db (wr_conn w'))" "db_app (cn_db (wr_conn w')) = db_app (cn_db (wr_conn w))"
proof -
  have c: "calm (rq_env rq)" and io: "\<forall>opn. \<not> io_fails (rq_io rq) opn" "\<forall>opn. \<not> io_fails (rq_io' rq) opn"
    using calm by (simp_all add: unfailing_def)
  obtain c' where p: "persist_snapshot_id (rq_env rq) sid (wr_conn w) = (Ok (), c')" "idle c'" "db_app (cn_db c') = db_app (cn_db (wr_conn w))"
      "ext_rep cod hist ((wr_state w)\<lparr>st_snapshot_id := Some sid\<rparr>) (cn_db c')"
    using persist_snapshot_id_spec [OF rep idle, of "rq_env rq" sid] c by metis
  let ?st = "(wr_state w)\<lparr>st_snapshot_id := Some sid\<rparr>" and ?bs = "im_image im (cn_db c')"
  obtain dk where dk: "create_external_snapshot (rq_io rq) im (cn_db c') path (wr_disk w) = (Ok (), dk)"
      "dk_snaps dk path = Some (Regular ?bs)" "\<forall>p. p \<noteq> path \<longrightarrow> p \<noteq> path @ ''~'' \<longrightarrow> dk_snaps dk p = dk_snaps (wr_disk w) p"
    using create_snapshot_calm [OF io(1) none] by blast
  let ?w = "w\<lparr>wr_conn := c', wr_state := ?st, wr_disk := dk\<rparr>"
  have "serve_snapshot rq im sid path w = (Ok ?st, ?w)"
    using p(1,2) dk(1) by (simp add: serve_snapshot_def idle_db Let_def)
  moreover have "inspect_snapshot (rq_io' rq) cod im dk path = Ok (im_page_size im ?bs, length ?bs, xc_sha cod ?bs)"
    using dk(2) io(2) im by (simp add: inspect_snapshot_def image_ok_def)
  ultimately have "build_snapshot_at rq cod im sid path w =
      (Ok (snapshot_evidence ?st sid (im_page_size im ?bs) (length ?bs) (xc_sha cod ?bs), path), ?w)"
    using io(1) none run by (simp add: build_snapshot_at_def)
  then show thesis using p dk run by (intro that [of ?st "cn_db c'" ?w]) auto
qed

text \<open>The evidence of an image of a history passes every check.\<close>

lemma image_validates:
  assumes cod: "ext_codec_ok cod" and im: "image_ok im" and rep: "ext_rep cod hist st d" and sid: "st_snapshot_id st = Some sid"
    and calm: "calm env" and io: "\<forall>opn. \<not> io_fails io opn" and f: "dk_snaps dk path = Some (Regular (im_image im d))"
    and ev: "ev = snapshot_evidence st sid (im_page_size im (im_image im d)) (length (im_image im d)) (xc_sha cod (im_image im d))"
  shows "validate_snapshot_file env io cod im dk path ev = Ok ()"
proof -
  have rep': "ext_rep cod hist st (cn_db (read_conn d))" using rep by simp
  have i: "im_open im (im_image im d) = Some d" "im_check im (im_image im d)" using im by (simp_all add: image_ok_def)
  have e: "ev_format_version ev = external_format_version" "ev_snapshot_format ev = external_sqlite_snapshot_format"
      "ev_bytes ev = length (im_image im d)" "ev_sha256 ev = xc_sha cod (im_image im d)" "ev_page_size ev = im_page_size im (im_image im d)"
      "ev_snapshot_id ev = sid"
    by (simp_all add: ev snapshot_evidence_def)
  have "snapshot_evidence st sid (im_page_size im (im_image im d)) (length (im_image im d)) (xc_sha cod (im_image im d)) = ev"
    by (simp add: ev)
  then show ?thesis
    using loads_idle [OF cod rep' idle_read_conn, of env] calm io f i sid by (auto simp: validate_snapshot_file_def e)
qed

lemma not_behind_accepted:
  assumes rep: "ext_rep cod hist live d" and rep': "ext_rep cod hist' st d'" and cfg: "same_config live st" and nb: "not_behind cod hist hist'"
  shows "reject_stale_snapshot (last_applied live) (last_applied st) = Ok ()"
proof (cases "hist = []")
  case True
  then show ?thesis using rep_checkpoint [OF rep] by (simp add: reject_stale_snapshot_def checkpoint_of_def split: option.split)
next
  case False
  note l = rep_checkpoint [OF rep] rep_checkpoint [OF rep']
  have "hist' \<noteq> []" using nb False by (auto simp: not_behind_def)
  moreover have "Suc (sequence (ap_commit (entry_applied cod (last hist)))) = initial_sequence live + length hist"
    using rep_last(2) [OF rep False] by simp
  moreover have "Suc (sequence (ap_commit (entry_applied cod (last hist')))) = initial_sequence live + length hist'"
    using rep_last(2) [OF rep'] \<open>hist' \<noteq> []\<close> same_config_simps(1) [OF cfg] by simp
  ultimately show ?thesis
    using nb False l by (auto simp: reject_stale_snapshot_def checkpoint_of_def not_behind_def)
qed

lemma evidence_compatible:
  assumes "same_config live st"
  shows "validate_snapshot_compatibility live (snapshot_evidence st sid ps len sha) = Ok ()"
proof -
  have "application_id st = application_id live" "initial_sequence st = initial_sequence live" "initial_state_schema st = initial_state_schema live"
      "receipt_codec st = receipt_codec live" "receipt_retention st = receipt_retention live" "st_max_bytes st = st_max_bytes live"
    using assms by (cases live; cases st; simp add: same_config_def)+
  then show ?thesis by (simp add: validate_snapshot_compatibility_def snapshot_evidence_def)
qed

text \<open>A restore of an image that is not behind passes the checks, and succeeds with nothing failing.\<close>

lemma image_checks:
  assumes ok: "writer_ok cod im st0 w" and rep: "ext_rep cod hist2 (wr_state w) (cn_db (wr_conn w))"
    and rep': "ext_rep cod hist st d" and sid: "st_snapshot_id st = Some sid" and cfg: "same_config (wr_state w) st"
    and nb: "not_behind cod hist2 hist" and calm: "calm (rq_env rq)" "\<forall>opn. \<not> io_fails (rq_io rq) opn"
    and f: "dk_snaps (wr_disk w) path = Some (Regular (im_image im d))"
    and ev: "ev = snapshot_evidence st sid (im_page_size im (im_image im d)) (length (im_image im d)) (xc_sha cod (im_image im d))"
  shows "restore_checks rq cod im path ev w = Ok ()"
proof -
  have O: "ext_codec_ok cod" "image_ok im" using ok by (simp_all add: writer_ok_def)
  have "validate_snapshot_file (rq_env rq) (rq_io rq) cod im (wr_disk w) path ev = Ok ()"
    by (rule image_validates [OF O rep' sid calm f ev])
  moreover have "reject_stale_snapshot (last_applied (wr_state w)) (ev_checkpoint ev) = Ok ()"
    using not_behind_accepted [OF rep rep' cfg nb] by (simp add: ev snapshot_evidence_def)
  ultimately show ?thesis using evidence_compatible [OF cfg] by (simp add: restore_checks_def ev)
qed

lemma restore_image:
  assumes ok: "writer_ok cod im st0 w" and run: "wr_running w" and rep: "ext_rep cod hist2 (wr_state w) (cn_db (wr_conn w))"
    and rep': "ext_rep cod hist st d" and sid: "st_snapshot_id st = Some sid" and cfg: "same_config (wr_state w) st"
    and nb: "not_behind cod hist2 hist" and calm: "unfailing rq" and f: "dk_snaps (wr_disk w) path = Some (Regular (im_image im d))"
    and ev: "ev = snapshot_evidence st sid (im_page_size im (im_image im d)) (length (im_image im d)) (xc_sha cod (im_image im d))"
  shows "\<exists>w'. serve_restore rq cod im path ev w = Ok (Ok ev, w') \<and> wr_running w' \<and> idle (wr_conn w') \<and> wr_state w' = st \<and> cn_db (wr_conn w') = d"
proof -
  have O: "ext_codec_ok cod" "image_ok im" "idle (wr_conn w)" using ok run by (simp_all add: writer_ok_def)
  have img: "im_open im (im_image im d) = Some d" using O(2) by (simp add: image_ok_def)
  have chk: "restore_checks rq cod im path ev w = Ok ()"
    by (rule image_checks [OF ok rep rep' sid cfg nb _ _ f ev]) (use calm in \<open>simp_all add: unfailing_def\<close>)
  have eve: "snapshot_evidence st (ev_snapshot_id ev) (ev_page_size ev) (ev_bytes ev) (ev_sha256 ev) = ev"
    by (simp add: ev snapshot_evidence_def)
  obtain dk where mk: "write_dirty_marker (rq_io rq) dirty_poisoned (wr_disk w) = (Ok (), dk)" "dk_snaps dk = dk_snaps (wr_disk w)"
    using calm by (auto simp: write_dirty_marker_def io_step_def act_simps unfailing_def)
  have "\<exists>w'. restore_live rq cod im path ev (w\<lparr>wr_disk := dk\<rparr>) = (Ok ev, w') \<and> wr_running w' \<and> idle (wr_conn w') \<and>
      wr_state w' = st \<and> cn_db (wr_conn w') = d"
    using restore_live_spec [OF O(1), of "w\<lparr>wr_disk := dk\<rparr>" path "im_image im d" im d hist st ev rq] O(3) f mk(2) img rep' eve calm run
    by (auto simp: unfailing_def idle_def)
  then show ?thesis using chk mk(1) by (auto simp: serve_restore_def restore_checks_def)
qed

end
