(* ===== verification/Ext_Recovery.thy ===== *)
theory Ext_Recovery
  imports Ext_Engine_Props "HOL-Library.Countable"
begin

text \<open>
  The promises of the engine of the external state machine: runs of requests refine the abstract machine, a snapshot
  carries its history to another node, and after a crash, a shutdown or a failed restore a database is opened again
  only in a state that was committed. The last section has a concrete engine for which the assumptions hold.
\<close>

section \<open>Runs of requests\<close>


section \<open>Copying a snapshot\<close>

lemma same_config_sym_trans: "same_config st0 st \<Longrightarrow> same_config st0 st' \<Longrightarrow> same_config st st'"
  by (cases st0; cases st; cases st'; simp add: same_config_def)

text \<open>A file that is copied to the node of a writer.\<close>

definition copy_file :: "string \<Rightarrow> snap_node option \<Rightarrow> ('a, 'c) writer \<Rightarrow> ('a, 'c) writer" where
  "copy_file path node w = w\<lparr>wr_disk := (wr_disk w)\<lparr>dk_snaps := (dk_snaps (wr_disk w))(path := node)\<rparr>\<rparr>"

lemma copy_file_ok:
  assumes ok: "writer_ok cod im st0 w" and h: "holds_history cod im node"
  shows "writer_ok cod im st0 (copy_file path (Some node) w)"
  using assms by (auto simp: writer_ok_def copy_file_def snaps_ok_def)

lemma image_holds: "image_ok im \<Longrightarrow> ext_rep cod hist st d \<Longrightarrow> holds_history cod im (Regular (im_image im d))"
  by (auto simp: holds_history_def image_ok_def)

lemma stage_calm:
  assumes io: "\<forall>opn. \<not> io_fails (rq_io rq) opn" and f: "dk_snaps dk path = Some (Regular bs)" and none: "dk_snaps dk dest = None"
    and ne: "path \<noteq> dest @ ''.incoming''"
  shows "\<exists>dk'. stage_snapshot rq cod im dest path ev dk = (Ok (), dk') \<and> dk_snaps dk' dest = Some (Regular bs) \<and>
    (\<forall>p node. dk_snaps dk' p = Some node \<longrightarrow> node = Regular bs \<or> dk_snaps dk p = Some node)"
  using assms by (auto simp: stage_snapshot_def try_remove_def Let_def)

lemma install_image:
  assumes ok2: "writer_ok cod im st0 w2" and rel2: "writer_rel cod w2 (Some (hist2, app2))" and nb: "not_behind cod hist2 hist"
    and rep: "ext_rep cod hist st d" and sid: "st_snapshot_id st = Some sid" and cfg: "same_config (wr_state w2) st"
    and calm: "unfailing rq2" "unfailing rq3"
    and uuid: "parse_uuid sid = Some u" and dest: "dk_snaps (wr_disk w2) (dir @ ''/'' @ u) = None"
    and path2: "path2 \<noteq> dir @ ''/'' @ u" "path2 \<noteq> (dir @ ''/'' @ u) @ ''.incoming''"
    and ev: "ev = snapshot_evidence st sid (im_page_size im (im_image im d)) (length (im_image im d)) (xc_sha cod (im_image im d))"
  shows "\<exists>w2'. install_snapshot rq2 rq3 cod im parse_uuid dir (ev, path2) (pool, copy_file path2 (Some (Regular (im_image im d))) w2) =
      (Ok ev, True, w2') \<and> writer_rel cod w2' (Some (hist, db_app d))"
proof -
  have r2: "wr_running w2" "ext_rep cod hist2 (wr_state w2) (cn_db (wr_conn w2))" using rel2 by (simp_all add: writer_rel_def)
  have O: "ext_codec_ok cod" "image_ok im" using ok2 by (simp_all add: writer_ok_def)
  let ?dest = "dir @ ''/'' @ u" and ?node = "Regular (im_image im d)"
  let ?w2 = "copy_file path2 (Some ?node) w2"
  have h: "holds_history cod im ?node" using image_holds [OF O(2) rep] .
  have io: "calm (rq_env rq2)" "\<forall>opn. \<not> io_fails (rq_io rq2) opn" using calm(1) by (simp_all add: unfailing_def)
  have f2: "dk_snaps (wr_disk ?w2) path2 = Some ?node" by (simp add: copy_file_def)
  have val: "validate_snapshot_file (rq_env rq2) (rq_io rq2) cod im (wr_disk ?w2) path2 ev = Ok ()"
    by (rule image_validates [OF O rep sid io f2 ev])
  obtain dk where st: "stage_snapshot rq2 cod im ?dest path2 ev (wr_disk ?w2) = (Ok (), dk)" "dk_snaps dk ?dest = Some ?node"
      "\<forall>p node. dk_snaps dk p = Some node \<longrightarrow> node = ?node \<or> dk_snaps (wr_disk ?w2) p = Some node"
    using stage_calm [OF io(2) f2, of ?dest cod im ev] dest path2 by (auto simp: copy_file_def)
  let ?w3 = "?w2\<lparr>wr_disk := dk\<rparr>"
  have "snaps_ok cod im dk" using st(3) h copy_file_ok [OF ok2 h, of path2] by (auto simp: writer_ok_def snaps_ok_def)
  then have ok3: "writer_ok cod im st0 ?w3" using copy_file_ok [OF ok2 h, of path2] by (simp add: writer_ok_def)
  have cfg3: "same_config (wr_state ?w3) st" using cfg by (simp add: copy_file_def)
  obtain w2' where R: "serve_restore rq3 cod im ?dest ev ?w3 = Ok (Ok ev, w2')" "wr_running w2'" "wr_state w2' = st" "cn_db (wr_conn w2') = d"
    using restore_image [OF ok3 _ _ rep sid cfg3 nb calm(2) _ ev, of ?dest] r2 st(2) by (auto simp: copy_file_def)
  have "install_snapshot rq2 rq3 cod im parse_uuid dir (ev, path2) (pool, ?w2) = (Ok ev, True, w2')"
    using val uuid st(1) R(1) r2(1) calm(2)
    by (simp add: install_snapshot_def ev snapshot_evidence_def copy_file_def unfailing_def Let_def)
  then show ?thesis using R rep by (auto simp: writer_rel_def)
qed

text \<open>C11. With nothing failing, a snapshot of one writer can be built, and once its file has been copied to another node
  it can be installed there with its evidence, provided the writer there is of the same application and not ahead:
  both writers then have the same history and the same contents of the application, and the readers have a pool
  again.\<close>

theorem ext_snapshot_restore:
  assumes ok1: "writer_ok cod im st0 w1" and rel1: "writer_rel cod w1 (Some (hist, app))"
    and ok2: "writer_ok cod im st0 w2" and rel2: "writer_rel cod w2 (Some (hist2, app2))" and nb: "not_behind cod hist2 hist"
    and calm: "unfailing rq1" "unfailing rq2" "unfailing rq3" and none: "dk_snaps (wr_disk w1) path = None"
    and uuid: "parse_uuid sid = Some u" and dest: "dk_snaps (wr_disk w2) (dir @ ''/'' @ u) = None"
    and path2: "path2 \<noteq> dir @ ''/'' @ u" "path2 \<noteq> (dir @ ''/'' @ u) @ ''.incoming''"
  shows "\<exists>ev w1' w2'. build_snapshot_at rq1 cod im sid path w1 = (Ok (ev, path), w1') \<and> writer_rel cod w1' (Some (hist, app)) \<and>
    install_snapshot rq2 rq3 cod im parse_uuid dir (ev, path2) (pool, copy_file path2 (dk_snaps (wr_disk w1') path) w2) =
      (Ok ev, True, w2') \<and> writer_rel cod w2' (Some (hist, app))"
proof -
  have r1: "wr_running w1" "ext_rep cod hist (wr_state w1) (cn_db (wr_conn w1))" "db_app (cn_db (wr_conn w1)) = app"
    and r2: "wr_running w2"
    using rel1 rel2 by (simp_all add: writer_rel_def)
  have O1: "ext_codec_ok cod" "image_ok im" "idle (wr_conn w1)" "same_config st0 (wr_state w1)" and O2: "same_config st0 (wr_state w2)"
    using ok1 ok2 r1(1) r2 by (simp_all add: writer_ok_def)
  obtain d st w1' where B: "build_snapshot_at rq1 cod im sid path w1 =
        (Ok (snapshot_evidence st sid (im_page_size im (im_image im d)) (length (im_image im d)) (xc_sha cod (im_image im d)), path), w1')"
      "ext_rep cod hist st d" "db_app d = app" "st_snapshot_id st = Some sid" "same_config (wr_state w1) st"
      "dk_snaps (wr_disk w1') path = Some (Regular (im_image im d))" "writer_rel cod w1' (Some (hist, app))"
    by (rule build_snapshot_spec [OF O1(1,2) r1(1) O1(3) r1(2) calm(1) none, of sid]) (use r1(3) in \<open>auto simp: writer_rel_def\<close>)
  have cfg: "same_config (wr_state w2) st" 
    by (rule same_config_sym_trans [OF O2 same_config_trans [OF O1(4) B(5)]])
  have "\<exists>w2'. install_snapshot rq2 rq3 cod im parse_uuid dir
      (snapshot_evidence st sid (im_page_size im (im_image im d)) (length (im_image im d)) (xc_sha cod (im_image im d)), path2)
      (pool, copy_file path2 (Some (Regular (im_image im d))) w2) =
      (Ok (snapshot_evidence st sid (im_page_size im (im_image im d)) (length (im_image im d)) (xc_sha cod (im_image im d))), True, w2') \<and>
    writer_rel cod w2' (Some (hist, db_app d))"
    by (rule install_image [where parse_uuid = parse_uuid and dir = dir and u = u,
        OF ok2 rel2 nb B(2,4) cfg calm(2,3) uuid dest path2 refl])
  then show ?thesis using B(1,3,6,7) by auto
qed

section \<open>Opening a database again\<close>

lemma dirty_distinct [simp]:
  "dirty_poisoned \<noteq> dirty_full" "dirty_poisoned \<noteq> dirty_normal" "dirty_full \<noteq> dirty_poisoned" "dirty_normal \<noteq> dirty_poisoned"
proof -
  have "length dirty_poisoned \<noteq> length dirty_full" "length dirty_poisoned \<noteq> length dirty_normal"
    by (simp_all add: dirty_poisoned_def dirty_full_def dirty_normal_def text_bytes_def)
  then show "dirty_poisoned \<noteq> dirty_full" "dirty_poisoned \<noteq> dirty_normal" "dirty_full \<noteq> dirty_poisoned" "dirty_normal \<noteq> dirty_poisoned"
    by auto
qed

lemma exit_disk:
  "dk_snaps (snd (writer_exit io w)) = dk_snaps (wr_disk w)" "dk_db (snd (writer_exit io w)) = Some (cn_db (wr_conn w))"
  "\<not> dk_locked (snd (writer_exit io w))"
  "dk_marker (snd (writer_exit io w)) = dk_marker (wr_disk w) \<or> dk_marker (snd (writer_exit io w)) = None \<and> wr_poisoned w = None"
  by (auto simp: writer_exit_def remove_dirty_marker_def io_step_def act_simps finalize_projection_def Let_def
      split: option.split res.split)

text \<open>C13. A restore that fails after it has begun stops the writer with an error, and the next open does not serve what it
  left behind: it demands a rebuild and changes nothing, unless the database is exactly that of the snapshot, which
  had been validated.\<close>

theorem ext_failed_restore_closed:
  assumes ok: "writer_ok cod im st0 w" and rel: "writer_rel cod w (Some (hist, app))"
    and restore: "serve_restore rq cod im path ev w = Ok (Err (WriterPoisoned e), w')"
    and io: "\<forall>opn. \<not> io_fails io2 opn" and opts: "validate_options o1 = Ok ()"
  shows "fst (writer_exit io w') = Err (WriterPoisoned e) \<and>
    (ext_open env env' io2 io2' cod fresh o1 (snd (writer_exit io w')) = (Err (RebuildRequired ''dirty''), snd (writer_exit io w')) \<or>
     (\<exists>bs d. dk_snaps (wr_disk w) path = Some (Regular bs) \<and> im_open im bs = Some d \<and> dk_db (snd (writer_exit io w')) = Some d))"
proof -
  have run: "wr_running w" and rep: "ext_rep cod hist (wr_state w) (cn_db (wr_conn w))" using rel by (simp_all add: writer_rel_def)
  obtain bs d where s: "wr_poisoned w' = Some (WriterPoisoned e)" "dk_snaps (wr_disk w) path = Some (Regular bs)" "im_open im bs = Some d"
      "dk_marker (wr_disk w') = Some dirty_poisoned \<or> cn_db (wr_conn w') = d"
    by (rule serve_restore_spec [OF ok run rep, of rq path ev]) (use restore in auto)
  have ex: "fst (writer_exit io w') = Err (WriterPoisoned e)" using s(1) by (simp add: writer_exit_def Let_def)
  show ?thesis
  proof (cases "cn_db (wr_conn w') = d")
    case True
    then show ?thesis using ex s(2,3) exit_disk(2) [of io w'] by simp
  next
    case False
    then have "dk_marker (snd (writer_exit io w')) = Some dirty_poisoned" using s(1,4) exit_disk(4) [of io w'] by auto
    then have "ext_open env env' io2 io2' cod fresh o1 (snd (writer_exit io w')) = (Err (RebuildRequired ''dirty''), snd (writer_exit io w'))"
      using io opts exit_disk(3) [of io w']
      by (simp add: ext_open_def open_inner_def check_marker_def Let_def act_simps)
    then show ?thesis using ex by blast
  qed
qed

text \<open>The disk after a crash: the committed database and the marker, whatever the writer was doing.\<close>

definition crashed :: "('a, 'c) writer \<Rightarrow> 'a disk" where
  "crashed w = (wr_disk w)\<lparr>dk_db := Some (cn_db (wr_conn w)), dk_locked := False\<rparr>"

lemma open_existing:
  assumes cod: "ext_codec_ok cod" and rep: "ext_rep cod hist st d" and calm: "calm env" "calm env'" and io: "\<forall>opn. \<not> io_fails io opn"
    and sync: "io_sync io = expected_pragma_value (op_durability o1)"
    and opts: "validate_options o1 = Ok ()" and conf: "validate_configuration st o1 (xc_receipt_codec cod) = Ok ()"
    and dk: "dk_db dk = Some d" "\<not> dk_locked dk" "dk_marker dk \<in> {None, Some dirty_full, Some dirty_normal}"
  shows "\<exists>w' dk'. ext_open env env' io io' cod fresh o1 dk = (Ok w', dk') \<and> wr_running w' \<and> wr_poisoned w' = None \<and> idle (wr_conn w') \<and>
    wr_state w' = st \<and> cn_db (wr_conn w') = d \<and> dk_snaps (wr_disk w') = dk_snaps dk \<and>
    dk_marker dk' = Some (dirty_marker (op_durability o1)) \<and> dk_locked dk'"
proof -
  have rep': "ext_rep cod hist st (cn_db (read_conn d))" using rep by simp
  have l: "load_state env cod (read_conn d) = Ok st" "validate_receipts env cod (read_conn d) st = Ok ()"
      "load_state env' cod (read_conn d) = Ok st" "validate_receipts env' cod (read_conn d) st = Ok ()"
    using loads_idle [OF cod rep' idle_read_conn] calm by blast+
  have q: "require_metadata_table env (read_conn d) = Ok ()" "require_metadata_table env' (read_conn d) = Ok ()"
    using ext_repD(5) [OF rep] calm
    by (simp_all add: require_metadata_table_def metadata_table_exists_def sql_query_def sql_ok_def calm_def)
  have pre: "preflight env io cod o1 False d = Ok ()" using l q io conf by (simp add: preflight_def)
  have odb: "open_db env' io cod o1 False (read_conn d) = (Ok st, read_conn d)"
    using l q io conf sync by (simp add: open_db_def act_simps)
  have mk: "write_dirty_marker io (dirty_marker (op_durability o1)) dk = (Ok (), dk\<lparr>dk_marker := Some (dirty_marker (op_durability o1))\<rparr>)"
    using io by (simp add: write_dirty_marker_def io_step_def act_simps)
  have "open_marked env env' io io' cod fresh o1 False armed dk =
      (Ok (read_conn d, st), dk\<lparr>dk_marker := Some (dirty_marker (op_durability o1))\<rparr>)" for armed
    using mk pre odb dk(1) io by (simp add: open_marked_def)
  moreover have "check_marker io False False dk = (Ok (dk_marker dk \<noteq> None), dk)"
    using dk(3) io by (auto simp: check_marker_def Let_def)
  ultimately show ?thesis
    using opts io dk(2) by (simp add: ext_open_def open_inner_def act_simps)
qed


text \<open>A database that does not exist yet is created with an empty history.\<close>

lemma open_creates:
  assumes calm: "calm env'" and io: "\<forall>opn. \<not> io_fails io opn" and cod: "ext_codec_ok cod"
    and sync: "io_sync io = expected_pragma_value (op_durability o1)" and opts: "validate_options o1 = Ok ()"
    and u64: "op_initial_sequence o1 \<le> u64_max" "op_initial_state_schema o1 \<le> u64_max"
    and dk: "dk_db dk = None" "\<not> dk_locked dk" "dk_marker dk = None"
  shows "\<exists>w' dk'. ext_open env env' io io' cod fresh o1 dk = (Ok w', dk') \<and> idle (wr_conn w') \<and> wr_running w' \<and>
    writer_rel cod w' (Some ([], fresh))"
proof -
  let ?st = "\<lparr>application_id = op_application_id o1, initial_sequence = op_initial_sequence o1,
     initial_state_schema = op_initial_state_schema o1, receipt_codec = xc_receipt_codec cod,
     receipt_retention = op_receipt_retention o1, st_max_bytes = op_max_receipt_bytes o1,
     last_applied = None, receipt_floor = None, st_snapshot_id = None\<rparr>"
  let ?d = "\<lparr>db_app = fresh, db_meta = Some (Some (state_row cod ?st)), db_receipts = Some []\<rparr>"
  have rep: "ext_rep cod [] ?st (cn_db (read_conn ?d))"
    using opts u64 by (auto simp: ext_rep_def config_ok_def dense_from_def state_of_def kept_def validate_options_def split: if_splits)
  have l: "load_state env' cod (read_conn ?d) = Ok ?st" "validate_receipts env' cod (read_conn ?d) ?st = Ok ()"
    using loads_idle [OF cod rep idle_read_conn] calm by blast+
  have cr: "create_metadata_tables env' o1 (xc_receipt_codec cod) (read_conn \<lparr>db_app = fresh, db_meta = None, db_receipts = None\<rparr>) =
      (Ok (), read_conn ?d)"
    using calm by (simp add: create_metadata_tables_def sql_exec_def sql_query_def sql_ok_def calm_def put_db_def act_simps
        state_row_def external_format_version_def read_conn_def conn_db_def)
  have "open_db env' io cod o1 True (read_conn \<lparr>db_app = fresh, db_meta = None, db_receipts = None\<rparr>) = (Ok ?st, read_conn ?d)"
    using l cr io sync by (simp add: open_db_def act_simps validate_configuration_def)
  then have "open_marked env env' io io' cod fresh o1 False armed dk =
      (Ok (read_conn ?d, ?st), dk\<lparr>dk_marker := Some (dirty_marker (op_durability o1))\<rparr>)" for armed
    using dk(1) io by (simp add: open_marked_def write_dirty_marker_def io_step_def act_simps)
  moreover have "check_marker io False False dk = (Ok False, dk)" using dk(3) io by (simp add: check_marker_def)
  ultimately show ?thesis
    using opts io dk(2) rep by (simp add: ext_open_def open_inner_def act_simps writer_rel_def)
qed

section \<open>A concrete engine with snapshots\<close>

text \<open>Images of databases by number: everything a database holds is countable.\<close>

definition row_key :: "meta_row \<Rightarrow> (int \<times> string \<times> bytes \<times> bytes \<times> string \<times> bytes \<times> bytes \<times> bytes option) \<times>
    (bytes option \<times> bytes option \<times> int option \<times> bytes option \<times> bytes option \<times> bytes option \<times> bytes option \<times> string option)" where
  "row_key r = ((mr_format_version r, mr_application_id r, mr_initial_sequence r, mr_initial_state_schema r, mr_receipt_codec r,
     mr_receipt_retention r, mr_max_receipt_bytes r, mr_last_sequence r), (mr_last_coordinate r, mr_last_command_digest r,
     mr_last_kind r, mr_last_state_schema r, mr_last_receipt_schema r, mr_last_receipt_digest r, mr_receipt_floor r, mr_snapshot_id r))"

definition receipt_key :: "receipt_row \<Rightarrow> bytes \<times> bytes \<times> int \<times> bytes \<times> bytes \<times> string \<times> bytes \<times> bytes" where
  "receipt_key r = (rr_coordinate r, rr_command_digest r, rr_kind r, rr_state_schema r, rr_receipt_schema r, rr_codec r,
     rr_receipt r, rr_receipt_digest r)"

definition db_key :: "bytes db \<Rightarrow> nat" where
  "db_key d = to_nat (db_app d, map_option (map_option row_key) (db_meta d), map_option (map (\<lambda>(k, r). (k, receipt_key r))) (db_receipts d))"

lemma inj_row_key: "inj row_key"
  by (rule injI) (simp add: row_key_def meta_row.equality)

lemma inj_receipt_key: "inj receipt_key"
  by (rule injI) (simp add: receipt_key_def receipt_row.equality)

lemma inj_db_key: "inj db_key"
proof (rule injI)
  fix x y :: "bytes db"
  assume "db_key x = db_key y"
  then have k: "db_app x = db_app y" "map_option (map_option row_key) (db_meta x) = map_option (map_option row_key) (db_meta y)"
      "map_option (map (\<lambda>(k, r). (k, receipt_key r))) (db_receipts x) = map_option (map (\<lambda>(k, r). (k, receipt_key r))) (db_receipts y)"
    by (simp_all add: db_key_def)
  have "inj (\<lambda>(k :: bytes, r). (k, receipt_key r))" using inj_receipt_key by (auto simp: inj_def)
  then have "inj (map_option (map_option row_key))" "inj (map_option (map (\<lambda>(k :: bytes, r). (k, receipt_key r))))"
    using inj_row_key by (simp_all add: option.inj_map list.inj_map)
  then show "x = y" using k by (intro db.equality) (auto dest: injD)
qed

definition plain_image :: "bytes image_codec" where
  "plain_image = \<lparr>im_image = (\<lambda>d. replicate (Suc (db_key d)) 0),
     im_open = (\<lambda>bs. if bs = [] then None else Some (inv db_key (length bs - 1))), im_check = (\<lambda>bs. bs \<noteq> []), im_page_size = (\<lambda>_. 4096)\<rparr>"

lemma plain_image_ok: "image_ok plain_image"
  using inj_db_key by (simp add: image_ok_def plain_image_def)

definition plain_io :: "bytes io_env" where
  "plain_io = \<lparr>io_fails = (\<lambda>_. False), io_written = 0, io_left = cn_db plain_conn, io_temp = [], io_sync = 2\<rparr>"

definition plain_rq :: "bytes req_env" where
  "plain_rq = \<lparr>rq_env = calm_env, rq_env' = calm_env, rq_io = plain_io, rq_io' = plain_io\<rparr>"

definition plain_writer :: "bytes conn \<Rightarrow> bytes stored_state \<Rightarrow> (bytes, bytes) writer" where
  "plain_writer c st = \<lparr>wr_conn = c, wr_state = st, wr_disk = \<lparr>dk_locked = True, dk_marker = Some dirty_full, dk_db = None, dk_snaps = (\<lambda>_. None)\<rparr>,
     wr_marker = dirty_full, wr_poisoned = None, wr_running = True\<rparr>"

lemma plain_unfailing: "unfailing plain_rq"
  using calm_calm_env by (simp add: unfailing_def plain_rq_def plain_io_def)

lemma plain_writer_ok:
  assumes "ext_rep plain_codec hist st (cn_db c)" and "idle c" and "same_config plain_state st"
  shows "writer_ok plain_codec plain_image plain_state (plain_writer c st)"
  using assms plain_codec_ok plain_image_ok by (auto simp: writer_ok_def plain_writer_def snaps_ok_def)

abbreviation writer0 :: "(bytes, bytes) writer" where "writer0 \<equiv> plain_writer plain_conn plain_state"
abbreviation writer1 :: "(bytes, bytes) writer" where
  "writer1 \<equiv> plain_writer plain_conn1 (next_state plain_codec plain_entry plain_state)"

lemma writers_ok:
  "writer_ok plain_codec plain_image plain_state writer0" "writer_ok plain_codec plain_image plain_state writer1"
  "writer_rel plain_codec writer0 (Some ([], []))" "writer_rel plain_codec writer1 (Some ([plain_entry], []))"
  using plain_writer_ok [OF plain_rep plain_idle] plain_writer_ok [OF plain_rep1 plain_idle1] plain_rep plain_rep1
  by (simp_all add: writer_rel_def plain_writer_def plain_conn_def plain_conn1_def)


theorem ext_snapshot_restore_witness:
  "\<exists>ev w1' w2'. build_snapshot_at plain_rq plain_codec plain_image ''s'' ''p'' writer1 = (Ok (ev, ''p''), w1') \<and>
    writer_rel plain_codec w1' (Some ([plain_entry], [])) \<and>
    install_snapshot plain_rq plain_rq plain_codec plain_image Some ''d'' (ev, ''q'') (True, copy_file ''q'' (dk_snaps (wr_disk w1') ''p'') writer0) =
      (Ok ev, True, w2') \<and> writer_rel plain_codec w2' (Some ([plain_entry], []))"
  by (rule ext_snapshot_restore [OF writers_ok(2,4,1,3) _ plain_unfailing plain_unfailing plain_unfailing])
    (simp_all add: not_behind_def plain_writer_def)

definition plain_options :: ext_options where
  "plain_options = (ext_options_new (Some ''/data'') ''app'')\<lparr>op_receipt_retention := 2, op_max_receipt_bytes := 16\<rparr>"

lemma plain_options_ok: "validate_options plain_options = Ok ()" "validate_configuration plain_state plain_options ''plain'' = Ok ()"
  by (simp_all add: plain_options_def ext_options_new_def validate_options_def path_components_def component_of_def Let_def
      starts_with_def max_read_pool_size_def max_receipt_retention_def max_receipt_bytes_def max_prepared_statements_def
      validate_configuration_def plain_state_def)



text \<open>The statements after the restore fail.\<close>

definition snap_state :: "bytes stored_state" where
  "snap_state = (next_state plain_codec plain_entry plain_state)\<lparr>st_snapshot_id := Some ''s''\<rparr>"

definition snap_db :: "bytes db" where
  "snap_db = (cn_db plain_conn1)\<lparr>db_meta := Some (Some ((state_row plain_codec (next_state plain_codec plain_entry plain_state))\<lparr>mr_snapshot_id := Some ''s''\<rparr>))\<rparr>"

definition snap_evidence :: "bytes ext_evidence" where
  "snap_evidence = snapshot_evidence snap_state ''s'' (im_page_size plain_image (im_image plain_image snap_db))
     (length (im_image plain_image snap_db)) (xc_sha plain_codec (im_image plain_image snap_db))"

definition failing_rq :: "bytes req_env" where
  "failing_rq = plain_rq\<lparr>rq_env' := calm_env\<lparr>sql_fails := (\<lambda>_. True)\<rparr>\<rparr>"

abbreviation writer2 :: "(bytes, bytes) writer" where
  "writer2 \<equiv> copy_file ''p'' (Some (Regular (im_image plain_image snap_db))) writer0"

lemma snap_rep: "ext_rep plain_codec [plain_entry] snap_state snap_db"
  using ext_rep_snapshot_id [OF plain_rep1, of "Some ''s''"] by (simp add: snap_state_def snap_db_def)

lemma writer2_ok: "writer_ok plain_codec plain_image plain_state writer2" "writer_rel plain_codec writer2 (Some ([], []))"
  using copy_file_ok [OF writers_ok(1) image_holds [OF plain_image_ok snap_rep]] writers_ok(3)
  by (simp_all add: writer_rel_def copy_file_def)

lemma failing_restore:
  "\<exists>w'. serve_restore failing_rq plain_codec plain_image ''p'' snap_evidence writer2 = Ok (Err (WriterPoisoned Sqlite), w')"
proof -
  have "restore_checks failing_rq plain_codec plain_image ''p'' snap_evidence writer2 = Ok ()"
    by (rule image_checks [OF writer2_ok(1) _ snap_rep _ _ _ _ _ _ snap_evidence_def, where ?hist2.0 = "[]"])
      (use writer2_ok(2) calm_calm_env in \<open>simp_all add: writer_rel_def snap_state_def not_behind_def failing_rq_def plain_rq_def plain_io_def
        copy_file_def plain_writer_def\<close>)
  then show ?thesis
    using plain_image_ok
    by (simp add: serve_restore_def restore_checks_def write_dirty_marker_def io_step_def act_simps restore_live_def restore_snapshot_def
        failing_rq_def plain_rq_def plain_io_def copy_file_def plain_writer_def image_ok_def load_state_def require_metadata_table_def
        metadata_table_exists_def sql_query_def sql_ok_def Let_def)
qed

theorem ext_failed_restore_closed_witness:
  "\<exists>w'. serve_restore failing_rq plain_codec plain_image ''p'' snap_evidence writer2 = Ok (Err (WriterPoisoned Sqlite), w') \<and>
    fst (writer_exit plain_io w') = Err (WriterPoisoned Sqlite) \<and>
    (ext_open calm_env calm_env plain_io plain_io plain_codec [] plain_options (snd (writer_exit plain_io w')) =
       (Err (RebuildRequired ''dirty''), snd (writer_exit plain_io w')) \<or>
     (\<exists>bs d. dk_snaps (wr_disk writer2) ''p'' = Some (Regular bs) \<and> im_open plain_image bs = Some d \<and>
       dk_db (snd (writer_exit plain_io w')) = Some d))"
proof -
  obtain w' where w': "serve_restore failing_rq plain_codec plain_image ''p'' snap_evidence writer2 = Ok (Err (WriterPoisoned Sqlite), w')"
    using failing_restore by blast
  have "\<forall>opn. \<not> io_fails plain_io opn" by (simp add: plain_io_def)
  from ext_failed_restore_closed [OF writer2_ok w' this plain_options_ok(1)] w' show ?thesis by blast
qed

end
