(* ===== verification/Spec2Isabelle.thy ===== *)
theory Spec2Isabelle
  imports Wal_Recovery Wal_Store_Props Log_Memory Cache_Sm_Props Ext_Recovery
begin

text \<open>
  Verification of hiqlite, a replicated store on openraft: an SQLite database, a cache with locks and notifications,
  and a state machine for applications that bring their own consensus. The sources are the crates
  \<^verbatim>\<open>src/hiqlite-wal\<close> and \<^verbatim>\<open>src/hiqlite\<close>.

  \<^bold>\<open>The program.\<close> openraft appends entries to a log storage and, once they are committed, applies them to a state
  machine. The log storage on disk is the write-ahead log of \<^verbatim>\<open>hiqlite-wal\<close>: a writer task and reader tasks over a set
  of memory-mapped files, a metadata file with the vote and the purge frontier, and a lock file. A node without a disk
  uses the log storage in memory. The state machine of the cache passes each entry to one of the tasks that own a
  cache, the locks or the notifications, and builds and installs snapshots of all of them. The external state machine
  commits the operations of an application to SQLite exactly once and is not driven by openraft at all.

  \<^bold>\<open>Which theory models what.\<close>

  \<^item> \<open>Hql_Prelude\<close>, \<open>Hql_Text\<close>, \<open>Hql_Dir\<close>, \<open>Btree_Map\<close>: results, actions, checked arithmetic, byte slices, strings,
    directory listings and the ordered map of the Rust standard library.
  \<^item> \<open>Hql_Fs\<close>: the file system, with a page cache, durable bytes, names and inodes, memory maps, faults and power loss.
  \<^item> \<open>Wal_File\<close>, \<open>Wal_Set\<close>: \<^verbatim>\<open>hiqlite-wal/src/wal.rs\<close> and \<^verbatim>\<open>utils.rs\<close>. The record \<open>wal_file\<close> is \<^verbatim>\<open>WalFile\<close> and
    \<open>wal_set\<close> is \<^verbatim>\<open>WalFileSet\<close>.
  \<^item> \<open>Wal_Meta\<close>: \<^verbatim>\<open>metadata.rs\<close> and \<^verbatim>\<open>lockfile.rs\<close>.
  \<^item> \<open>Wal_Writer\<close>, \<open>Wal_Reader\<close>: \<^verbatim>\<open>writer.rs\<close> and \<^verbatim>\<open>reader.rs\<close>, one definition per request and the loops around them.
  \<^item> \<open>Wal_Store\<close>: \<^verbatim>\<open>log_store.rs\<close>, \<^verbatim>\<open>log_store_impl.rs\<close> and \<^verbatim>\<open>shutdown.rs\<close>, the storage traits of openraft.
  \<^item> \<open>Raft_Log\<close>, \<open>Log_Memory\<close>: the abstract log of openraft and \<^verbatim>\<open>hiqlite/src/store/logs/memory.rs\<close>.
  \<^item> \<open>Hql_Task\<close>: the contract between a state machine and the tasks it sends messages to.
  \<^item> \<open>Kv_Handler\<close>, \<open>Dlock_Handler\<close>, \<open>Notify_Handler\<close>: the tasks of \<^verbatim>\<open>hiqlite/src/store/state_machine/memory\<close>.
  \<^item> \<open>Cache_Variants\<close>: the trait \<^verbatim>\<open>CacheVariants\<close> of \<^verbatim>\<open>hiqlite/src/lib.rs\<close> and the checks at start-up.
  \<^item> \<open>Cache_Sm\<close>: \<^verbatim>\<open>state_machine.rs\<close> of the same directory.
  \<^item> \<open>Ext_State\<close>, \<open>Ext_Engine\<close>: \<^verbatim>\<open>hiqlite/src/external_state_machine.rs\<close>, the tables and transactions, and the engine
    around them.

  A theory with the suffix \<open>_Props\<close> has the lemmas on the definitions of the theory it is named after; \<open>Wal_Recovery\<close>,
  \<open>Ext_Apply_Props\<close> and \<open>Ext_Recovery\<close> have those on a file, on one request to the external state machine and on its
  engine over time.

  \<^bold>\<open>Interfaces.\<close> \<open>ordered_map\<close> is what the expiry index relies on, interpreted on the association lists of \<open>Btree_Map\<close>.
  \<open>handler_task\<close> says that a task keeps its invariant and never panics on accepted messages, and \<open>refining_task\<close> that
  its answers are those of an abstract machine; the locks and the notifications are instances of the first, a
  cache and the writer of the external state machine of the second. \<open>raft_log_storage\<close> is what openraft expects of a log,
  interpreted on the log in memory.

  \<^bold>\<open>What the lemmas show.\<close>

  \<^item> Write-ahead log: the invariants \<open>set_ok\<close> and \<open>writer_inv\<close> relate the bytes of the files to the list of entries.
    Appending, rolling over, purging and truncating change that list as the abstract log does, reading returns the
    requested part of it, an acknowledged entry or vote survives a power loss, and the integrity check recovers intact
    records and refuses or cuts off corrupted ones. The theorem below composes writer, shared copy and reader.
  \<^item> Cache: the tasks refine maps with lazy expiry, queues of tickets with leases and lists of listeners; the state
    machine refines the meaning of its entries, whatever its clocks show, so that nodes agree; snapshots carry
    everything over.
  \<^item> External state machine: with any failing statement or commit an operation takes effect exactly once and its
    retry is answered with its output; runs of requests refine a history of entries; snapshots carry the history over;
    a database is opened again only in a state that was committed.
  \<^item> Where the code does something else than its comments say or panics on a legal input, a theorem states it.

  \<^bold>\<open>Bounds.\<close> The model is that of a build with debug assertions and overflow checks, so that an overflow is a
  panic. Loops of the source are structural recursions or functions with a termination proof, and no claim
  rests on an unproved bound. The head of the loop of a cache (\<open>head_loop\<close>) takes fuel, because its clock may stand still
  or go back; \<open>kv_head_returns\<close> shows that one pass more than there are pending expiries is enough.

  \<^bold>\<open>Parameters.\<close> The checksum of \<^verbatim>\<open>crc\<close>, the encodings of bincode and serde, SHA-256, the online backup of SQLite and the
  types of openraft are arguments. What is assumed of them (\<open>crc_ok\<close>, \<open>entry_codec_ok\<close>, \<open>codec_ok\<close>, \<open>ext_codec_ok\<close>,
  \<open>image_ok\<close>) is that decoding undoes encoding and, for the checksum, its width; each is shown to hold for a concrete
  instance. System calls and SQL statements fail as an arbitrary environment says, and clocks show arbitrary times.

  \<^bold>\<open>Not modelled.\<close> The SQLite state machine, queries and the derive macros (calls of rusqlite and SQL, whose semantics
  is not in the sources); the client, the network and the proxy (web sockets and HTTP); start, configuration, TLS,
  migrations and backups (environment, files and network); the dashboard. Of modelled parts: the files of the snapshots
  of a cache with a disk, the reader pool of the external state machine, the interval at which the writer is told to
  sync (a sync may occur at any point of its requests), and the true parallelism of tasks: each task takes its
  messages in order and alone owns its state, so requests are handled one at a time.
\<close>

section \<open>The log store\<close>

text \<open>C1. The log store as openraft uses it. Entries that continue the log and fit are appended with success, and a
  reader obtained afterwards answers every request for a range of the log with exactly the entries of that range, the
  old ones and the new ones, decoded, in their order.\<close>

theorem store_append_then_read:
  assumes ok: "store_ok cfg rc st old" and new: "fits cfg rc st old new"
  shows "\<exists>st'. append_store cfg rc new st = (Ok (), st') \<and> store_ok cfg rc st' (old @ new) \<and>
    (\<forall>lo hi. old @ new \<noteq> [] \<longrightarrow> entry_index rc (hd (old @ new)) \<le> lo \<longrightarrow> lo \<le> hi \<longrightarrow> hi \<in> entry_index rc ` set (old @ new) \<longrightarrow>
      fst (try_get_log_entries cfg rc (Included lo) (Included hi) (st'\<lparr>sto_reader := get_log_reader st', sto_reader_on := True\<rparr>)) =
        Ok (filter (\<lambda>e. lo \<le> entry_index rc e \<and> entry_index rc e \<le> hi) (old @ new)))"
proof -
  obtain st' where a: "append_store cfg rc new st = (Ok (), st')" "store_ok cfg rc st' (old @ new)"
    using append_store_spec [OF assms] by blast
  have "fst (try_get_log_entries cfg rc (Included lo) (Included hi) (st'\<lparr>sto_reader := get_log_reader st', sto_reader_on := True\<rparr>)) =
        Ok (filter (\<lambda>e. lo \<le> entry_index rc e \<and> entry_index rc e \<le> hi) (old @ new))"
    if "old @ new \<noteq> []" "entry_index rc (hd (old @ new)) \<le> lo" "lo \<le> hi" "hi \<in> entry_index rc ` set (old @ new)" for lo hi
    using fresh_reader_reads [OF a(2) that] by auto
  then show ?thesis using a by blast
qed

theorem store_append_then_read_witness:
  "\<exists>st'. append_store (ex_cfg Immediate) byte_codec [[1, 7], [2, 8, 9]] ex_store = (Ok (), st') \<and>
    fst (try_get_log_entries (ex_cfg Immediate) byte_codec (Included 2) (Included 2)
      (st'\<lparr>sto_reader := get_log_reader st', sto_reader_on := True\<rparr>)) = Ok [[2, 8, 9]]"
proof -
  obtain st' where a: "append_store (ex_cfg Immediate) byte_codec [[1, 7], [2, 8, 9]] ex_store = (Ok (), st')" and
      r: "\<forall>lo hi. [] @ [[1, 7], [2, 8, 9]] \<noteq> [] \<longrightarrow> entry_index byte_codec (hd ([] @ [[1, 7], [2, 8, 9]])) \<le> lo \<longrightarrow> lo \<le> hi \<longrightarrow>
        hi \<in> entry_index byte_codec ` set ([] @ [[1, 7], [2, 8, 9]]) \<longrightarrow>
        fst (try_get_log_entries (ex_cfg Immediate) byte_codec (Included lo) (Included hi)
          (st'\<lparr>sto_reader := get_log_reader st', sto_reader_on := True\<rparr>)) =
        Ok (filter (\<lambda>e. lo \<le> entry_index byte_codec e \<and> entry_index byte_codec e \<le> hi) ([] @ [[1, 7], [2, 8, 9]]))"
    using store_append_then_read [OF ex_store_ok] by blast
  show ?thesis using a r [rule_format, of 2 2] by (intro exI [of _ st']) simp
qed

end
